(* ===== verification/Prelude.thy ===== *)
theory Prelude
  imports Main "HOL-Library.Word" "HOL-Library.List_Lexorder"
begin

text \<open>
  Shared vocabulary of the development: machine integers and byte strings under their Rust
  names, the result type of fallible code with its sequencing operator, checked arithmetic, the
  big-endian and little-endian byte conversions of the Rust standard library, the loop that reads
  a counted sequence of items, and the two codec interfaces (locales) which every wire format of
  the program is shown to satisfy.
\<close>

section \<open>Types\<close>

type_synonym u8 = "8 word"
type_synonym u16 = "16 word"
type_synonym u32 = "32 word"
type_synonym u64 = "64 word"
type_synonym u128 = "128 word"
type_synonym bytes = "u8 list"

text \<open>
  A Rust array type \<open>[u8; n]\<close> is a byte list of length \<open>n\<close>; the length is the invariant that the
  Rust type carries.
\<close>

abbreviation arr :: "nat \<Rightarrow> bytes \<Rightarrow> bool" where
  "arr n xs \<equiv> length xs = n"

lemma option_eqI: "(\<And>v. a = Some v \<longleftrightarrow> b = Some v) \<Longrightarrow> a = b"
  by (cases a; cases b) auto

lemma arr_prefix: "xs @ a = ys @ b \<Longrightarrow> length xs = n \<Longrightarrow> length ys = n \<Longrightarrow> xs = ys \<and> a = b"
  by (simp add: append_eq_append_conv)

named_theorems wire_simps \<open>encoders unfolded and decoders characterised by the bytes they accept\<close>
named_theorems wf_simps \<open>well-formedness predicates, unfolded\<close>

section \<open>Results\<close>

definition rbind :: "'e + 'a \<Rightarrow> ('a \<Rightarrow> 'e + 'b) \<Rightarrow> 'e + 'b" where
  "rbind m f = (case m of Inl e \<Rightarrow> Inl e | Inr x \<Rightarrow> f x)"

definition map_err :: "('e \<Rightarrow> 'f) \<Rightarrow> 'e + 'a \<Rightarrow> 'f + 'a" where
  "map_err f m = (case m of Inl e \<Rightarrow> Inl (f e) | Inr x \<Rightarrow> Inr x)"

definition ok_or :: "'e \<Rightarrow> 'a option \<Rightarrow> 'e + 'a" where
  "ok_or e m = (case m of None \<Rightarrow> Inl e | Some x \<Rightarrow> Inr x)"

lemma rbind_simps [simp]:
  "rbind (Inl e) f = Inl e"
  "rbind (Inr x) f = f x"
  by (simp_all add: rbind_def)

lemma rbind_eq_Inr_iff [simp]:
  "rbind m f = Inr y \<longleftrightarrow> (\<exists>x. m = Inr x \<and> f x = Inr y)"
  by (cases m) auto

lemma rbind_eq_Inl_iff:
  "rbind m f = Inl e \<longleftrightarrow> m = Inl e \<or> (\<exists>x. m = Inr x \<and> f x = Inl e)"
  by (cases m) auto

lemma map_err_simps [simp]:
  "map_err g (Inl e) = Inl (g e)"
  "map_err g (Inr x) = Inr x"
  by (simp_all add: map_err_def)

lemma map_err_eq_Inr_iff [simp]: "map_err g m = Inr y \<longleftrightarrow> m = Inr y"
  by (cases m) auto

lemma ok_or_simps [simp]:
  "ok_or e None = Inl e"
  "ok_or e (Some x) = Inr x"
  by (simp_all add: ok_or_def)

lemma ok_or_eq_Inr_iff [simp]: "ok_or e m = Inr y \<longleftrightarrow> m = Some y"
  by (cases m) auto

lemma ok_or_eq_Inl_iff [simp]: "ok_or e m = Inl d \<longleftrightarrow> m = None \<and> d = e"
  by (cases m) auto

lemma guard_eq_Inr_iff [simp]: "(if b then Inl e else m) = Inr y \<longleftrightarrow> \<not> b \<and> m = Inr y"
  by simp

lemma guard_eq_Inr_iff' [simp]: "(if b then m else Inl e) = Inr y \<longleftrightarrow> b \<and> m = Inr y"
  by simp

section \<open>Checked arithmetic\<close>

lemma unat_less_2p: "unat w < 2 ^ LENGTH('a)" for w :: "'a::len word"
  by (fact unsigned_less)

definition checked_add :: "'a::len word \<Rightarrow> 'a word \<Rightarrow> 'a word option" where
  "checked_add a b = (if unat a + unat b < 2 ^ LENGTH('a) then Some (a + b) else None)"

definition checked_sub :: "'a::len word \<Rightarrow> 'a word \<Rightarrow> 'a word option" where
  "checked_sub a b = (if b \<le> a then Some (a - b) else None)"

definition checked_mul :: "'a::len word \<Rightarrow> 'a word \<Rightarrow> 'a word option" where
  "checked_mul a b = (if unat a * unat b < 2 ^ LENGTH('a) then Some (a * b) else None)"

definition saturating_add :: "'a::len word \<Rightarrow> 'a word \<Rightarrow> 'a word" where
  "saturating_add a b = (if unat a + unat b < 2 ^ LENGTH('a) then a + b else - 1)"

text \<open>\<open>checked_shl\<close> fails on a shift that is not below the width; a shorter shift drops the bits
  that leave the word.\<close>

definition checked_shl :: "'a::len word \<Rightarrow> nat \<Rightarrow> 'a word option" where
  "checked_shl a n = (if n < LENGTH('a) then Some (push_bit n a) else None)"

lemma checked_add_Some_iff:
  "checked_add a b = Some c \<longleftrightarrow>
     unat a + unat b < 2 ^ LENGTH('a) \<and> unat c = unat a + unat b"
  for a b c :: "'a::len word"
  by (auto simp: checked_add_def unat_word_ariths word_unat_eq_iff)

lemma checked_add_None_iff:
  "checked_add a b = None \<longleftrightarrow> 2 ^ LENGTH('a) \<le> unat a + unat b"
  for a b :: "'a::len word"
  by (auto simp: checked_add_def)

lemma checked_sub_Some_iff:
  "checked_sub a b = Some c \<longleftrightarrow> unat b \<le> unat a \<and> unat c = unat a - unat b"
  for a b c :: "'a::len word"
  by (auto simp: checked_sub_def word_le_nat_alt unat_sub word_unat_eq_iff)

lemma checked_sub_None_iff:
  "checked_sub a b = None \<longleftrightarrow> unat a < unat b"
  for a b :: "'a::len word"
  by (auto simp: checked_sub_def word_le_nat_alt)

lemma checked_mul_Some_iff:
  "checked_mul a b = Some c \<longleftrightarrow>
     unat a * unat b < 2 ^ LENGTH('a) \<and> unat c = unat a * unat b"
  for a b c :: "'a::len word"
  by (auto simp: checked_mul_def unat_word_ariths word_unat_eq_iff)

lemma checked_mul_None_iff:
  "checked_mul a b = None \<longleftrightarrow> 2 ^ LENGTH('a) \<le> unat a * unat b"
  for a b :: "'a::len word"
  by (auto simp: checked_mul_def)

lemma checked_add_ok:
  fixes a b :: "'a::len word"
  assumes "unat a + unat b < 2 ^ LENGTH('a)"
  obtains c where "checked_add a b = Some c" and "unat c = unat a + unat b"
proof
  show "checked_add a b = Some (a + b)"
    using assms by (simp add: checked_add_def)
  then show "unat (a + b) = unat a + unat b"
    by (simp only: checked_add_Some_iff)
qed

lemma checked_mul_ok:
  fixes a b :: "'a::len word"
  assumes "unat a * unat b < 2 ^ LENGTH('a)"
  obtains c where "checked_mul a b = Some c" and "unat c = unat a * unat b"
proof
  show "checked_mul a b = Some (a * b)"
    using assms by (simp add: checked_mul_def)
  then show "unat (a * b) = unat a * unat b"
    by (simp only: checked_mul_Some_iff)
qed

lemmas checked_iffs =
  checked_add_Some_iff checked_add_None_iff checked_sub_Some_iff checked_sub_None_iff
  checked_mul_Some_iff checked_mul_None_iff

lemma unat_ucast_up:
  "LENGTH('a) \<le> LENGTH('b) \<Longrightarrow> unat (ucast x :: 'b::len word) = unat x" for x :: "'a::len word"
proof -
  assume "LENGTH('a) \<le> LENGTH('b)"
  then have "(2 :: nat) ^ LENGTH('a) \<le> 2 ^ LENGTH('b)"
    by (intro power_increasing) simp_all
  then have "unat x < 2 ^ LENGTH('b)"
    using unat_less_2p [of x] by linarith
  then show ?thesis
    by (simp add: unsigned_ucast_eq take_bit_nat_eq_self_iff)
qed

section \<open>Byte conversions of the standard library\<close>

text \<open>The number denoted by big-endian bytes, and the \<open>n\<close> low bytes of a number, most significant
  first.\<close>

definition be_nat :: "bytes \<Rightarrow> nat" where
  "be_nat bs = foldl (\<lambda>a b. 256 * a + unat b) 0 bs"

fun nat_be :: "nat \<Rightarrow> nat \<Rightarrow> bytes" where
  "nat_be 0 k = []"
| "nat_be (Suc n) k = nat_be n (k div 256) @ [word_of_nat (k mod 256)]"

lemma nat_be_numeral:
  "nat_be (numeral k) n = nat_be (pred_numeral k) (n div 256) @ [of_nat (n mod 256)]"
  by (simp only: numeral_eq_Suc [of k] nat_be.simps)

definition to_be_bytes :: "'a::len word \<Rightarrow> bytes" where
  "to_be_bytes w = nat_be (LENGTH('a) div 8) (unat w)"

definition from_be_bytes :: "bytes \<Rightarrow> 'a::len word" where
  "from_be_bytes bs = word_of_nat (be_nat bs)"

definition to_le_bytes :: "'a::len word \<Rightarrow> bytes" where
  "to_le_bytes w = rev (to_be_bytes w)"

definition from_le_bytes :: "bytes \<Rightarrow> 'a::len word" where
  "from_le_bytes bs = from_be_bytes (rev bs)"

lemma be_nat_Nil [simp]: "be_nat [] = 0"
  by (simp add: be_nat_def)

lemma be_nat_snoc [simp]: "be_nat (bs @ [b]) = 256 * be_nat bs + unat b"
  by (simp add: be_nat_def)

lemma length_nat_be [simp]: "length (nat_be n k) = n"
  by (induction n arbitrary: k) auto

lemma unat_u8_less [simp]: "unat (b :: u8) < 256"
  using unat_less_2p [of b] by simp

lemma be_nat_less: "be_nat bs < 256 ^ length bs"
proof (induction bs rule: rev_induct)
  case Nil
  then show ?case by simp
next
  case (snoc b bs)
  have "256 * be_nat bs + unat b < 256 * Suc (be_nat bs)"
    by simp
  also have "\<dots> \<le> 256 * 256 ^ length bs"
    using snoc by (intro mult_le_mono) auto
  finally show ?case by simp
qed

lemma unat_byte_of_nat [simp]: "unat (word_of_nat k :: u8) = k mod 256"
  by (simp add: unat_of_nat)

lemma byte_of_unat [simp]: "(word_of_nat (unat b) :: u8) = b"
  by simp

lemma be_nat_nat_be [simp]: "be_nat (nat_be n k) = k mod 256 ^ n"
proof (induction n arbitrary: k)
  case 0
  then show ?case by simp
next
  case (Suc n)
  have "be_nat (nat_be (Suc n) k) = 256 * (k div 256 mod 256 ^ n) + k mod 256"
    by (simp add: Suc)
  also have "\<dots> = k mod (256 * 256 ^ n)"
    by (simp add: mod_mult2_eq)
  finally show ?case by simp
qed

lemma nat_be_be_nat [simp]: "nat_be (length bs) (be_nat bs) = bs"
proof (induction bs rule: rev_induct)
  case Nil
  then show ?case by simp
next
  case (snoc b bs)
  have "(256 * be_nat bs + unat b) div 256 = be_nat bs"
    by (simp add: div_mult_self4 [of 256 "unat b" "be_nat bs"])
  moreover have "(256 * be_nat bs + unat b) mod 256 = unat b"
    by simp
  ultimately show ?case using snoc by simp
qed

lemma be_nat_inj: "length xs = length ys \<Longrightarrow> be_nat xs = be_nat ys \<Longrightarrow> xs = ys"
  by (metis nat_be_be_nat)

lemma be_nat_append: "be_nat (xs @ ys) = be_nat xs * 256 ^ length ys + be_nat ys"
proof (induction ys rule: rev_induct)
  case Nil
  then show ?case by simp
next
  case (snoc b ys)
  then show ?case
    by (simp only: append_assoc [symmetric] be_nat_snoc) (simp add: algebra_simps)
qed

lemma length_to_be_bytes [simp]: "length (to_be_bytes (w :: 'a::len word)) = LENGTH('a) div 8"
  by (simp add: to_be_bytes_def)

lemma from_to_be_bytes:
  assumes "8 dvd LENGTH('a)"
  shows "from_be_bytes (to_be_bytes w) = (w :: 'a::len word)"
proof -
  obtain n where n: "LENGTH('a) = 8 * n"
    using assms by auto
  have "(256 :: nat) ^ n = 2 ^ LENGTH('a)"
    by (simp add: n power_mult)
  moreover have "unat w < 2 ^ LENGTH('a)"
    by (rule unat_less_2p)
  ultimately show ?thesis
    by (simp add: to_be_bytes_def from_be_bytes_def n)
qed

lemma to_from_be_bytes:
  assumes "8 * length bs = LENGTH('a)"
  shows "to_be_bytes (from_be_bytes bs :: 'a::len word) = bs"
proof -
  have "(256 :: nat) ^ length bs = 2 ^ LENGTH('a)"
    by (simp add: assms [symmetric] power_mult)
  then have "be_nat bs < 2 ^ LENGTH('a)"
    using be_nat_less [of bs] by simp
  then have "unat (from_be_bytes bs :: 'a word) = be_nat bs"
    by (simp add: from_be_bytes_def unat_of_nat take_bit_nat_eq_self_iff)
  moreover have "LENGTH('a) div 8 = length bs"
    using assms by simp
  ultimately show ?thesis
    by (simp add: to_be_bytes_def)
qed

lemma be_nat_to_be_bytes:
  assumes "8 dvd LENGTH('a)"
  shows "be_nat (to_be_bytes (w :: 'a::len word)) = unat w"
proof -
  obtain n where n: "LENGTH('a) = 8 * n"
    using assms by auto
  have "(256 :: nat) ^ n = 2 ^ LENGTH('a)"
    by (simp add: n power_mult)
  then show ?thesis
    using unat_less_2p [of w] by (simp add: to_be_bytes_def n)
qed

text \<open>Byte strings of equal length are ordered as the numbers they denote.\<close>

lemma to_be_bytes_eq_iff [simp]:
  "8 dvd LENGTH('a) \<Longrightarrow> to_be_bytes v = to_be_bytes w \<longleftrightarrow> v = w" for v w :: "'a::len word"
  by (metis from_to_be_bytes)

lemma be_nat_Cons: "be_nat (b # bs) = unat b * 256 ^ length bs + be_nat bs"
  using be_nat_append [of "[b]" bs] be_nat_snoc [of "[]" b] by simp

lemma be_nat_less_iff: "length xs = length ys \<Longrightarrow> be_nat xs < be_nat ys \<longleftrightarrow> xs < ys"
proof (induction xs ys rule: list_induct2)
  case Nil
  then show ?case by simp
next
  case (Cons x xs y ys)
  have mono: "unat a * 256 ^ length us + be_nat us < unat b * 256 ^ length us + be_nat vs"
    if "unat a < unat b" and "length us = length vs" for a b :: u8 and us vs :: bytes
  proof -
    have "unat a * 256 ^ length us + be_nat us < Suc (unat a) * 256 ^ length us"
      using be_nat_less [of us] by simp
    also have "\<dots> \<le> unat b * 256 ^ length us"
      using that(1) by (intro mult_le_mono1) simp
    finally show ?thesis by simp
  qed
  show ?case
  proof (cases x y rule: linorder_cases)
    case less
    with mono [of x y xs ys] Cons.hyps show ?thesis
      by (simp add: be_nat_Cons word_less_nat_alt)
  next
    case equal
    with Cons show ?thesis
      by (simp add: be_nat_Cons)
  next
    case greater
    with mono [of y x ys xs] Cons.hyps show ?thesis
      by (auto simp: be_nat_Cons word_less_nat_alt)
  qed
qed

lemma be_nat_le_iff: "length xs = length ys \<Longrightarrow> be_nat xs \<le> be_nat ys \<longleftrightarrow> xs \<le> ys"
  using be_nat_less_iff [of ys xs] by (simp add: not_less [symmetric])

text \<open>The minimal big-endian bytes of a number (\<open>BigUint::to_bytes_be\<close>: one zero byte for zero), and
  their placement at the end of a zeroed 32-byte array.\<close>

fun to_bytes_be :: "nat \<Rightarrow> bytes" where
  "to_bytes_be k = (if k < 256 then [word_of_nat k]
                    else to_bytes_be (k div 256) @ [word_of_nat (k mod 256)])"

declare to_bytes_be.simps [simp del]

definition pad32 :: "bytes \<Rightarrow> bytes" where
  "pad32 bs = replicate (32 - length bs) 0 @ bs"

lemma be_nat_to_bytes_be [simp]: "be_nat (to_bytes_be k) = k"
proof (induction k rule: to_bytes_be.induct)
  case (1 k)
  show ?case
  proof (cases "k < 256")
    case True
    then show ?thesis
      using be_nat_snoc [of "[]" "word_of_nat k"] by (simp add: to_bytes_be.simps [of k])
  next
    case False
    then show ?thesis
      using "1.IH" by (simp add: to_bytes_be.simps [of k])
  qed
qed

lemma length_to_bytes_be_le: "k < 256 ^ n \<Longrightarrow> 0 < n \<Longrightarrow> length (to_bytes_be k) \<le> n"
proof (induction n arbitrary: k)
  case 0
  then show ?case by simp
next
  case (Suc n)
  show ?case
  proof (cases "k < 256")
    case True
    then show ?thesis by (simp add: to_bytes_be.simps [of k])
  next
    case False
    with Suc.prems have "k div 256 < 256 ^ n" and "0 < n"
      by (auto simp: div_less_iff_less_mult mult.commute intro: Suc_lessI gr0I)
    then show ?thesis
      using Suc.IH [of "k div 256"] False by (simp add: to_bytes_be.simps [of k])
  qed
qed

lemma length_to_bytes_be_iff: "length (to_bytes_be k) \<le> 32 \<longleftrightarrow> k < 2 ^ 256"
proof -
  have "k < 256 ^ length (to_bytes_be k)"
    using be_nat_less [of "to_bytes_be k"] by simp
  moreover have "length (to_bytes_be k) \<le> 32 \<Longrightarrow> (256 :: nat) ^ length (to_bytes_be k) \<le> 256 ^ 32"
    by (intro power_increasing) simp_all
  ultimately show ?thesis
    using length_to_bytes_be_le [of k 32] by (auto simp: not_less)
qed

lemma be_nat_replicate_0 [simp]: "be_nat (replicate n 0 @ bs) = be_nat bs"
  by (induction n) (simp_all add: be_nat_Cons)

lemma be_nat_pad32 [simp]: "be_nat (pad32 bs) = be_nat bs"
  by (simp add: pad32_def)

lemma length_pad32 [simp]: "length bs \<le> 32 \<Longrightarrow> length (pad32 bs) = 32"
  by (simp add: pad32_def)

section \<open>Counted sequences\<close>

text \<open>The loop \<open>for _ in 0..n { items.push(read(input)?) }\<close>.\<close>

fun read_many :: "(bytes \<Rightarrow> 'e + ('a \<times> bytes)) \<Rightarrow> nat \<Rightarrow> bytes \<Rightarrow> 'e + ('a list \<times> bytes)" where
  "read_many rd 0 input = Inr ([], input)"
| "read_many rd (Suc n) input =
     rbind (rd input) (\<lambda>(x, input).
     rbind (read_many rd n input) (\<lambda>(xs, input). Inr (x # xs, input)))"

lemma read_many_length: "read_many rd n input = Inr (xs, rest) \<Longrightarrow> length xs = n"
  by (induction n arbitrary: input xs) auto

section \<open>Codec interfaces\<close>

text \<open>
  A streaming codec: the decoder reads one value from the front of the input and hands the rest
  back. The law is that what was written is read back, whatever follows it.
\<close>

locale byte_codec =
  fixes enc :: "'a \<Rightarrow> bytes"
    and dec :: "bytes \<Rightarrow> 'e + ('a \<times> bytes)"
    and wf :: "'a \<Rightarrow> bool"
  assumes dec_enc: "wf x \<Longrightarrow> dec (enc x @ rest) = Inr (x, rest)"
begin

lemma enc_prefix_free:
  assumes "wf x" and "wf y" and "enc x @ r = enc y @ s"
  shows "x = y \<and> r = s"
  using dec_enc [OF assms(1), of r] dec_enc [OF assms(2), of s]
  unfolding assms(3) by simp

lemma enc_inj: "wf x \<Longrightarrow> wf y \<Longrightarrow> enc x = enc y \<Longrightarrow> x = y"
  using enc_prefix_free [of x y "[]" "[]"] by simp

lemma read_many_enc:
  "list_all wf xs \<Longrightarrow>
   read_many dec (length xs) (concat (map enc xs) @ rest) = Inr (xs, rest)"
  by (induction xs) (auto simp: dec_enc)

lemma concat_enc_inj:
  assumes "list_all wf xs" and "list_all wf ys" and "length xs = length ys"
    and "concat (map enc xs) @ r = concat (map enc ys) @ s"
  shows "xs = ys \<and> r = s"
  using read_many_enc [OF assms(1), of r] read_many_enc [OF assms(2), of s]
  unfolding assms(3,4) by simp

end

text \<open>
  A canonical codec accepts nothing but what the encoder writes: each value has one encoding, so a
  decoded message determines the bytes it came from.
\<close>

locale canonical_codec = byte_codec +
  assumes enc_dec: "dec input = Inr (x, rest) \<Longrightarrow> wf x \<and> input = enc x @ rest"
begin

lemma dec_iff: "dec input = Inr (x, rest) \<longleftrightarrow> wf x \<and> input = enc x @ rest"
  using dec_enc enc_dec by blast

lemma read_many_iff:
  "read_many dec n input = Inr (xs, rest) \<longleftrightarrow>
     length xs = n \<and> list_all wf xs \<and> input = concat (map enc xs) @ rest"
proof (induction n arbitrary: input xs)
  case 0
  then show ?case by auto
next
  case (Suc n)
  then show ?case by (cases xs) (auto simp: dec_iff)
qed

end

text \<open>
  A message codec decodes a whole byte string. Decoding what was encoded gives the value back, and
  only encodings of well-formed values decode.
\<close>

locale message_codec =
  fixes enc :: "'a \<Rightarrow> bytes"
    and dec :: "bytes \<Rightarrow> 'e + 'a"
    and wf :: "'a \<Rightarrow> bool"
  assumes msg_dec_enc: "wf x \<Longrightarrow> dec (enc x) = Inr x"
    and msg_enc_dec: "dec input = Inr x \<Longrightarrow> wf x \<and> input = enc x"
begin

lemma msg_dec_iff: "dec input = Inr x \<longleftrightarrow> wf x \<and> input = enc x"
  using msg_dec_enc msg_enc_dec by blast

lemma msg_enc_inj: "wf x \<Longrightarrow> wf y \<Longrightarrow> enc x = enc y \<Longrightarrow> x = y"
  by (metis msg_dec_enc sum.inject(2))

lemma msg_dec_inj: "dec a = Inr x \<Longrightarrow> dec b = Inr x \<Longrightarrow> a = b"
  using msg_enc_dec by blast

end

section \<open>Step systems\<close>

text \<open>
  A step relation with an invariant, and one whose steps also decrease a rank: what holds of one
  step holds of every run, and the rank bounds the length of a run.
\<close>

locale step_invariant =
  fixes step :: "'s \<Rightarrow> 's \<Rightarrow> bool" and inv :: "'s \<Rightarrow> bool"
  assumes inv_step: "step s t \<Longrightarrow> inv s \<Longrightarrow> inv t"
begin

lemma inv_run: "step\<^sup>*\<^sup>* s t \<Longrightarrow> inv s \<Longrightarrow> inv t"
  by (induction rule: rtranclp_induct) (auto intro: inv_step)

end

locale ranked_steps = step_invariant +
  fixes rank :: "'s \<Rightarrow> nat"
  assumes rank_step: "step s t \<Longrightarrow> inv s \<Longrightarrow> rank t < rank s"
begin

lemma run_bounded: "(step ^^ n) s t \<Longrightarrow> inv s \<Longrightarrow> n + rank t \<le> rank s"
proof (induction n arbitrary: t)
  case (Suc n)
  then obtain u where su: "(step ^^ n) s u" and ut: "step u t"
    by auto
  then have "inv u"
    using inv_run Suc.prems(2) relpowp_imp_rtranclp by metis
  then show ?case
    using Suc.IH [OF su Suc.prems(2)] rank_step [OF ut] by simp
qed simp

end

end
