(* ===== verification/Codec.thy ===== *)
theory Codec
  imports Prelude
begin

text \<open>
  The consensus codec (crates/mutiny-codec/src/lib.rs): fixed-width big-endian integers and the
  canonical variable-length integer. Writers append to an output buffer; readers take the remaining
  input and return the value with the input that is left, or a decode error. The theory shows that
  every reader and its writer form a canonical codec, the interface \<open>canonical_codec\<close> of the
  prelude, so that the formats built from them inherit round trip and uniqueness of encodings.
\<close>

unbundle bit_operations_syntax

section \<open>Model\<close>

datatype DecodeError =
    DecUnexpectedEof
  | DecOverflow
  | DecNonCanonicalVarUInt
  | DecVarUIntTooLong

definition write_u8 :: "bytes \<Rightarrow> u8 \<Rightarrow> bytes" where
  "write_u8 out value = out @ [value]"

definition write_u16_be :: "bytes \<Rightarrow> u16 \<Rightarrow> bytes" where
  "write_u16_be out value = out @ to_be_bytes value"

definition write_u32_be :: "bytes \<Rightarrow> u32 \<Rightarrow> bytes" where
  "write_u32_be out value = out @ to_be_bytes value"

definition write_u64_be :: "bytes \<Rightarrow> u64 \<Rightarrow> bytes" where
  "write_u64_be out value = out @ to_be_bytes value"

definition write_u256_be :: "bytes \<Rightarrow> bytes \<Rightarrow> bytes" where
  "write_u256_be out value = out @ value"

definition take_bytes :: "bytes \<Rightarrow> nat \<Rightarrow> DecodeError + (bytes \<times> bytes)" where
  "take_bytes input n =
     (if length input < n then Inl DecUnexpectedEof else Inr (take n input, drop n input))"

definition read_u8 :: "bytes \<Rightarrow> DecodeError + (u8 \<times> bytes)" where
  "read_u8 input = rbind (take_bytes input 1) (\<lambda>(b, input). Inr (b ! 0, input))"

definition read_u16_be :: "bytes \<Rightarrow> DecodeError + (u16 \<times> bytes)" where
  "read_u16_be input = rbind (take_bytes input 2) (\<lambda>(b, input). Inr (from_be_bytes b, input))"

definition read_u32_be :: "bytes \<Rightarrow> DecodeError + (u32 \<times> bytes)" where
  "read_u32_be input = rbind (take_bytes input 4) (\<lambda>(b, input). Inr (from_be_bytes b, input))"

definition read_u64_be :: "bytes \<Rightarrow> DecodeError + (u64 \<times> bytes)" where
  "read_u64_be input = rbind (take_bytes input 8) (\<lambda>(b, input). Inr (from_be_bytes b, input))"

definition read_u256_be :: "bytes \<Rightarrow> DecodeError + (bytes \<times> bytes)" where
  "read_u256_be input = rbind (take_bytes input 32) (\<lambda>(b, input). Inr (b, input))"

text \<open>The write loop ends because the remaining value is shifted right by seven bits each time.\<close>

lemma unat_drop7: "unat (drop_bit 7 v) = unat v div 128" for v :: u64
  unfolding unat_drop_bit_eq by (simp add: drop_bit_eq_div)

lemma drop7_less: "drop_bit 7 v \<noteq> 0 \<Longrightarrow> unat (drop_bit 7 v) < unat v" for v :: u64
  using unat_drop7 [of v] unat_gt_0 [of "drop_bit 7 v"] by simp

function write_varuint :: "bytes \<Rightarrow> u64 \<Rightarrow> bytes" where
  "write_varuint out value =
     (let byte = ucast (value AND 0x7f) :: u8;
          value = drop_bit 7 value;
          byte = (if value \<noteq> 0 then byte OR 0x80 else byte);
          out = out @ [byte]
      in if value = 0 then out else write_varuint out value)"
  by pat_completeness auto
termination
  by (relation "measure (\<lambda>(out, value). unat value)") (auto intro: drop7_less)

declare write_varuint.simps [simp del]

definition encode_varuint :: "u64 \<Rightarrow> bytes" where
  "encode_varuint value = write_varuint [] value"

text \<open>
  The read loop over \<open>value\<close>, \<open>shift\<close> and \<open>consumed\<close>: it returns the value and the number of bytes
  consumed when a byte without continuation bit is met.
\<close>

function read_varuint_loop ::
    "bytes \<Rightarrow> u64 \<Rightarrow> nat \<Rightarrow> nat \<Rightarrow> DecodeError + (u64 \<times> nat)" where
  "read_varuint_loop original value shift consumed =
     (if consumed \<ge> 10 then Inl DecVarUIntTooLong
      else if consumed \<ge> length original then Inl DecUnexpectedEof
      else
        let byte = original ! consumed;
            payload = ucast (byte AND 0x7f) :: u64
        in if shift = 63 \<and> payload > 1 then Inl DecOverflow
           else if shift > 63 \<and> payload \<noteq> 0 then Inl DecOverflow
           else case checked_shl payload shift of
             None \<Rightarrow> Inl DecOverflow
           | Some shifted \<Rightarrow>
               (let value = value OR shifted; consumed = consumed + 1
                in if byte AND 0x80 = 0 then Inr (value, consumed)
                   else read_varuint_loop original value (shift + 7) consumed))"
  by pat_completeness auto
termination
  by (relation "measure (\<lambda>(original, value, shift, consumed). 10 - consumed)") auto

declare read_varuint_loop.simps [simp del]

definition read_varuint :: "bytes \<Rightarrow> DecodeError + (u64 \<times> bytes)" where
  "read_varuint input =
     rbind (read_varuint_loop input 0 0 0) (\<lambda>(value, consumed).
       let canonical = encode_varuint value
       in if canonical \<noteq> take consumed input then Inl DecNonCanonicalVarUInt
          else Inr (value, drop consumed input))"

section \<open>Fixed-width integers are canonical codecs\<close>

lemmas write_defs [simp] =
  write_u8_def write_u16_be_def write_u32_be_def write_u64_be_def write_u256_be_def

lemma take_bytes_iff:
  "take_bytes input n = Inr (h, rest) \<longleftrightarrow> length h = n \<and> input = h @ rest"
  by (auto simp: take_bytes_def)

lemma read_word_iff:
  assumes "8 * n = LENGTH('a)"
  shows "rbind (take_bytes input n) (\<lambda>(b, input). Inr (from_be_bytes b :: 'a::len word, input))
           = Inr (v, rest) \<longleftrightarrow> input = to_be_bytes v @ rest"
proof -
  have dvd: "8 dvd LENGTH('a)"
    using assms by (metis dvd_triv_left)
  have len: "length (to_be_bytes v) = n"
    by (simp add: assms [symmetric])
  have "to_be_bytes (from_be_bytes b :: 'a word) = b" if "length b = n" for b
    using that assms by (intro to_from_be_bytes) simp
  then show ?thesis
    by (auto simp: take_bytes_iff from_to_be_bytes [OF dvd] assms [symmetric])
qed

lemma read_u8_iff [wire_simps]: "read_u8 input = Inr (v, rest) \<longleftrightarrow> input = v # rest"
  by (auto simp: read_u8_def take_bytes_iff length_Suc_conv)

lemma read_u16_be_iff [wire_simps]:
  "read_u16_be input = Inr (v, rest) \<longleftrightarrow> input = to_be_bytes v @ rest"
  unfolding read_u16_be_def by (rule read_word_iff) simp

lemma read_u32_be_iff [wire_simps]:
  "read_u32_be input = Inr (v, rest) \<longleftrightarrow> input = to_be_bytes v @ rest"
  unfolding read_u32_be_def by (rule read_word_iff) simp

lemma read_u64_be_iff [wire_simps]:
  "read_u64_be input = Inr (v, rest) \<longleftrightarrow> input = to_be_bytes v @ rest"
  unfolding read_u64_be_def by (rule read_word_iff) simp

lemma read_u256_be_iff [wire_simps]:
  "read_u256_be input = Inr (v, rest) \<longleftrightarrow> length v = 32 \<and> input = v @ rest"
  by (auto simp: read_u256_be_def take_bytes_iff)

interpretation u8_codec: canonical_codec "\<lambda>v. [v]" read_u8 "\<lambda>_. True"
  by unfold_locales (auto simp: wire_simps)

interpretation u16_codec: canonical_codec "to_be_bytes :: u16 \<Rightarrow> bytes" read_u16_be "\<lambda>_. True"
  by unfold_locales (auto simp: wire_simps)

interpretation u32_codec: canonical_codec "to_be_bytes :: u32 \<Rightarrow> bytes" read_u32_be "\<lambda>_. True"
  by unfold_locales (auto simp: wire_simps)

interpretation u64_codec: canonical_codec "to_be_bytes :: u64 \<Rightarrow> bytes" read_u64_be "\<lambda>_. True"
  by unfold_locales (auto simp: wire_simps)

interpretation u256_codec: canonical_codec "\<lambda>v. v" read_u256_be "arr 32"
  by unfold_locales (auto simp: wire_simps)

section \<open>The variable-length integer\<close>

text \<open>A reference encoding on natural numbers: base 128, least significant digit first.\<close>

fun leb128 :: "nat \<Rightarrow> bytes" where
  "leb128 k = (if k < 128 then [word_of_nat k]
               else word_of_nat (128 + k mod 128) # leb128 (k div 128))"

declare leb128.simps [simp del]

lemma ucast_of_unat: "(ucast x :: 'b::len word) = word_of_nat (unat x)" for x :: "'a::len word"
  by (simp add: word_unat_eq_iff unsigned_ucast_eq unat_of_nat take_bit_eq_mod)

lemma and_7f: "unat (x AND 0x7f) = unat x mod 128" for x :: "'a::len word"
proof -
  have "(0x7f :: 'a word) = mask 7"
    by (simp add: mask_eq_exp_minus_1)
  then have *: "x AND 0x7f = take_bit 7 x"
    by (simp add: take_bit_eq_mask)
  show ?thesis
    unfolding * unsigned_take_bit_eq by (simp add: take_bit_eq_mod)
qed

lemma or_eq_plus:
  "unat a < 2 ^ n \<Longrightarrow> a OR push_bit n b = a + push_bit n b" for a b :: "'a::len word"
proof -
  assume a: "unat a < 2 ^ n"
  have "a AND push_bit n b = 0"
  proof (rule bit_word_eqI)
    fix i
    assume "i < LENGTH('a)"
    have "take_bit n a = a"
      using a by (simp add: word_unat_eq_iff unsigned_take_bit_eq take_bit_nat_eq_self_iff)
    then have "bit a i \<Longrightarrow> i < n"
      by (metis bit_take_bit_iff)
    then show "bit (a AND push_bit n b) i = bit (0 :: 'a word) i"
      by (auto simp: bit_simps)
  qed
  then show ?thesis
    using word_plus_and_or [of a "push_bit n b"] by simp
qed

lemma or_80: "unat b < 128 \<Longrightarrow> b OR 0x80 = b + 0x80" for b :: u8
  using or_eq_plus [of b 7 1] by (simp add: push_bit_eq_mult)

lemma and_80_eq_0: "b AND 0x80 = 0 \<longleftrightarrow> unat b < 128" for b :: u8
proof -
  have "b AND 0x80 = 0 \<longleftrightarrow> \<not> bit b 7"
    using and_exp_eq_0_iff_not_bit [of b 7] by simp
  also have "\<dots> \<longleftrightarrow> \<not> bit (unat b) 7"
    by (simp add: bit_unsigned_iff)
  also have "\<dots> \<longleftrightarrow> even (unat b div 128)"
    by (simp add: bit_iff_odd)
  also have "\<dots> \<longleftrightarrow> unat b < 128"
  proof -
    have "unat b div 128 < 2"
      using unat_u8_less [of b] by (simp add: div_less_iff_less_mult)
    then consider "unat b div 128 = 0" | "unat b div 128 = 1"
      by linarith
    then show ?thesis
      by cases (auto simp: div_eq_0_iff)
  qed
  finally show ?thesis .
qed

lemma write_varuint_eq: "write_varuint out v = out @ leb128 (unat v)"
proof (induction out v rule: write_varuint.induct)
  case (1 out v)
  have low: "ucast (v AND 0x7f) = (word_of_nat (unat v mod 128) :: u8)"
    by (simp add: ucast_of_unat and_7f)
  show ?case
  proof (cases "drop_bit 7 v = 0")
    case True
    then have "unat v < 128"
      using unat_drop7 [of v] by simp
    with True low show ?thesis
      by (simp add: write_varuint.simps [of out v] leb128.simps [of "unat v"] Let_def)
  next
    case False
    then have "\<not> unat v < 128"
      using unat_drop7 [of v] unat_gt_0 [of "drop_bit 7 v"] by simp
    moreover have "(word_of_nat (unat v mod 128) :: u8) OR 0x80 = word_of_nat (128 + unat v mod 128)"
      by (simp add: or_80)
    ultimately show ?thesis
      using False low "1.IH" [OF refl refl refl refl False]
      by (simp add: write_varuint.simps [of out v] leb128.simps [of "unat v"] Let_def unat_drop7)
  qed
qed

lemma write_varuint_append [wire_simps]: "write_varuint out v = out @ encode_varuint v"
  by (simp add: encode_varuint_def write_varuint_eq)

lemma encode_varuint_eq: "encode_varuint v = leb128 (unat v)"
  by (simp add: encode_varuint_def write_varuint_eq)

lemma or_push_digit:
  assumes "unat acc < 2 ^ n" and "unat acc + d * 2 ^ n < 2 ^ 64" and "d < 128"
  shows "acc OR push_bit n (word_of_nat d) = (word_of_nat (unat acc + d * 2 ^ n) :: u64)"
proof -
  have "(word_of_nat d :: u64) * 2 ^ n = word_of_nat (d * 2 ^ n)"
    by simp
  then show ?thesis
    unfolding or_eq_plus [OF assms(1)] by (simp add: push_bit_eq_mult)
qed

lemma read_varuint_loop_step:
  fixes original :: bytes and acc :: u64
  defines "d i \<equiv> unat (original ! i) mod 128"
    and "next i \<equiv> (word_of_nat (unat acc + unat (original ! i) mod 128 * 2 ^ (7 * i)) :: u64)"
  assumes "i < 10" and "i < length original"
    and "unat acc < 2 ^ (7 * i)" and "unat acc + d i * 2 ^ (7 * i) < 2 ^ 64"
  shows "read_varuint_loop original acc (7 * i) i =
           (if unat (original ! i) < 128 then Inr (next i, i + 1)
            else read_varuint_loop original (next i) (7 * i + 7) (i + 1))"
proof -
  have d: "d i < 128"
    by (simp add: d_def)
  have payload: "(ucast (original ! i AND 0x7f) :: u64) = word_of_nat (d i)"
    by (simp add: ucast_of_unat and_7f d_def)
  have "\<not> (7 * i = 63 \<and> (1 :: u64) < word_of_nat (d i))"
  proof
    assume *: "7 * i = 63 \<and> (1 :: u64) < word_of_nat (d i)"
    then have "1 < d i"
      using d by (auto simp: word_less_nat_alt unat_of_nat take_bit_eq_mod)
    then have "2 * 2 ^ (7 * i) \<le> d i * 2 ^ (7 * i)"
      by (intro mult_le_mono1) simp
    then have "2 ^ 64 \<le> d i * 2 ^ (7 * i)"
      using * by simp
    with assms(6) show False by simp
  qed
  moreover have "acc OR push_bit (7 * i) (word_of_nat (d i)) = next i"
    using or_push_digit [OF assms(5,6) d] by (simp only: d_def next_def)
  ultimately show ?thesis
    using assms(3,4)
    by (subst read_varuint_loop.simps)
      (simp only: Let_def payload checked_shl_def and_80_eq_0, simp)
qed

text \<open>
  The read loop on an encoding: with \<open>shift = 7 * consumed\<close> and an accumulated value below
  \<open>2 ^ shift\<close>, it adds the digits that remain, provided that the total fits in 64 bits.
\<close>

lemma read_varuint_loop_leb128:
  assumes "drop i original = leb128 k @ rest"
    and "unat acc < 2 ^ (7 * i)"
    and "unat acc + k * 2 ^ (7 * i) < 2 ^ 64"
    and "k = 0 \<Longrightarrow> i = 0"
  shows "read_varuint_loop original acc (7 * i) i =
           Inr (word_of_nat (unat acc + k * 2 ^ (7 * i)), i + length (leb128 k))"
  using assms
proof (induction k arbitrary: i acc rule: leb128.induct)
  case (1 k)
  define d where "d = k mod 128"
  define acc' :: u64 where "acc' = word_of_nat (unat acc + d * 2 ^ (7 * i))"
  have i: "i < 10"
  proof (rule ccontr)
    assume "\<not> i < 10"
    then have k: "1 \<le> k" and "70 \<le> 7 * i"
      using "1.prems"(4) by (cases k, auto)
    then have "1 * 2 ^ 70 \<le> k * 2 ^ (7 * i)"
      by (intro mult_le_mono power_increasing) simp_all
    with "1.prems"(3) show False by simp
  qed
  have ne: "leb128 k \<noteq> []"
    by (simp add: leb128.simps [of k])
  have len: "i < length original"
    using "1.prems"(1) ne by (metis append_is_Nil_conv drop_eq_Nil not_le)
  have hd: "original ! i = hd (leb128 k)"
    using "1.prems"(1) ne len by (metis hd_append2 hd_drop_conv_nth)
  have unat_byte: "unat (original ! i) = (if k < 128 then k else 128 + d)"
    by (simp add: hd leb128.simps [of k] d_def del: of_nat_add)
  then have digit: "unat (original ! i) mod 128 = d"
    by (auto simp: d_def)
  have "d * 2 ^ (7 * i) \<le> k * 2 ^ (7 * i)"
    by (simp add: d_def)
  then have small: "unat acc + d * 2 ^ (7 * i) < 2 ^ 64"
    using "1.prems"(3) by linarith
  then have acc': "unat acc' = unat acc + d * 2 ^ (7 * i)"
    by (simp add: acc'_def unat_of_nat take_bit_nat_eq_self_iff del: of_nat_add)
  have step: "read_varuint_loop original acc (7 * i) i =
      (if k < 128 then Inr (acc', i + 1) else read_varuint_loop original acc' (7 * i + 7) (i + 1))"
    using read_varuint_loop_step [OF i len "1.prems"(2)] small unat_byte
    unfolding digit acc'_def [symmetric] by simp
  show ?case
  proof (cases "k < 128")
    case True
    then show ?thesis
      by (simp add: step leb128.simps [of k] acc'_def d_def del: of_nat_add)
  next
    case False
    have total: "unat acc' + k div 128 * 2 ^ (7 * i + 7) = unat acc + k * 2 ^ (7 * i)"
    proof -
      have "k * 2 ^ (7 * i) = (k div 128 * 128 + d) * 2 ^ (7 * i)"
        by (simp only: d_def div_mult_mod_eq)
      then show ?thesis
        unfolding acc' by (simp add: power_add algebra_simps)
    qed
    have "drop (i + 1) original = leb128 (k div 128) @ rest"
      using arg_cong [OF "1.prems"(1), of tl] False
      by (simp add: leb128.simps [of k] drop_Suc tl_drop)
    moreover have "unat acc' < 2 ^ (7 * (i + 1))"
    proof -
      have "d * 2 ^ (7 * i) \<le> 127 * 2 ^ (7 * i)"
        by (intro mult_le_mono1) (simp add: d_def)
      with "1.prems"(2) have "unat acc + d * 2 ^ (7 * i) < 128 * 2 ^ (7 * i)"
        by linarith
      then show ?thesis
        unfolding acc' by (simp add: power_add)
    qed
    ultimately have "read_varuint_loop original acc' (7 * i + 7) (i + 1) =
        Inr (word_of_nat (unat acc + k * 2 ^ (7 * i)), i + 1 + length (leb128 (k div 128)))"
      using "1.IH" [OF False, of "i + 1" acc'] "1.prems"(3) False total
      by (simp add: algebra_simps del: of_nat_add)
    then show ?thesis
      using False by (simp add: step leb128.simps [of k] del: of_nat_add)
  qed
qed

lemma read_varuint_encode: "read_varuint (encode_varuint v @ rest) = Inr (v, rest)"
proof -
  have "read_varuint_loop (encode_varuint v @ rest) 0 0 0 = Inr (v, length (encode_varuint v))"
    using read_varuint_loop_leb128 [of 0 "encode_varuint v @ rest" "unat v" rest 0] unat_less_2p [of v]
    by (simp add: encode_varuint_eq)
  then show ?thesis
    by (simp add: read_varuint_def)
qed

lemma read_varuint_sound:
  assumes "read_varuint input = Inr (v, rest)"
  shows "input = encode_varuint v @ rest"
proof -
  obtain n where "encode_varuint v = take n input" and "rest = drop n input"
    using assms by (auto simp: read_varuint_def Let_def split: if_splits)
  then show ?thesis by simp
qed

interpretation varuint: canonical_codec encode_varuint read_varuint "\<lambda>_. True"
  by unfold_locales (auto simp: read_varuint_encode dest: read_varuint_sound)

lemma read_varuint_iff [wire_simps]:
  "read_varuint input = Inr (v, rest) \<longleftrightarrow> input = encode_varuint v @ rest"
  using varuint.dec_iff by simp

lemma length_leb128: "k < 128 ^ n \<Longrightarrow> 0 < n \<Longrightarrow> length (leb128 k) \<le> n"
proof (induction n arbitrary: k)
  case 0
  then show ?case by simp
next
  case (Suc n)
  show ?case
  proof (cases "k < 128")
    case True
    then show ?thesis by (simp add: leb128.simps [of k])
  next
    case False
    with Suc.prems have "k div 128 < 128 ^ n" and "0 < n"
      by (auto simp: div_less_iff_less_mult mult.commute intro: gr0I)
    then show ?thesis
      using Suc.IH [of "k div 128"] False by (simp add: leb128.simps [of k])
  qed
qed

lemma length_encode_varuint: "length (encode_varuint v) \<le> 10"
  using length_leb128 [of "unat v" 10] unat_less_2p [of v] by (simp add: encode_varuint_eq)

text \<open>The readers evaluated on what the writers produce.\<close>

lemmas read_enc =
  u8_codec.dec_enc [OF TrueI] u16_codec.dec_enc [OF TrueI] u32_codec.dec_enc [OF TrueI]
  u64_codec.dec_enc [OF TrueI] u256_codec.dec_enc varuint.dec_enc [OF TrueI]

section \<open>Length prefixes\<close>

text \<open>Lists whose length fits the 64-bit prefix written before them.\<close>

definition len64 :: "'a list \<Rightarrow> bool" where
  "len64 p \<longleftrightarrow> length p < 2 ^ 64"

lemma length_eq_unat [wire_simps]:
  "length p = unat n \<longleftrightarrow> len64 p \<and> n = of_nat (length p)" for n :: u64
  using unat_less_2p [of n]
  by (auto simp: len64_def unat_of_nat take_bit_nat_eq_self_iff)

lemma unat_of_length: "len64 p \<Longrightarrow> unat (of_nat (length p) :: u64) = length p"
  by (simp add: len64_def unat_of_nat take_bit_nat_eq_self_iff)

lemma fold_write:
  assumes "\<And>s out. wr s out = out @ wr s []"
  shows "fold wr xs out = out @ concat (map (\<lambda>s. wr s []) xs)"
proof (induction xs arbitrary: out)
  case (Cons x xs)
  then show ?case
    by simp (metis assms append.assoc)
qed simp

lemma encode_varuint_0: "encode_varuint 0 = [0]"
  by (simp add: encode_varuint_def write_varuint.simps)

section \<open>Properties\<close>

text \<open>The strict variable-length integer decoder accepts an input exactly when the input starts
  with the encoding of the value it returns: every 64-bit value is read back whatever follows it,
  no second encoding of it is accepted, and an encoding has at most ten bytes.\<close>

theorem read_varuint_exact:
  "(read_varuint input = Inr (v, rest)) = (input = encode_varuint v @ rest)
   \<and> length (encode_varuint v) \<le> 10"
  by (simp add: read_varuint_iff length_encode_varuint)

end
