(* ===== verification/Crypto.thy ===== *)
theory Crypto
  imports Codec
begin

text \<open>
  The hashing layer (crates/mutiny-crypto/src/lib.rs and domains.rs): the registry of
  domain-separation tags and the digests derived from them. SHA-256 and Argon2 are third-party
  code, so they are parameters: \<open>H\<close> is SHA-256 on byte strings, and \<open>argon2_lib\<close> holds the two
  library calls the program makes. The theory shows that the registry is prefix-free, so that two
  inputs hashed under different tags are different byte strings, that a digest determines its
  inputs up to a collision among the strings actually hashed, and that the comparison of a proof
  with a target is the comparison of the numbers they denote.
\<close>

section \<open>Domain registry\<close>

text \<open>A Rust byte-string literal.\<close>

definition ascii :: "string \<Rightarrow> bytes" where
  "ascii s = map (\<lambda>c. word_of_nat (of_char c)) s"

definition GENESIS_ID :: bytes where "GENESIS_ID = ascii ''MUTINY-GENESIS-ID-V1''"
definition CONSENSUS_PARAMS :: bytes where "CONSENSUS_PARAMS = ascii ''MUTINY-CONSENSUS-PARAMS-V1''"
definition EPOCH_SEED :: bytes where "EPOCH_SEED = ascii ''MUTINY-EPOCH-SEED-V1''"
definition TICKET_SEED :: bytes where "TICKET_SEED = ascii ''MUTINY-TICKET-SEED-V1''"
definition ARGON2_SALT :: bytes where "ARGON2_SALT = ascii ''MUTINY-ARGON2-SALT-V1''"
definition BLOCK_SIGN :: bytes where "BLOCK_SIGN = ascii ''MUTINY-BLOCK-SIGN-V1''"
definition BLOCK_ID :: bytes where "BLOCK_ID = ascii ''MUTINY-BLOCK-ID-V1''"
definition TX_ID :: bytes where "TX_ID = ascii ''MUTINY-TX-ID-V1''"
definition WTX_ID :: bytes where "WTX_ID = ascii ''MUTINY-WTX-ID-V1''"
definition TX_SIGN :: bytes where "TX_SIGN = ascii ''MUTINY-TX-SIGN-V1''"
definition ADDRESS :: bytes where "ADDRESS = ascii ''MUTINY-ADDRESS-V1''"
definition TX_LEAF :: bytes where "TX_LEAF = ascii ''MUTINY-TX-LEAF-V1''"
definition TX_NODE :: bytes where "TX_NODE = ascii ''MUTINY-TX-NODE-V1''"
definition PROTOCOL_OP_ID :: bytes where "PROTOCOL_OP_ID = ascii ''MUTINY-PROTOCOL-OP-ID-V1''"
definition PROTOCOL_OP_LEAF :: bytes where "PROTOCOL_OP_LEAF = ascii ''MUTINY-PROTOCOL-OP-LEAF-V1''"
definition PROTOCOL_OP_NODE :: bytes where "PROTOCOL_OP_NODE = ascii ''MUTINY-PROTOCOL-OP-NODE-V1''"
definition PROTOCOL_OPS_EMPTY :: bytes where "PROTOCOL_OPS_EMPTY = ascii ''MUTINY-PROTOCOL-OPS-EMPTY-V1''"
definition STATE_ROOT :: bytes where "STATE_ROOT = ascii ''MUTINY-STATE-ROOT-V1''"
definition META_ROOT :: bytes where "META_ROOT = ascii ''MUTINY-META-ROOT-V1''"
definition UTXO_KEY :: bytes where "UTXO_KEY = ascii ''MUTINY-UTXO-KEY-V1''"
definition UTXO_LEAF :: bytes where "UTXO_LEAF = ascii ''MUTINY-UTXO-LEAF-V1''"
definition LICENSE_LEAF :: bytes where "LICENSE_LEAF = ascii ''MUTINY-LICENSE-LEAF-V1''"
definition EXTERNAL_PAYMENT_LEAF :: bytes where "EXTERNAL_PAYMENT_LEAF = ascii ''MUTINY-EXTERNAL-PAYMENT-LEAF-V1''"
definition PROTOCOL_STATE_LEAF :: bytes where "PROTOCOL_STATE_LEAF = ascii ''MUTINY-PROTOCOL-STATE-LEAF-V1''"
definition SMT_EMPTY_LEAF :: bytes where "SMT_EMPTY_LEAF = ascii ''MUTINY-SMT-EMPTY-LEAF-V1''"
definition SMT_NODE :: bytes where "SMT_NODE = ascii ''MUTINY-SMT-NODE-V1''"
definition LICENSE_ID :: bytes where "LICENSE_ID = ascii ''MUTINY-LICENSE-ID-V1''"
definition BTC_PAYMENT_ID :: bytes where "BTC_PAYMENT_ID = ascii ''MUTINY-BTC-PAYMENT-ID-V1''"
definition NODE_ID :: bytes where "NODE_ID = ascii ''MUTINY-NODE-ID-V1''"
definition P2P_CHECKSUM :: bytes where "P2P_CHECKSUM = ascii ''MUTINY-P2P-CHECKSUM-V1''"
definition PUNISHMENT_EVIDENCE_ID :: bytes where "PUNISHMENT_EVIDENCE_ID = ascii ''MUTINY-PUNISHMENT-EVIDENCE-ID-V1''"
definition MUT_PAYMENT_ID :: bytes where "MUT_PAYMENT_ID = ascii ''MUTINY-MUT-PAYMENT-ID-V1''"
definition PROTOCOL_STATE_KEY :: bytes where "PROTOCOL_STATE_KEY = ascii ''MUTINY-PROTOCOL-STATE-KEY-V1''"
definition PROTOCOL_OP_SIGN :: bytes where "PROTOCOL_OP_SIGN = ascii ''MUTINY-PROTOCOL-OP-SIGN-V1''"
definition ANCHOR_ENTROPY :: bytes where "ANCHOR_ENTROPY = ascii ''MUTINY-ANCHOR-ENTROPY-V1''"
definition MUT_LICENSE_MANIFEST :: bytes where "MUT_LICENSE_MANIFEST = ascii ''MUTINY-MUT-LICENSE-MANIFEST-V1''"
definition BLOCK_TEMPLATE_ID :: bytes where "BLOCK_TEMPLATE_ID = ascii ''MUTINY-BLOCK-TEMPLATE-ID-V1''"
definition P2P_HANDSHAKE :: bytes where "P2P_HANDSHAKE = ascii ''MUTINY-P2P-HANDSHAKE-V1''"
definition P2P_HELLO_SIGN :: bytes where "P2P_HELLO_SIGN = ascii ''MUTINY-P2P-HELLO-SIGN-V1''"
definition P2P_ACK_SIGN :: bytes where "P2P_ACK_SIGN = ascii ''MUTINY-P2P-ACK-SIGN-V1''"
definition LORA_ORIGIN_TAG :: bytes where "LORA_ORIGIN_TAG = ascii ''MUTINY-LORA-ORIGIN-TAG-V1''"
definition LORA_OBJECT :: bytes where "LORA_OBJECT = ascii ''MUTINY-LORA-OBJECT-V1''"
definition LORA_MESSAGE_ID :: bytes where "LORA_MESSAGE_ID = ascii ''MUTINY-LORA-MESSAGE-ID-V1''"
definition TREASURY_ID :: bytes where "TREASURY_ID = ascii ''MUTINY-TREASURY-ID-V1''"
definition BTC_MANIFEST :: bytes where "BTC_MANIFEST = ascii ''MUTINY-BTC-MANIFEST-V1''"
definition BOOTSTRAP_MANIFEST :: bytes where "BOOTSTRAP_MANIFEST = ascii ''MUTINY-BOOTSTRAP-MANIFEST-V1''"
definition BOOTSTRAP_COMMITMENT :: bytes where "BOOTSTRAP_COMMITMENT = ascii ''MUTINY-BOOTSTRAP-COMMITMENT-V1''"
definition PROTOCOL_FINGERPRINT :: bytes where "PROTOCOL_FINGERPRINT = ascii ''MUTINY-PROTOCOL-FINGERPRINT-V1''"

definition ALL_DOMAINS :: "bytes list" where
  "ALL_DOMAINS =
    [GENESIS_ID, CONSENSUS_PARAMS, EPOCH_SEED, TICKET_SEED, ARGON2_SALT, BLOCK_SIGN,
     BLOCK_ID, TX_ID, WTX_ID, TX_SIGN, ADDRESS, TX_LEAF, TX_NODE, PROTOCOL_OP_ID,
     PROTOCOL_OP_LEAF, PROTOCOL_OP_NODE, PROTOCOL_OPS_EMPTY, STATE_ROOT, META_ROOT,
     UTXO_KEY, UTXO_LEAF, LICENSE_LEAF, EXTERNAL_PAYMENT_LEAF, PROTOCOL_STATE_LEAF,
     SMT_EMPTY_LEAF, SMT_NODE, LICENSE_ID, BTC_PAYMENT_ID, NODE_ID, P2P_CHECKSUM,
     PUNISHMENT_EVIDENCE_ID, MUT_PAYMENT_ID, PROTOCOL_STATE_KEY, PROTOCOL_OP_SIGN,
     ANCHOR_ENTROPY, MUT_LICENSE_MANIFEST, BLOCK_TEMPLATE_ID, P2P_HANDSHAKE,
     P2P_HELLO_SIGN, P2P_ACK_SIGN, LORA_ORIGIN_TAG, LORA_OBJECT, LORA_MESSAGE_ID,
     TREASURY_ID, BTC_MANIFEST, BOOTSTRAP_MANIFEST, BOOTSTRAP_COMMITMENT,
     PROTOCOL_FINGERPRINT]"

definition sorted_domains :: "bytes list" where
  "sorted_domains = sort ALL_DOMAINS"

lemmas domain_defs =
  GENESIS_ID_def CONSENSUS_PARAMS_def EPOCH_SEED_def TICKET_SEED_def ARGON2_SALT_def
  BLOCK_SIGN_def BLOCK_ID_def TX_ID_def WTX_ID_def TX_SIGN_def ADDRESS_def TX_LEAF_def
  TX_NODE_def PROTOCOL_OP_ID_def PROTOCOL_OP_LEAF_def PROTOCOL_OP_NODE_def
  PROTOCOL_OPS_EMPTY_def STATE_ROOT_def META_ROOT_def UTXO_KEY_def UTXO_LEAF_def
  LICENSE_LEAF_def EXTERNAL_PAYMENT_LEAF_def PROTOCOL_STATE_LEAF_def SMT_EMPTY_LEAF_def
  SMT_NODE_def LICENSE_ID_def BTC_PAYMENT_ID_def NODE_ID_def P2P_CHECKSUM_def
  PUNISHMENT_EVIDENCE_ID_def MUT_PAYMENT_ID_def PROTOCOL_STATE_KEY_def PROTOCOL_OP_SIGN_def
  ANCHOR_ENTROPY_def MUT_LICENSE_MANIFEST_def BLOCK_TEMPLATE_ID_def P2P_HANDSHAKE_def
  P2P_HELLO_SIGN_def P2P_ACK_SIGN_def LORA_ORIGIN_TAG_def LORA_OBJECT_def LORA_MESSAGE_ID_def
  TREASURY_ID_def BTC_MANIFEST_def BOOTSTRAP_MANIFEST_def BOOTSTRAP_COMMITMENT_def
  PROTOCOL_FINGERPRINT_def

section \<open>Digests\<close>

datatype CryptoError = InvalidArgon2Params | Argon2Failure

definition sha256_domain :: "(bytes \<Rightarrow> bytes) \<Rightarrow> bytes \<Rightarrow> bytes list \<Rightarrow> bytes" where
  "sha256_domain H domain parts = H (domain @ concat parts)"

definition block_signing_digest :: "(bytes \<Rightarrow> bytes) \<Rightarrow> bytes \<Rightarrow> bytes" where
  "block_signing_digest H header_core = sha256_domain H BLOCK_SIGN [header_core]"

definition block_hash :: "(bytes \<Rightarrow> bytes) \<Rightarrow> bytes \<Rightarrow> bytes" where
  "block_hash H header = sha256_domain H BLOCK_ID [header]"

definition anchor_entropy :: "(bytes \<Rightarrow> bytes) \<Rightarrow> u64 \<Rightarrow> bytes \<Rightarrow> u16 \<Rightarrow> bytes \<Rightarrow> bytes" where
  "anchor_entropy H anchor_epoch anchor_license_id anchor_ticket_index anchor_argon2_proof =
     (let epoch = to_be_bytes anchor_epoch; ticket = to_be_bytes anchor_ticket_index
      in sha256_domain H ANCHOR_ENTROPY [epoch, anchor_license_id, ticket, anchor_argon2_proof])"

definition epoch_seed :: "(bytes \<Rightarrow> bytes) \<Rightarrow> bytes \<Rightarrow> u64 \<Rightarrow> bytes" where
  "epoch_seed H entropy epoch = sha256_domain H EPOCH_SEED [entropy, to_be_bytes epoch]"

definition ticket_seed :: "(bytes \<Rightarrow> bytes) \<Rightarrow> bytes \<Rightarrow> bytes \<Rightarrow> u16 \<Rightarrow> bytes" where
  "ticket_seed H seed license_id ticket_index =
     sha256_domain H TICKET_SEED [seed, license_id, to_be_bytes ticket_index]"

definition ticket_salt :: "(bytes \<Rightarrow> bytes) \<Rightarrow> bytes \<Rightarrow> bytes \<Rightarrow> u16 \<Rightarrow> bytes" where
  "ticket_salt H seed license_id ticket_index =
     sha256_domain H ARGON2_SALT [seed, license_id, to_be_bytes ticket_index]"

text \<open>The calls made to the argon2 crate: \<open>Params::new\<close> with memory, time, lanes and output length,
  and \<open>hash_password_into\<close> with the password, the salt and the length of the output buffer.\<close>

record 'p argon2_lib =
  params_new :: "nat \<Rightarrow> nat \<Rightarrow> nat \<Rightarrow> nat option \<Rightarrow> 'p option"
  hash_password_into :: "'p \<Rightarrow> bytes \<Rightarrow> bytes \<Rightarrow> nat \<Rightarrow> bytes option"

definition mutiny_argon2id :: "'p argon2_lib \<Rightarrow> bytes \<Rightarrow> bytes \<Rightarrow> CryptoError + bytes" where
  "mutiny_argon2id A seed salt =
     rbind (ok_or InvalidArgon2Params (params_new A 64 2 1 (Some 32))) (\<lambda>params.
       ok_or Argon2Failure (hash_password_into A params seed salt 32))"

definition proof_below_target :: "bytes \<Rightarrow> bytes \<Rightarrow> bool" where
  "proof_below_target prf target = (prf < target)"

section \<open>The registry is prefix-free\<close>

text \<open>Every tag ends in \<open>-V1\<close> and has that string nowhere before, so none is a prefix of another.\<close>

fun v1_tag :: "bytes \<Rightarrow> bool" where
  "v1_tag [] = False"
| "v1_tag (b # bs) = (if take 3 (b # bs) = ascii ''-V1'' then length bs = 2 else v1_tag bs)"

lemma length_ascii [simp]: "length (ascii s) = length s"
  by (simp add: ascii_def)

lemma v1_tag_append:
  assumes "v1_tag d" and "v1_tag (d @ x)"
  shows "x = []"
  using assms
proof (induction d)
  case Nil
  then show ?case by simp
next
  case (Cons b d)
  show ?case
  proof (cases "take 3 (b # d) = ascii ''-V1''")
    case True
    then have "length d = 2"
      using Cons.prems(1) by simp
    with True have "take 3 ((b # d) @ x) = ascii ''-V1''"
      by (simp add: take_Cons')
    then show ?thesis
      using Cons.prems True by simp
  next
    case False
    then have d: "v1_tag d"
      using Cons.prems(1) by simp
    then have "2 \<le> length d"
      by (induction d) (auto simp: Suc_le_eq split: if_splits)
    then have "take 3 (b # (d @ x)) \<noteq> ascii ''-V1''"
      using False by simp
    then have "v1_tag (d @ x)"
      using Cons.prems(2) by (simp only: append_Cons v1_tag.simps if_False)
    then show ?thesis
      using Cons.IH d by blast
  qed
qed

lemma v1_tag_separates:
  assumes "v1_tag c" and "v1_tag d" and "c @ x = d @ y"
  shows "c = d \<and> x = y"
proof -
  obtain u where "c = d @ u \<and> u @ x = y \<or> c @ u = d \<and> x = u @ y"
    using assms(3) by (auto simp: append_eq_append_conv2)
  then show ?thesis
    using v1_tag_append [of d u] v1_tag_append [of c u] assms(1,2) by auto
qed

text \<open>The tags as strings, on which the finite checks run.\<close>

definition domain_names :: "string list" where
  "domain_names =
    [''MUTINY-GENESIS-ID-V1'',
     ''MUTINY-CONSENSUS-PARAMS-V1'',
     ''MUTINY-EPOCH-SEED-V1'',
     ''MUTINY-TICKET-SEED-V1'',
     ''MUTINY-ARGON2-SALT-V1'',
     ''MUTINY-BLOCK-SIGN-V1'',
     ''MUTINY-BLOCK-ID-V1'',
     ''MUTINY-TX-ID-V1'',
     ''MUTINY-WTX-ID-V1'',
     ''MUTINY-TX-SIGN-V1'',
     ''MUTINY-ADDRESS-V1'',
     ''MUTINY-TX-LEAF-V1'',
     ''MUTINY-TX-NODE-V1'',
     ''MUTINY-PROTOCOL-OP-ID-V1'',
     ''MUTINY-PROTOCOL-OP-LEAF-V1'',
     ''MUTINY-PROTOCOL-OP-NODE-V1'',
     ''MUTINY-PROTOCOL-OPS-EMPTY-V1'',
     ''MUTINY-STATE-ROOT-V1'',
     ''MUTINY-META-ROOT-V1'',
     ''MUTINY-UTXO-KEY-V1'',
     ''MUTINY-UTXO-LEAF-V1'',
     ''MUTINY-LICENSE-LEAF-V1'',
     ''MUTINY-EXTERNAL-PAYMENT-LEAF-V1'',
     ''MUTINY-PROTOCOL-STATE-LEAF-V1'',
     ''MUTINY-SMT-EMPTY-LEAF-V1'',
     ''MUTINY-SMT-NODE-V1'',
     ''MUTINY-LICENSE-ID-V1'',
     ''MUTINY-BTC-PAYMENT-ID-V1'',
     ''MUTINY-NODE-ID-V1'',
     ''MUTINY-P2P-CHECKSUM-V1'',
     ''MUTINY-PUNISHMENT-EVIDENCE-ID-V1'',
     ''MUTINY-MUT-PAYMENT-ID-V1'',
     ''MUTINY-PROTOCOL-STATE-KEY-V1'',
     ''MUTINY-PROTOCOL-OP-SIGN-V1'',
     ''MUTINY-ANCHOR-ENTROPY-V1'',
     ''MUTINY-MUT-LICENSE-MANIFEST-V1'',
     ''MUTINY-BLOCK-TEMPLATE-ID-V1'',
     ''MUTINY-P2P-HANDSHAKE-V1'',
     ''MUTINY-P2P-HELLO-SIGN-V1'',
     ''MUTINY-P2P-ACK-SIGN-V1'',
     ''MUTINY-LORA-ORIGIN-TAG-V1'',
     ''MUTINY-LORA-OBJECT-V1'',
     ''MUTINY-LORA-MESSAGE-ID-V1'',
     ''MUTINY-TREASURY-ID-V1'',
     ''MUTINY-BTC-MANIFEST-V1'',
     ''MUTINY-BOOTSTRAP-MANIFEST-V1'',
     ''MUTINY-BOOTSTRAP-COMMITMENT-V1'',
     ''MUTINY-PROTOCOL-FINGERPRINT-V1'']"

lemma ALL_DOMAINS_names: "ALL_DOMAINS = map ascii domain_names"
  by (simp add: ALL_DOMAINS_def domain_names_def domain_defs)

fun v1_name :: "string \<Rightarrow> bool" where
  "v1_name [] = False"
| "v1_name (c # cs) = (if take 3 (c # cs) = ''-V1'' then length cs = 2 else v1_name cs)"

lemma byte_of_char_eq_iff:
  "(word_of_nat (of_char c) :: u8) = word_of_nat (of_char d) \<longleftrightarrow> c = d"
proof
  assume "(word_of_nat (of_char c) :: u8) = word_of_nat (of_char d)"
  then have "unat (word_of_nat (of_char c) :: u8) = unat (word_of_nat (of_char d) :: u8)"
    by (rule arg_cong)
  then have "(of_char c :: nat) mod 256 = of_char d mod 256"
    by (simp only: unat_byte_of_nat)
  then have "char_of ((of_char c :: nat) mod 256) = char_of ((of_char d :: nat) mod 256)"
    by simp
  then show "c = d"
    by (metis char_of_char of_char_of)
qed simp

lemma ascii_eq_iff [simp]: "ascii s = ascii t \<longleftrightarrow> s = t"
proof -
  have "inj (\<lambda>c. word_of_nat (of_char c) :: u8)"
    by (rule injI) (simp only: byte_of_char_eq_iff)
  then show ?thesis
    by (simp add: ascii_def inj_map_eq_map)
qed

lemma take_ascii: "take n (ascii s) = ascii (take n s)"
  by (simp add: ascii_def take_map)

lemma v1_tag_ascii: "v1_tag (ascii s) = v1_name s"
proof (induction s)
  case Nil
  then show ?case by (simp add: ascii_def)
next
  case (Cons c s)
  have "ascii (c # s) = word_of_nat (of_char c) # ascii s"
    by (simp add: ascii_def)
  moreover have "take 3 (ascii (c # s)) = ascii ''-V1'' \<longleftrightarrow> take 3 (c # s) = ''-V1''"
    by (simp only: take_ascii ascii_eq_iff)
  ultimately show ?case
    using Cons by simp
qed

lemma domain_names_v1: "list_all v1_name domain_names"
  by (simp add: domain_names_def)

lemma distinct_domain_names: "distinct domain_names"
  by (simp add: domain_names_def)

lemma ALL_DOMAINS_v1: "d \<in> set ALL_DOMAINS \<Longrightarrow> v1_tag d"
  using domain_names_v1 by (auto simp: ALL_DOMAINS_names v1_tag_ascii list_all_iff)

lemma distinct_ALL_DOMAINS: "distinct ALL_DOMAINS"
  using distinct_domain_names by (simp add: ALL_DOMAINS_names distinct_map inj_on_def)

section \<open>Binding\<close>

text \<open>A digest determines its tag and its input among the strings on which \<open>H\<close> has no collision.\<close>

lemma sha256_domain_binding:
  assumes "v1_tag c" and "v1_tag d"
    and "inj_on H {c @ concat ps, d @ concat qs}"
    and "sha256_domain H c ps = sha256_domain H d qs"
  shows "c = d \<and> concat ps = concat qs"
proof -
  have "H (c @ concat ps) = H (d @ concat qs)"
    using assms(4) unfolding sha256_domain_def .
  then have "c @ concat ps = d @ concat qs"
    by (rule inj_onD [OF assms(3)]) simp_all
  then show ?thesis
    using v1_tag_separates [OF assms(1,2)] by blast
qed

lemma proof_below_target_iff:
  "length prf = length target \<Longrightarrow> proof_below_target prf target \<longleftrightarrow> be_nat prf < be_nat target"
  by (simp add: proof_below_target_def be_nat_less_iff)

lemma domain_v1 [simp]:
  "v1_tag GENESIS_ID" "v1_tag CONSENSUS_PARAMS" "v1_tag EPOCH_SEED" "v1_tag TICKET_SEED"
  "v1_tag ARGON2_SALT" "v1_tag BLOCK_SIGN" "v1_tag BLOCK_ID" "v1_tag TX_ID" "v1_tag WTX_ID"
  "v1_tag TX_SIGN" "v1_tag ADDRESS" "v1_tag TX_LEAF" "v1_tag TX_NODE" "v1_tag PROTOCOL_OP_ID"
  "v1_tag PROTOCOL_OP_LEAF" "v1_tag PROTOCOL_OP_NODE" "v1_tag PROTOCOL_OPS_EMPTY"
  "v1_tag STATE_ROOT" "v1_tag META_ROOT" "v1_tag UTXO_KEY" "v1_tag UTXO_LEAF"
  "v1_tag LICENSE_LEAF" "v1_tag EXTERNAL_PAYMENT_LEAF" "v1_tag PROTOCOL_STATE_LEAF"
  "v1_tag SMT_EMPTY_LEAF" "v1_tag SMT_NODE" "v1_tag LICENSE_ID" "v1_tag BTC_PAYMENT_ID"
  "v1_tag NODE_ID" "v1_tag P2P_CHECKSUM" "v1_tag PUNISHMENT_EVIDENCE_ID" "v1_tag MUT_PAYMENT_ID"
  "v1_tag PROTOCOL_STATE_KEY" "v1_tag PROTOCOL_OP_SIGN" "v1_tag ANCHOR_ENTROPY"
  "v1_tag MUT_LICENSE_MANIFEST" "v1_tag BLOCK_TEMPLATE_ID" "v1_tag P2P_HANDSHAKE"
  "v1_tag P2P_HELLO_SIGN" "v1_tag P2P_ACK_SIGN" "v1_tag LORA_ORIGIN_TAG" "v1_tag LORA_OBJECT"
  "v1_tag LORA_MESSAGE_ID" "v1_tag TREASURY_ID" "v1_tag BTC_MANIFEST" "v1_tag BOOTSTRAP_MANIFEST"
  "v1_tag BOOTSTRAP_COMMITMENT" "v1_tag PROTOCOL_FINGERPRINT"
  by (rule ALL_DOMAINS_v1, simp add: ALL_DOMAINS_def)+

lemma sha256_domain_inj:
  assumes "sha256_domain H d ps = sha256_domain H d qs" and "inj_on H {d @ concat ps, d @ concat qs}"
  shows "concat ps = concat qs"
proof -
  have "H (d @ concat ps) = H (d @ concat qs)"
    using assms(1) unfolding sha256_domain_def .
  then have "d @ concat ps = d @ concat qs"
    by (rule inj_onD [OF assms(2)]) simp_all
  then show ?thesis by (simp only: same_append_eq)
qed

lemma sha256_domain_inj1:
  assumes "sha256_domain H d [a] = sha256_domain H d [b]" and "inj_on H {d @ a, d @ b}"
  shows "a = b"
  using sha256_domain_inj [OF assms(1)] assms(2) by (simp only: concat.simps append_Nil2)

section \<open>A hash for evaluation\<close>

text \<open>A 32-byte function of the length and the last 31 bytes, with which the commitments are evaluated on
  concrete inputs.\<close>

definition tail_hash :: "bytes \<Rightarrow> bytes" where
  "tail_hash x = take 32 (of_nat (length x) # rev x @ replicate 32 0)"

lemma length_tail_hash: "length (tail_hash x) = 32"
  by (simp add: tail_hash_def)

section \<open>Properties\<close>

text \<open>Domain separation: two digests taken under registered tags agree only if the tags and the
  hashed parts agree, unless SHA-256 collides on the two strings actually hashed.\<close>

theorem domain_separation:
  assumes "c \<in> set ALL_DOMAINS" and "d \<in> set ALL_DOMAINS"
    and "inj_on H {c @ concat ps, d @ concat qs}"
    and "sha256_domain H c ps = sha256_domain H d qs"
  shows "c = d \<and> concat ps = concat qs"
  using sha256_domain_binding [OF ALL_DOMAINS_v1 ALL_DOMAINS_v1] assms by blast

theorem domain_separation_witness:
  "TX_ID \<in> set ALL_DOMAINS \<and> sha256_domain (\<lambda>x. x) TX_ID [[1], [2, 3]] = sha256_domain (\<lambda>x. x) TX_ID [[1, 2], [3]]
   \<and> concat [[1], [2, 3]] = concat [[1, 2], [3 :: u8]]"
proof -
  have mem: "TX_ID \<in> set ALL_DOMAINS"
    by (simp add: ALL_DOMAINS_def)
  have eq: "sha256_domain (\<lambda>x. x) TX_ID [[1], [2, 3]] = sha256_domain (\<lambda>x. x) TX_ID [[1, 2], [3]]"
    by (simp add: sha256_domain_def)
  show ?thesis
    using domain_separation [OF mem mem _ eq] mem eq by (simp add: inj_on_def)
qed

end
