(* ===== verification/Consensus.thy ===== *)
theory Consensus
  imports Crypto
begin

text \<open>
  The consensus arithmetic (crates/mutiny-consensus/src/lib.rs): the work allocation per licence,
  the target derived from the authorised capacity, and the derivation of one mining ticket.
  \<open>num_bigint::BigUint\<close> is exact natural-number arithmetic and is modelled by \<open>nat\<close>. The theory
  shows that the binary search finds the least positive work count that satisfies the published
  inequality, that the target computation never fails on a positive capacity and denotes the
  published minimum, and that a derived ticket wins exactly when its proof is below the target.
\<close>

section \<open>Model\<close>

definition W_MAX :: u16 where "W_MAX = 2048"
definition L_SAT :: u64 where "L_SAT = 65536"
definition DIFFICULTY_Q32_ONE :: u64 where "DIFFICULTY_Q32_ONE = push_bit 32 1"

datatype ConsensusMathError = ZeroAuthorizedCapacity | DoesNotFitU256

datatype MiningError = BadTicketIndex | MiningCrypto CryptoError

text \<open>The search loop over \<open>lo\<close> and \<open>hi\<close>; \<open>n16\<close> and \<open>rhs\<close> are the two constants of the test.\<close>

lemma search_mid:
  fixes lo hi :: u16
  assumes "lo < hi"
  shows "unat (lo + (hi - lo) div 2) = unat lo + (unat hi - unat lo) div 2"
    and "unat (lo + (hi - lo) div 2 + 1) = unat lo + (unat hi - unat lo) div 2 + 1"
proof -
  have lt: "unat lo < unat hi" and hi: "unat hi < 2 ^ 16"
    using assms unat_less_2p [of hi] by (simp_all add: word_less_nat_alt)
  have half: "unat ((hi - lo) div 2) = (unat hi - unat lo) div 2"
    using assms by (simp add: unat_div unat_sub)
  have "unat lo + (unat hi - unat lo) div 2 + 1 < 2 ^ 16"
    using lt hi by linarith
  with half show "unat (lo + (hi - lo) div 2) = unat lo + (unat hi - unat lo) div 2"
    and "unat (lo + (hi - lo) div 2 + 1) = unat lo + (unat hi - unat lo) div 2 + 1"
    by (simp_all add: unat_word_ariths take_bit_nat_eq_self_iff)
qed

function work_search :: "nat \<Rightarrow> nat \<Rightarrow> u16 \<Rightarrow> u16 \<Rightarrow> u16" where
  "work_search n16 rhs lo hi =
     (if lo < hi then
        let mid = lo + (hi - lo) div 2;
            lhs = unat mid ^ 25 * n16
        in if lhs \<ge> rhs then work_search n16 rhs lo mid
           else work_search n16 rhs (mid + 1) hi
      else lo)"
  by pat_completeness auto
termination
proof (relation "measure (\<lambda>(n16, rhs, lo, hi). unat hi - unat lo)", goal_cases)
  case 1
  then show ?case by simp
next
  case (2 n16 rhs lo hi)
  then show ?case
    using search_mid [of lo hi] by (auto simp: word_less_nat_alt)
next
  case (3 n16 rhs lo hi)
  then show ?case
    using search_mid [of lo hi] by (clarsimp simp: word_less_nat_alt) linarith
qed

declare work_search.simps [simp del]

definition work_units :: "u64 \<Rightarrow> u16" where
  "work_units eligible_licenses =
     (if eligible_licenses = 0 then 0
      else if eligible_licenses \<ge> L_SAT then W_MAX
      else
        let n = unat L_SAT; l = unat eligible_licenses; c = unat W_MAX;
            n16 = n ^ 16;
            rhs = c ^ 25 * l ^ 16
        in work_search n16 rhs 1 W_MAX)"

definition authorized_capacity :: "u64 \<Rightarrow> u128" where
  "authorized_capacity eligible_licenses =
     ucast eligible_licenses * ucast (work_units eligible_licenses)"

definition biguint_to_u256_be :: "nat \<Rightarrow> ConsensusMathError + bytes" where
  "biguint_to_u256_be n =
     (let bs = to_bytes_be n
      in if length bs > 32 then Inl DoesNotFitU256 else Inr (pad32 bs))"

definition derive_target :: "u128 \<Rightarrow> u64 \<Rightarrow> ConsensusMathError + bytes" where
  "derive_target capacity correction_q32 =
     (if capacity = 0 then Inl ZeroAuthorizedCapacity
      else
        let two256 = 2 ^ 256;
            max_u256 = two256 - 1;
            base = two256 div unat capacity;
            corrected = base * unat correction_q32 div 2 ^ 32;
            final_target = (if corrected > max_u256 then max_u256 else corrected)
        in biguint_to_u256_be final_target)"

record TicketDerivation =
  td_anchor_entropy :: bytes
  td_epoch_seed :: bytes
  td_ticket_seed :: bytes
  td_ticket_salt :: bytes
  td_argon2_proof :: bytes
  td_winning :: bool

definition derive_ticket ::
    "(bytes \<Rightarrow> bytes) \<Rightarrow> 'p argon2_lib \<Rightarrow> u64 \<Rightarrow> bytes \<Rightarrow> u16 \<Rightarrow> bytes \<Rightarrow> u64 \<Rightarrow> bytes \<Rightarrow>
     u16 \<Rightarrow> u16 \<Rightarrow> bytes \<Rightarrow> MiningError + TicketDerivation" where
  "derive_ticket H A anchor_epoch anchor_license_id anchor_ticket_index anchor_argon2_proof
       epoch license_id ticket_index work_units_for_epoch target =
     (if ticket_index \<ge> work_units_for_epoch then Inl BadTicketIndex
      else
        let ae = anchor_entropy H anchor_epoch anchor_license_id anchor_ticket_index
                   anchor_argon2_proof;
            es = epoch_seed H ae epoch;
            seed = ticket_seed H es license_id ticket_index;
            salt = ticket_salt H es license_id ticket_index
        in rbind (map_err MiningCrypto (mutiny_argon2id A seed salt)) (\<lambda>prf.
             Inr \<lparr>td_anchor_entropy = ae, td_epoch_seed = es, td_ticket_seed = seed,
                  td_ticket_salt = salt, td_argon2_proof = prf,
                  td_winning = proof_below_target prf target\<rparr>))"

section \<open>Work allocation\<close>

text \<open>The published inequality for a work count \<open>w\<close> at \<open>l\<close> eligible licences.\<close>

definition work_ok :: "nat \<Rightarrow> nat \<Rightarrow> bool" where
  "work_ok l w \<longleftrightarrow> w ^ 25 * 65536 ^ 16 \<ge> 2048 ^ 25 * l ^ 16"

lemma work_ok_mono: "work_ok l v \<Longrightarrow> v \<le> w \<Longrightarrow> work_ok l w"
  unfolding work_ok_def
  by (meson le_trans mult_le_mono1 power_mono zero_le)

lemma work_search_least:
  assumes "lo \<le> hi" and "unat hi ^ 25 * n16 \<ge> rhs"
    and "\<And>v. v < unat lo \<Longrightarrow> 0 < v \<Longrightarrow> v ^ 25 * n16 < rhs"
    and "0 < lo"
  shows "lo \<le> work_search n16 rhs lo hi \<and> work_search n16 rhs lo hi \<le> hi \<and>
    unat (work_search n16 rhs lo hi) ^ 25 * n16 \<ge> rhs \<and>
    (\<forall>v. 0 < v \<and> v < unat (work_search n16 rhs lo hi) \<longrightarrow> v ^ 25 * n16 < rhs)"
  using assms
proof (induction n16 rhs lo hi rule: work_search.induct)
  case (1 n16 rhs lo hi)
  show ?case
  proof (cases "lo < hi")
    case False
    then have "work_search n16 rhs lo hi = lo"
      by (simp add: work_search.simps [of n16 rhs lo hi])
    with "1.prems" False show ?thesis
      by auto
  next
    case True
    let ?mid = "lo + (hi - lo) div 2"
    note mid = search_mid [OF True]
    have bounds: "unat lo \<le> unat ?mid" "unat ?mid < unat hi" "unat (?mid + 1) = unat ?mid + 1"
      using True mid by (simp_all add: word_less_nat_alt)
    show ?thesis
    proof (cases "rhs \<le> unat ?mid ^ 25 * n16")
      case hit: True
      have "lo \<le> ?mid"
        using bounds by (simp add: word_le_nat_alt)
      from "1.IH"(1) [OF True refl refl hit this hit "1.prems"(3,4)] bounds True hit
      show ?thesis
        by (auto simp: work_search.simps [of n16 rhs lo hi] word_le_nat_alt)
    next
      case miss: False
      have "v ^ 25 * n16 < rhs" if "v < unat (?mid + 1)" for v
      proof -
        have "v ^ 25 * n16 \<le> unat ?mid ^ 25 * n16"
          using that bounds by (intro mult_le_mono1 power_mono) auto
        then show ?thesis using miss by linarith
      qed
      moreover have "?mid + 1 \<le> hi" "0 < ?mid + 1"
        using bounds by (simp_all add: word_le_nat_alt word_less_nat_alt)
      ultimately show ?thesis
        using "1.IH"(2) [OF True refl refl miss] "1.prems"(2) bounds True miss
        by (auto simp: work_search.simps [of n16 rhs lo hi] word_le_nat_alt)
    qed
  qed
qed

lemma work_units_spec:
  assumes "0 < l" and "l < 65536"
  shows "0 < work_units l" and "work_units l \<le> 2048"
    and "work_ok (unat l) (unat (work_units l))"
    and "0 < v \<Longrightarrow> v < unat (work_units l) \<Longrightarrow> \<not> work_ok (unat l) v"
proof -
  have l: "unat l \<le> 65536"
    using assms(2) by (simp add: word_less_nat_alt)
  have eq: "work_units l = work_search (65536 ^ 16) (2048 ^ 25 * unat l ^ 16) 1 2048"
  proof -
    have "l \<noteq> 0" and "\<not> 65536 \<le> l"
      using assms by (simp_all add: word_less_nat_alt word_le_nat_alt unat_gt_0)
    then show ?thesis
      by (simp add: work_units_def L_SAT_def W_MAX_def Let_def)
  qed
  have "2048 ^ 25 * unat l ^ 16 \<le> 2048 ^ 25 * 65536 ^ 16"
    using l by (intro mult_le_mono2 power_mono) simp_all
  then have init: "2048 ^ 25 * unat l ^ 16 \<le> unat (2048 :: u16) ^ 25 * 65536 ^ 16"
    by simp
  note * = work_search_least [of 1 2048 "2048 ^ 25 * unat l ^ 16" "65536 ^ 16", OF _ init]
  show "0 < work_units l" and "work_units l \<le> 2048"
    and "work_ok (unat l) (unat (work_units l))"
    and "0 < v \<Longrightarrow> v < unat (work_units l) \<Longrightarrow> \<not> work_ok (unat l) v"
    using * unfolding eq work_ok_def by (auto simp: not_le word_le_nat_alt word_less_nat_alt)
qed

text \<open>A larger set of eligible licences never gets fewer work units.\<close>

lemma work_ok_antimono: "work_ok l' w \<Longrightarrow> l \<le> l' \<Longrightarrow> work_ok l w"
  unfolding work_ok_def
  by (meson le_trans mult_le_mono2 power_mono zero_le)

lemma work_units_0 [simp]: "work_units 0 = 0"
  by (simp add: work_units_def)

lemma work_units_saturated: "65536 \<le> l \<Longrightarrow> work_units l = 2048"
  by (auto simp: work_units_def L_SAT_def W_MAX_def)

lemma work_units_le: "work_units l \<le> 2048"
proof -
  consider "l = 0" | "0 < l" "l < 65536" | "65536 \<le> l"
    using word_gt_0 [of l] not_le [of 65536 l] by blast
  then show ?thesis
    by cases (auto simp: work_units_spec work_units_saturated)
qed

lemma work_units_mono: "l \<le> l' \<Longrightarrow> work_units l \<le> work_units l'"
proof -
  assume le: "l \<le> l'"
  consider "l = 0" | "65536 \<le> l'" | "0 < l" "l' < 65536"
    using word_gt_0 [of l] not_le [of 65536 l'] by blast
  then show ?thesis
  proof cases
    case 2
    then show ?thesis
      by (simp add: work_units_le work_units_saturated)
  next
    case 3
    note 3 = 3(1) le_less_trans [OF le 3(2)] less_le_trans [OF 3(1) le] 3(2)
    show ?thesis
    proof (rule ccontr)
      assume "\<not> work_units l \<le> work_units l'"
      then have "\<not> work_ok (unat l) (unat (work_units l'))"
        using work_units_spec(1) [OF 3(3,4)] work_units_spec(4) [OF 3(1,2)]
        by (simp add: word_le_nat_alt word_less_nat_alt)
      moreover have "work_ok (unat l) (unat (work_units l'))"
        using work_units_spec(3) [OF 3(3,4)] le by (auto simp: word_le_nat_alt intro: work_ok_antimono)
      ultimately show False by blast
    qed
  qed simp
qed

lemma unat_authorized_capacity: "unat (authorized_capacity l) = unat l * unat (work_units l)"
proof -
  have "unat l < 2 ^ 64" and "unat (work_units l) < 2 ^ 16"
    using unat_less_2p [of l] unat_less_2p [of "work_units l"] by simp_all
  then have "unat l * unat (work_units l) < 2 ^ 64 * 2 ^ 16"
    by (intro mult_strict_mono) simp_all
  then show ?thesis
    by (simp add: authorized_capacity_def unat_word_ariths unat_ucast_up)
qed

section \<open>Target\<close>

lemma biguint_to_u256_be_ok:
  assumes "n < 2 ^ 256"
  shows "\<exists>bs. biguint_to_u256_be n = Inr bs \<and> length bs = 32 \<and> be_nat bs = n"
  using assms length_to_bytes_be_iff [of n] by (simp add: biguint_to_u256_be_def Let_def not_less)

lemma derive_target_ok:
  assumes "capacity \<noteq> 0"
  shows "\<exists>t. derive_target capacity q = Inr t \<and> length t = 32 \<and>
    be_nat t = min (2 ^ 256 - 1) (2 ^ 256 div unat capacity * unat q div 2 ^ 32)"
proof -
  let ?c = "2 ^ 256 div unat capacity * unat q div 2 ^ 32"
  have "derive_target capacity q = biguint_to_u256_be (min (2 ^ 256 - 1) ?c)"
    using assms by (simp add: derive_target_def Let_def min_def)
  moreover have "min (2 ^ 256 - 1) ?c < 2 ^ 256"
    by (simp add: min_less_iff_disj)
  ultimately show ?thesis
    using biguint_to_u256_be_ok [of "min (2 ^ 256 - 1) ?c"] by (simp only: )
qed

section \<open>Properties\<close>

text \<open>C9. The work allocation is exact: below saturation, the binary search returns the least positive
  work count \<open>w\<close> with \<open>w ^ 25 * 65536 ^ 16 \<ge> 2048 ^ 25 * l ^ 16\<close>, and it never exceeds \<open>W_MAX\<close>.\<close>

theorem work_units_least:
  assumes "0 < l" and "l < L_SAT"
  shows "0 < work_units l \<and> work_units l \<le> W_MAX \<and> work_ok (unat l) (unat (work_units l)) \<and>
    (\<forall>v. 0 < v \<and> v < unat (work_units l) \<longrightarrow> \<not> work_ok (unat l) v)"
  using work_units_spec [of l] assms by (simp add: L_SAT_def W_MAX_def)

theorem work_units_least_witness:
  "work_units 12 = 9 \<and> work_ok 12 9 \<and> \<not> work_ok 12 8"
proof -
  have w: "work_units 12 = 9"
    by (simp add: work_units_def L_SAT_def W_MAX_def work_search.simps)
  show ?thesis
    using work_units_least [of 12] w by (simp add: L_SAT_def)
qed

text \<open>More eligible licences never mean fewer work units per licence, and the authorised capacity is
  the exact product: the 128-bit multiplication never wraps.\<close>

theorem work_units_monotone:
  assumes "l \<le> l'"
  shows "work_units l \<le> work_units l' \<and> unat (authorized_capacity l) = unat l * unat (work_units l)"
  using assms by (simp add: work_units_mono unat_authorized_capacity)

theorem work_units_monotone_witness:
  "work_units 1 \<le> work_units 64 \<and> unat (authorized_capacity 1) = unat (work_units 1)"
  using work_units_monotone [of 1 64] by simp

text \<open>C19. Target derivation never fails on a positive capacity: it returns 32 bytes that denote
  \<open>min (2^256 - 1) (floor (floor (2^256 / A) * C / 2^32))\<close>; capacity zero is the only error.\<close>

theorem derive_target_exact:
  "derive_target 0 q = Inl ZeroAuthorizedCapacity \<and>
   (capacity \<noteq> 0 \<longrightarrow>
     (\<exists>t. derive_target capacity q = Inr t \<and> length t = 32 \<and>
        be_nat t = min (2 ^ 256 - 1) (2 ^ 256 div unat capacity * unat q div 2 ^ 32)))"
  using derive_target_ok [of capacity q] by (simp add: derive_target_def)

theorem derive_target_exact_witness:
  "\<exists>t. derive_target 108 DIFFICULTY_Q32_ONE = Inr t \<and> length t = 32 \<and>
     be_nat t = 2 ^ 256 div 108"
  using derive_target_exact [of DIFFICULTY_Q32_ONE 108] by (simp add: DIFFICULTY_Q32_ONE_def)

text \<open>A ticket outside the work allocation is refused; a derived ticket is inside it, carries the
  Argon2 output for its seed and salt, and wins exactly when the number its proof denotes is below
  the target's.\<close>

theorem derive_ticket_sound:
  assumes "derive_ticket H A ae al ai ap epoch lic idx w target = Inr d"
    and "length (td_argon2_proof d) = 32" and "length target = 32"
  shows "idx < w \<and>
    mutiny_argon2id A (td_ticket_seed d) (td_ticket_salt d) = Inr (td_argon2_proof d) \<and>
    td_ticket_seed d = ticket_seed H (td_epoch_seed d) lic idx \<and>
    td_ticket_salt d = ticket_salt H (td_epoch_seed d) lic idx \<and>
    td_winning d = (be_nat (td_argon2_proof d) < be_nat target)"
  using assms
  by (auto simp: derive_ticket_def Let_def proof_below_target_iff split: if_splits)

theorem derive_ticket_sound_witness:
  "\<exists>d. derive_ticket (\<lambda>_. [])
      \<lparr>params_new = (\<lambda>_ _ _ _. Some ()), hash_password_into = (\<lambda>_ _ _ _. Some (replicate 32 0))\<rparr>
      0 [] 0 [] 1 [] 0 1 (replicate 32 1) = Inr d \<and>
    td_winning d = (be_nat (replicate 32 0) < be_nat (replicate 32 1))"
proof -
  let ?A = "\<lparr>params_new = (\<lambda>_ _ _ _. Some ()), hash_password_into = (\<lambda>_ _ _ _. Some (replicate 32 0))\<rparr>"
  obtain d where d: "derive_ticket (\<lambda>_. []) ?A 0 [] 0 [] 1 [] 0 1 (replicate 32 1) = Inr d"
    and pf: "td_argon2_proof d = replicate 32 0"
    by (simp add: derive_ticket_def mutiny_argon2id_def Let_def)
  show ?thesis
    using derive_ticket_sound [OF d] d pf by simp
qed

end
