(* ===== verification/Merkle.thy ===== *)
theory Merkle
  imports Crypto
begin

text \<open>
  The Merkle reduction that mutiny-transaction (\<open>merkle_root\<close>) and mutiny-protocol
  (\<open>protocol_operations_root\<close>) both run: each round hashes neighbours in pairs and promotes an
  unpaired last entry unchanged, until one entry is left. The locale \<open>merkle_domains\<close> is the
  interface of a root under a leaf tag and a node tag; its lemma shows that a root determines the
  leaf messages, their order and their number, although the number itself is not hashed.
\<close>

section \<open>Model\<close>

text \<open>One round of the inner loop over \<open>i\<close>.\<close>

fun merkle_level :: "('a \<Rightarrow> 'a \<Rightarrow> 'a) \<Rightarrow> 'a list \<Rightarrow> 'a list" where
  "merkle_level node [] = []"
| "merkle_level node [x] = [x]"
| "merkle_level node (x # y # level) = node x y # merkle_level node level"

lemma length_merkle_level: "length (merkle_level node level) = (length level + 1) div 2"
  by (induction node level rule: merkle_level.induct) auto

text \<open>The outer loop, which ends because a round halves a level of two or more entries.\<close>

function merkle_loop :: "('a \<Rightarrow> 'a \<Rightarrow> 'a) \<Rightarrow> 'a list \<Rightarrow> 'a list" where
  "merkle_loop node level =
     (if length level > 1 then merkle_loop node (merkle_level node level) else level)"
  by pat_completeness auto
termination
  by (relation "measure (\<lambda>(node, level). length level)") (auto simp: length_merkle_level)

declare merkle_loop.simps [simp del]

lemma merkle_loop_single: "level \<noteq> [] \<Longrightarrow> \<exists>r. merkle_loop node level = [r]"
proof (induction node level rule: merkle_loop.induct)
  case (1 node level)
  show ?case
  proof (cases "length level > 1")
    case True
    have "length (merkle_level node level) \<noteq> 0"
      using 1(2) by (simp add: length_merkle_level)
    then have "merkle_level node level \<noteq> []"
      by fastforce
    then show ?thesis
      using 1(1) [OF True] True by (simp add: merkle_loop.simps [of node level])
  next
    case False
    then have "length level = 1"
      using 1(2) by (cases level) auto
    then show ?thesis
      by (auto simp: merkle_loop.simps [of node level] length_Suc_conv)
  qed
qed

section \<open>The tree a reduction builds\<close>

datatype 'a mtree = MLeaf 'a | MNode "'a mtree" "'a mtree"

fun frontier :: "'a mtree \<Rightarrow> 'a list" where
  "frontier (MLeaf x) = [x]"
| "frontier (MNode l r) = frontier l @ frontier r"

fun mhash :: "('a \<Rightarrow> 'h) \<Rightarrow> ('h \<Rightarrow> 'h \<Rightarrow> 'h) \<Rightarrow> 'a mtree \<Rightarrow> 'h" where
  "mhash leaf node (MLeaf x) = leaf x"
| "mhash leaf node (MNode l r) = node (mhash leaf node l) (mhash leaf node r)"

definition merkle_tree :: "'a list \<Rightarrow> 'a mtree" where
  "merkle_tree xs = hd (merkle_loop MNode (map MLeaf xs))"

lemma merkle_level_mhash:
  "merkle_level node (map (mhash leaf node) ts) = map (mhash leaf node) (merkle_level MNode ts)"
  by (induction ts rule: induct_list012) auto

lemma merkle_loop_mhash:
  "merkle_loop node (map (mhash leaf node) ts) = map (mhash leaf node) (merkle_loop MNode ts)"
proof (induction ts rule: length_induct)
  case (1 ts)
  have "length (merkle_level MNode ts) < length ts" if "length ts > 1"
    using that by (simp add: length_merkle_level)
  with 1 show ?case
    by (simp add: merkle_loop.simps [of _ ts] merkle_loop.simps [of _ "map (mhash leaf node) ts"]
        merkle_level_mhash)
qed

lemma merkle_level_frontier:
  "concat (map frontier (merkle_level MNode ts)) = concat (map frontier ts)"
  by (induction ts rule: induct_list012) auto

lemma merkle_loop_frontier:
  "concat (map frontier (merkle_loop MNode ts)) = concat (map frontier ts)"
proof (induction ts rule: length_induct)
  case (1 ts)
  have "length (merkle_level MNode ts) < length ts" if "length ts > 1"
    using that by (simp add: length_merkle_level)
  with 1 show ?case
    by (simp add: merkle_loop.simps [of _ ts] merkle_level_frontier)
qed

text \<open>The reduction is the hash of one tree whose frontier is the list of leaves.\<close>

lemma merkle_loop_tree:
  assumes "xs \<noteq> []"
  shows "merkle_loop node (map leaf xs) = [mhash leaf node (merkle_tree xs)]"
    and "frontier (merkle_tree xs) = xs"
proof -
  obtain t where t: "merkle_loop MNode (map MLeaf xs) = [t]"
    using merkle_loop_single [of "map MLeaf xs" MNode] assms by auto
  have "map leaf xs = map (mhash leaf node) (map MLeaf xs)"
    by simp
  then show "merkle_loop node (map leaf xs) = [mhash leaf node (merkle_tree xs)]"
    using merkle_loop_mhash [of node leaf "map MLeaf xs"] t by (simp only: merkle_tree_def list.map list.sel)
  have "concat (map frontier (map MLeaf xs)) = xs"
    by (induct xs) simp_all
  then show "frontier (merkle_tree xs) = xs"
    using merkle_loop_frontier [of "map MLeaf xs"] t by (simp add: merkle_tree_def)
qed

section \<open>Binding\<close>

text \<open>A reduction over domain-separated leaf messages and node pairs.\<close>

definition tagged_leaf :: "(bytes \<Rightarrow> bytes) \<Rightarrow> bytes \<Rightarrow> bytes \<Rightarrow> bytes" where
  "tagged_leaf H d x = sha256_domain H d [x]"

definition tagged_node :: "(bytes \<Rightarrow> bytes) \<Rightarrow> bytes \<Rightarrow> bytes \<Rightarrow> bytes \<Rightarrow> bytes" where
  "tagged_node H d a b = sha256_domain H d [a, b]"

text \<open>The strings hashed while the root of a tree is computed.\<close>

fun tree_inputs :: "(bytes \<Rightarrow> bytes) \<Rightarrow> bytes \<Rightarrow> bytes \<Rightarrow> bytes mtree \<Rightarrow> bytes set" where
  "tree_inputs H dl dn (MLeaf x) = {dl @ x}"
| "tree_inputs H dl dn (MNode l r) =
     {dn @ mhash (tagged_leaf H dl) (tagged_node H dn) l @ mhash (tagged_leaf H dl) (tagged_node H dn) r}
     \<union> tree_inputs H dl dn l \<union> tree_inputs H dl dn r"

definition merkle_inputs :: "(bytes \<Rightarrow> bytes) \<Rightarrow> bytes \<Rightarrow> bytes \<Rightarrow> bytes list \<Rightarrow> bytes set" where
  "merkle_inputs H dl dn xs = tree_inputs H dl dn (merkle_tree xs)"

locale merkle_domains =
  fixes dl dn :: bytes
  assumes leaf_tag: "v1_tag dl" and node_tag: "v1_tag dn" and tags_differ: "dl \<noteq> dn"
begin

lemma mhash_tagged:
  "mhash (tagged_leaf H dl) (tagged_node H dn) (MLeaf x) = H (dl @ x)"
  "mhash (tagged_leaf H dl) (tagged_node H dn) (MNode l r) =
     H (dn @ mhash (tagged_leaf H dl) (tagged_node H dn) l @ mhash (tagged_leaf H dl) (tagged_node H dn) r)"
  by (simp_all only: mhash.simps) (simp_all add: tagged_leaf_def tagged_node_def sha256_domain_def)

lemma length_mhash:
  assumes "\<forall>x. length (H x) = 32"
  shows "length (mhash (tagged_leaf H dl) (tagged_node H dn) t) = 32"
  using assms by (cases t) (simp_all only: mhash_tagged)

lemma mhash_inj:
  assumes len: "\<forall>x. length (H x) = 32"
  shows "inj_on H (tree_inputs H dl dn t \<union> tree_inputs H dl dn u) \<Longrightarrow>
    mhash (tagged_leaf H dl) (tagged_node H dn) t = mhash (tagged_leaf H dl) (tagged_node H dn) u \<Longrightarrow> t = u"
proof (induction t arbitrary: u)
  case (MLeaf x)
  let ?h = "mhash (tagged_leaf H dl) (tagged_node H dn)"
  show ?case
  proof (cases u)
    case (MLeaf y)
    have "H (dl @ x) = H (dl @ y)"
      using MLeaf.prems(2) MLeaf by (simp only: mhash_tagged)
    then have "dl @ x = dl @ y"
      by (rule inj_onD [OF MLeaf.prems(1)]) (simp_all add: MLeaf)
    then show ?thesis by (simp add: MLeaf)
  next
    case (MNode l r)
    have "H (dl @ x) = H (dn @ ?h l @ ?h r)"
      using MLeaf.prems(2) MNode by (simp only: mhash_tagged)
    then have "dl @ x = dn @ ?h l @ ?h r"
      by (rule inj_onD [OF MLeaf.prems(1)]) (simp_all add: MNode)
    then show ?thesis
      using v1_tag_separates [OF leaf_tag node_tag] tags_differ by blast
  qed
next
  case (MNode l r)
  let ?h = "mhash (tagged_leaf H dl) (tagged_node H dn)"
  show ?case
  proof (cases u)
    case (MLeaf y)
    have "H (dn @ ?h l @ ?h r) = H (dl @ y)"
      using MNode.prems(2) MLeaf by (simp only: mhash_tagged)
    then have "dn @ ?h l @ ?h r = dl @ y"
      by (rule inj_onD [OF MNode.prems(1)]) (simp_all add: MLeaf)
    then show ?thesis
      using v1_tag_separates [OF node_tag leaf_tag] tags_differ by blast
  next
    case (MNode l' r')
    have "H (dn @ ?h l @ ?h r) = H (dn @ ?h l' @ ?h r')"
      using MNode.prems(2) MNode by (simp only: mhash_tagged)
    then have "dn @ ?h l @ ?h r = dn @ ?h l' @ ?h r'"
      by (rule inj_onD [OF MNode.prems(1)]) (simp_all add: MNode)
    then have "?h l @ ?h r = ?h l' @ ?h r'"
      by (simp only: same_append_eq)
    moreover have "length (?h l) = length (?h l')"
      using length_mhash [OF len] by metis
    ultimately have eqs: "?h l = ?h l'" "?h r = ?h r'"
      using append_eq_append_conv [of "?h l" "?h l'" "?h r" "?h r'"] by blast+
    have "inj_on H (tree_inputs H dl dn l \<union> tree_inputs H dl dn l')"
      and "inj_on H (tree_inputs H dl dn r \<union> tree_inputs H dl dn r')"
      by (rule inj_on_subset [OF MNode.prems(1)], force simp: MNode)+
    then have "l = l'" and "r = r'"
      using MNode.IH eqs by blast+
    then show ?thesis
      by (simp add: MNode)
  qed
qed

lemma merkle_binding:
  assumes "\<forall>x. length (H x) = 32" and "xs \<noteq> []" and "ys \<noteq> []"
    and "inj_on H (merkle_inputs H dl dn xs \<union> merkle_inputs H dl dn ys)"
    and "merkle_loop (tagged_node H dn) (map (tagged_leaf H dl) xs) =
         merkle_loop (tagged_node H dn) (map (tagged_leaf H dl) ys)"
  shows "xs = ys"
proof -
  have "mhash (tagged_leaf H dl) (tagged_node H dn) (merkle_tree xs) =
      mhash (tagged_leaf H dl) (tagged_node H dn) (merkle_tree ys)"
    using assms(5) unfolding merkle_loop_tree(1) [OF assms(2)] merkle_loop_tree(1) [OF assms(3)]
    by (rule list.inject [THEN iffD1, THEN conjunct1])
  then have "merkle_tree xs = merkle_tree ys"
    using mhash_inj [OF assms(1)] assms(4) unfolding merkle_inputs_def by blast
  then show ?thesis
    using merkle_loop_tree(2) [OF assms(2)] merkle_loop_tree(2) [OF assms(3)] by metis
qed

end

end
