(* ===== verification/Transaction.thy ===== *)
theory Transaction
  imports Codec Merkle
begin

text \<open>
  Transactions (crates/mutiny-transaction/src/lib.rs): the canonical encoding of transaction cores,
  witnesses and full transactions, transaction ids, signature hashes, single-key and multisig
  witness verification, epoch locks, the Merkle root of a block's transactions and the base fee.
  The Ed25519 operations of ed25519_dalek are the parameter \<open>ed25519_lib\<close>, SHA-256 is the parameter
  \<open>H\<close>. The theory shows that decoding accepts exactly the canonical encodings, that ids and roots
  commit to the transactions, that a multisig spend carries enough distinct valid signatures, and
  that the base fee is the exact rounded-up product.
\<close>

section \<open>Model: data and encoding\<close>

definition OUTPUT_PUBKEY_HASH :: u8 where "OUTPUT_PUBKEY_HASH = 0x01"
definition OUTPUT_MULTISIG :: u8 where "OUTPUT_MULTISIG = 0x02"
definition OUTPUT_EPOCH_LOCKED :: u8 where "OUTPUT_EPOCH_LOCKED = 0x03"
definition OUTPUT_TREASURY :: u8 where "OUTPUT_TREASURY = 0x04"
definition OUTPUT_LICENSE_PAYMENT :: u8 where "OUTPUT_LICENSE_PAYMENT = 0x05"

definition WITNESS_PUBKEY_HASH :: u8 where "WITNESS_PUBKEY_HASH = 0x01"
definition WITNESS_MULTISIG :: u8 where "WITNESS_MULTISIG = 0x02"
definition WITNESS_PROTOCOL_AUTH :: u8 where "WITNESS_PROTOCOL_AUTH = 0x03"

datatype TxError =
    TxInvalidPublicKey
  | TxInvalidSignature
  | TxAddressMismatch
  | TxInvalidMultisigPolicy
  | TxInvalidMultisigWitness
  | TxEpochLocked
  | TxUnsupportedEpochLockInnerType
  | TxOverflow
  | TxMalformedEncoding
  | TxTooManyInputsOrOutputs

record TxOutput =
  out_amount_strikes :: u64
  out_output_type :: u8
  out_payload :: bytes

definition TxOutput_encode :: "TxOutput \<Rightarrow> bytes \<Rightarrow> bytes" where
  "TxOutput_encode s out =
     (let out = write_u64_be out (out_amount_strikes s);
          out = write_u8 out (out_output_type s);
          out = write_varuint out (of_nat (length (out_payload s)))
      in out @ out_payload s)"

record CoinbaseCommitmentV1 =
  cb_block_epoch :: u64
  cb_block_height :: u64
  cb_parent_block_hash :: bytes
  cb_protocol_operations_root :: bytes

definition CoinbaseCommitmentV1_encode :: "CoinbaseCommitmentV1 \<Rightarrow> bytes \<Rightarrow> bytes" where
  "CoinbaseCommitmentV1_encode s out =
     (let out = write_u64_be out (cb_block_epoch s);
          out = write_u64_be out (cb_block_height s);
          out = out @ cb_parent_block_hash s
      in out @ cb_protocol_operations_root s)"

datatype TxInput = Outpoint bytes u16 | Coinbase CoinbaseCommitmentV1

fun encode_core :: "TxInput \<Rightarrow> bytes \<Rightarrow> bytes" where
  "encode_core (Outpoint previous_txid previous_output_index) out =
     write_u16_be (out @ previous_txid) previous_output_index"
| "encode_core (Coinbase commitment) out =
     CoinbaseCommitmentV1_encode commitment (write_u16_be (out @ replicate 32 0) 0xffff)"

record TransactionCoreV1 =
  core_version :: u16
  core_network_id :: u32
  core_valid_from_epoch :: u64
  core_expiry_epoch :: u64
  core_inputs :: "TxInput list"
  core_outputs :: "TxOutput list"

definition TransactionCoreV1_encode :: "TransactionCoreV1 \<Rightarrow> bytes" where
  "TransactionCoreV1_encode s =
     (let out = write_u16_be [] (core_version s);
          out = write_u32_be out (core_network_id s);
          out = write_u64_be out (core_valid_from_epoch s);
          out = write_u64_be out (core_expiry_epoch s);
          out = write_varuint out (of_nat (length (core_inputs s)));
          out = fold encode_core (core_inputs s) out;
          out = write_varuint out (of_nat (length (core_outputs s)))
      in fold TxOutput_encode (core_outputs s) out)"

definition core_txid :: "(bytes \<Rightarrow> bytes) \<Rightarrow> TransactionCoreV1 \<Rightarrow> bytes" where
  "core_txid H s = sha256_domain H TX_ID [TransactionCoreV1_encode s]"

record WitnessV1 =
  wit_witness_type :: u8
  wit_payload :: bytes

definition WitnessV1_encode :: "WitnessV1 \<Rightarrow> bytes \<Rightarrow> bytes" where
  "WitnessV1_encode s out =
     (let out = write_u8 out (wit_witness_type s);
          out = write_varuint out (of_nat (length (wit_payload s)))
      in out @ wit_payload s)"

definition pubkey_hash_witness :: "bytes \<Rightarrow> bytes \<Rightarrow> WitnessV1" where
  "pubkey_hash_witness public_key signature =
     \<lparr>wit_witness_type = WITNESS_PUBKEY_HASH, wit_payload = public_key @ signature\<rparr>"

definition protocol_auth_witness :: "bytes \<Rightarrow> WitnessV1" where
  "protocol_auth_witness operation_id =
     \<lparr>wit_witness_type = WITNESS_PROTOCOL_AUTH, wit_payload = operation_id\<rparr>"

record TransactionV1 =
  tx_core :: TransactionCoreV1
  tx_witnesses :: "WitnessV1 list"

definition encode_full :: "TransactionV1 \<Rightarrow> bytes" where
  "encode_full s = fold WitnessV1_encode (tx_witnesses s) (TransactionCoreV1_encode (tx_core s))"

section \<open>Model: decoding\<close>

definition tx_take_vec :: "bytes \<Rightarrow> nat \<Rightarrow> TxError + (bytes \<times> bytes)" where
  "tx_take_vec input n =
     (if length input < n then Inl TxMalformedEncoding else Inr (take n input, drop n input))"

definition tx_cv :: "DecodeError + 'a \<Rightarrow> TxError + 'a" where
  "tx_cv r = map_err (\<lambda>_. TxMalformedEncoding) r"

text \<open>The loop over the inputs; \<open>idx\<close> counts up while \<open>todo\<close> inputs are left.\<close>

fun decode_inputs ::
    "u64 \<Rightarrow> nat \<Rightarrow> nat \<Rightarrow> bool \<Rightarrow> bytes \<Rightarrow> TxError + (TxInput list \<times> bool \<times> bytes)" where
  "decode_inputs input_count idx 0 coinbase input = Inr ([], coinbase, input)"
| "decode_inputs input_count idx (Suc todo) coinbase input =
     rbind (tx_cv (read_u256_be input)) (\<lambda>(previous_txid, input).
     rbind (tx_cv (read_u16_be input)) (\<lambda>(previous_output_index, input).
       if previous_txid = replicate 32 0 \<and> previous_output_index = 0xffff then
         if input_count \<noteq> 1 \<or> idx \<noteq> 0 then Inl TxMalformedEncoding
         else
           rbind (tx_cv (read_u64_be input)) (\<lambda>(block_epoch, input).
           rbind (tx_cv (read_u64_be input)) (\<lambda>(block_height, input).
           rbind (tx_cv (read_u256_be input)) (\<lambda>(parent_block_hash, input).
           rbind (tx_cv (read_u256_be input)) (\<lambda>(protocol_operations_root, input).
           rbind (decode_inputs input_count (idx + 1) todo True input) (\<lambda>(inputs, coinbase, input).
             Inr (Coinbase \<lparr>cb_block_epoch = block_epoch, cb_block_height = block_height,
                            cb_parent_block_hash = parent_block_hash,
                            cb_protocol_operations_root = protocol_operations_root\<rparr> # inputs,
                  coinbase, input))))))
       else
         rbind (decode_inputs input_count (idx + 1) todo coinbase input) (\<lambda>(inputs, coinbase, input).
           Inr (Outpoint previous_txid previous_output_index # inputs, coinbase, input))))"

definition decode_output :: "bytes \<Rightarrow> TxError + (TxOutput \<times> bytes)" where
  "decode_output input =
     rbind (tx_cv (read_u64_be input)) (\<lambda>(amount_strikes, input).
     rbind (tx_cv (read_u8 input)) (\<lambda>(output_type, input).
     rbind (tx_cv (read_varuint input)) (\<lambda>(payload_len, input).
     rbind (tx_take_vec input (unat payload_len)) (\<lambda>(payload, input).
       Inr (\<lparr>out_amount_strikes = amount_strikes, out_output_type = output_type,
             out_payload = payload\<rparr>, input)))))"

definition decode_witness :: "bytes \<Rightarrow> TxError + (WitnessV1 \<times> bytes)" where
  "decode_witness input =
     rbind (tx_cv (read_u8 input)) (\<lambda>(witness_type, input).
     rbind (tx_cv (read_varuint input)) (\<lambda>(payload_len, input).
     rbind (tx_take_vec input (unat payload_len)) (\<lambda>(payload, input).
       Inr (\<lparr>wit_witness_type = witness_type, wit_payload = payload\<rparr>, input))))"

definition decode_from :: "bytes \<Rightarrow> TxError + (TransactionV1 \<times> bytes)" where
  "decode_from input =
     rbind (tx_cv (read_u16_be input)) (\<lambda>(version, input).
     rbind (tx_cv (read_u32_be input)) (\<lambda>(network_id, input).
     rbind (tx_cv (read_u64_be input)) (\<lambda>(valid_from_epoch, input).
     rbind (tx_cv (read_u64_be input)) (\<lambda>(expiry_epoch, input).
     rbind (tx_cv (read_varuint input)) (\<lambda>(input_count, input).
       if input_count > 1024 then Inl TxTooManyInputsOrOutputs
       else
         rbind (decode_inputs input_count 0 (unat input_count) False input) (\<lambda>(inputs, coinbase, input).
         rbind (tx_cv (read_varuint input)) (\<lambda>(output_count, input).
           if output_count > 1024 then Inl TxTooManyInputsOrOutputs
           else
             rbind (read_many decode_output (unat output_count) input) (\<lambda>(outputs, input).
             let witness_count = (if coinbase then 0 else unat input_count)
             in rbind (read_many decode_witness witness_count input) (\<lambda>(witnesses, input).
                  Inr (\<lparr>tx_core = \<lparr>core_version = version, core_network_id = network_id,
                                   core_valid_from_epoch = valid_from_epoch,
                                   core_expiry_epoch = expiry_epoch,
                                   core_inputs = inputs, core_outputs = outputs\<rparr>,
                        tx_witnesses = witnesses\<rparr>, input))))))))))"

definition decode_full :: "bytes \<Rightarrow> TxError + TransactionV1" where
  "decode_full bs =
     rbind (decode_from bs) (\<lambda>(tx, input).
       if input \<noteq> [] then Inl TxMalformedEncoding else Inr tx)"

section \<open>Model: ids, signatures, roots and fees\<close>

definition tx_txid :: "(bytes \<Rightarrow> bytes) \<Rightarrow> TransactionV1 \<Rightarrow> bytes" where
  "tx_txid H s = core_txid H (tx_core s)"

definition wtxid :: "(bytes \<Rightarrow> bytes) \<Rightarrow> TransactionV1 \<Rightarrow> bytes" where
  "wtxid H s = sha256_domain H WTX_ID [encode_full s]"

definition tx_leaf :: "(bytes \<Rightarrow> bytes) \<Rightarrow> TransactionV1 \<Rightarrow> bytes" where
  "tx_leaf H s = (let txid = tx_txid H s; wtxid = wtxid H s in sha256_domain H TX_LEAF [txid, wtxid])"

definition serialized_len :: "TransactionV1 \<Rightarrow> nat" where
  "serialized_len s = length (encode_full s)"

record PrevoutCommitmentV1 =
  prev_previous_txid :: bytes
  prev_previous_output_index :: u16
  prev_amount_strikes :: u64
  prev_output_type :: u8
  prev_payload :: bytes

definition PrevoutCommitmentV1_encode :: "PrevoutCommitmentV1 \<Rightarrow> bytes" where
  "PrevoutCommitmentV1_encode s =
     (let out = prev_previous_txid s;
          out = write_u16_be out (prev_previous_output_index s);
          out = write_u64_be out (prev_amount_strikes s);
          out = write_u8 out (prev_output_type s);
          out = write_varuint out (of_nat (length (prev_payload s)))
      in out @ prev_payload s)"

definition sighash_all :: "(bytes \<Rightarrow> bytes) \<Rightarrow> bytes \<Rightarrow> u16 \<Rightarrow> PrevoutCommitmentV1 \<Rightarrow> bytes" where
  "sighash_all H txid input_index prevout =
     (let idx = to_be_bytes input_index; prev = PrevoutCommitmentV1_encode prevout
      in sha256_domain H TX_SIGN [txid, idx, prev])"

definition address_id :: "(bytes \<Rightarrow> bytes) \<Rightarrow> bytes \<Rightarrow> bytes" where
  "address_id H public_key = sha256_domain H ADDRESS [public_key]"

text \<open>The calls made to ed25519_dalek: \<open>VerifyingKey::from_bytes\<close> and \<open>VerifyingKey::verify\<close>.\<close>

record 'k ed25519_lib =
  vk_from_bytes :: "bytes \<Rightarrow> 'k option"
  vk_verify :: "'k \<Rightarrow> bytes \<Rightarrow> bytes \<Rightarrow> bool"

definition signature_valid :: "'k ed25519_lib \<Rightarrow> bytes \<Rightarrow> bytes \<Rightarrow> bytes \<Rightarrow> bool" where
  "signature_valid E public_key digest signature =
     (case vk_from_bytes E public_key of
        Some vk \<Rightarrow> vk_verify E vk digest signature
      | None \<Rightarrow> False)"

definition verify_pubkey_hash_witness ::
    "(bytes \<Rightarrow> bytes) \<Rightarrow> 'k ed25519_lib \<Rightarrow> bytes \<Rightarrow> bytes \<Rightarrow> WitnessV1 \<Rightarrow> TxError + unit" where
  "verify_pubkey_hash_witness H E address digest witness =
     (if wit_witness_type witness \<noteq> WITNESS_PUBKEY_HASH \<or> length (wit_payload witness) \<noteq> 96
      then Inl TxInvalidSignature
      else
        let public_key = take 32 (wit_payload witness);
            signature = drop 32 (wit_payload witness)
        in if address_id H public_key \<noteq> address then Inl TxAddressMismatch
           else
             rbind (ok_or TxInvalidPublicKey (vk_from_bytes E public_key)) (\<lambda>vk.
               if vk_verify E vk digest signature then Inr () else Inl TxInvalidSignature))"

record MultisigPayloadV1 =
  ms_threshold :: u8
  ms_public_keys :: "bytes list"

text \<open>The check over \<open>windows(2)\<close>.\<close>

fun strictly_ascending :: "bytes list \<Rightarrow> bool" where
  "strictly_ascending (a # b # xs) = (a < b \<and> strictly_ascending (b # xs))"
| "strictly_ascending xs = True"

definition MultisigPayloadV1_validate :: "MultisigPayloadV1 \<Rightarrow> TxError + unit" where
  "MultisigPayloadV1_validate s =
     (if ms_public_keys s = [] \<or> length (ms_public_keys s) > 16 \<or> ms_threshold s = 0 \<or>
         unat (ms_threshold s) > length (ms_public_keys s)
      then Inl TxInvalidMultisigPolicy
      else if \<not> strictly_ascending (ms_public_keys s) then Inl TxInvalidMultisigPolicy
      else Inr ())"

definition MultisigPayloadV1_encode :: "MultisigPayloadV1 \<Rightarrow> TxError + bytes" where
  "MultisigPayloadV1_encode s =
     rbind (MultisigPayloadV1_validate s) (\<lambda>_.
       let out = write_u8 [] (ms_threshold s);
           out = write_u8 out (of_nat (length (ms_public_keys s)))
       in Inr (fold (\<lambda>key out. out @ key) (ms_public_keys s) out))"

record IndexedSignatureV1 =
  is_key_index :: u8
  is_signature :: bytes

definition multisig_witness :: "IndexedSignatureV1 list \<Rightarrow> WitnessV1" where
  "multisig_witness signatures =
     (let payload = write_u8 [] (of_nat (length signatures));
          payload = fold (\<lambda>s payload. write_u8 payload (is_key_index s) @ is_signature s) signatures payload
      in \<lparr>wit_witness_type = WITNESS_MULTISIG, wit_payload = payload\<rparr>)"

text \<open>The loop over the signatures, with the index of the previous one.\<close>

fun verify_multisig_loop ::
    "'k ed25519_lib \<Rightarrow> bytes list \<Rightarrow> bytes \<Rightarrow> u8 option \<Rightarrow> IndexedSignatureV1 list \<Rightarrow> TxError + unit" where
  "verify_multisig_loop E public_keys digest prev [] = Inr ()"
| "verify_multisig_loop E public_keys digest prev (item # signatures) =
     (if case prev of Some p \<Rightarrow> is_key_index item \<le> p | None \<Rightarrow> False
      then Inl TxInvalidMultisigWitness
      else
        let idx = unat (is_key_index item)
        in if idx \<ge> length public_keys then Inl TxInvalidMultisigWitness
           else
             rbind (ok_or TxInvalidPublicKey (vk_from_bytes E (public_keys ! idx))) (\<lambda>vk.
               if \<not> vk_verify E vk digest (is_signature item) then Inl TxInvalidSignature
               else verify_multisig_loop E public_keys digest (Some (is_key_index item)) signatures))"

definition verify_multisig ::
    "'k ed25519_lib \<Rightarrow> MultisigPayloadV1 \<Rightarrow> bytes \<Rightarrow> IndexedSignatureV1 list \<Rightarrow> TxError + unit" where
  "verify_multisig E payload digest signatures =
     rbind (MultisigPayloadV1_validate payload) (\<lambda>_.
       if length signatures < unat (ms_threshold payload) \<or>
          length signatures > length (ms_public_keys payload)
       then Inl TxInvalidMultisigWitness
       else verify_multisig_loop E (ms_public_keys payload) digest None signatures)"

record EpochLockedPayloadV1 =
  el_unlock_epoch :: u64
  el_inner_output_type :: u8
  el_inner_payload :: bytes

definition EpochLockedPayloadV1_validate :: "EpochLockedPayloadV1 \<Rightarrow> TxError + unit" where
  "EpochLockedPayloadV1_validate s =
     (if el_inner_output_type s = OUTPUT_PUBKEY_HASH \<or> el_inner_output_type s = OUTPUT_MULTISIG
      then Inr () else Inl TxUnsupportedEpochLockInnerType)"

definition EpochLockedPayloadV1_encode :: "EpochLockedPayloadV1 \<Rightarrow> TxError + bytes" where
  "EpochLockedPayloadV1_encode s =
     rbind (EpochLockedPayloadV1_validate s) (\<lambda>_.
       let out = write_u64_be [] (el_unlock_epoch s);
           out = write_u8 out (el_inner_output_type s);
           out = write_varuint out (of_nat (length (el_inner_payload s)))
       in Inr (out @ el_inner_payload s))"

definition check_epoch :: "EpochLockedPayloadV1 \<Rightarrow> u64 \<Rightarrow> TxError + unit" where
  "check_epoch s candidate_epoch =
     (if candidate_epoch < el_unlock_epoch s then Inl TxEpochLocked else Inr ())"

definition protocol_operations_empty_root :: "(bytes \<Rightarrow> bytes) \<Rightarrow> bytes" where
  "protocol_operations_empty_root H = sha256_domain H PROTOCOL_OPS_EMPTY []"

definition merkle_root :: "(bytes \<Rightarrow> bytes) \<Rightarrow> bytes list \<Rightarrow> bytes option" where
  "merkle_root H leaves =
     (if leaves = [] then None
      else Some (merkle_loop (\<lambda>a b. sha256_domain H TX_NODE [a, b]) leaves ! 0))"

definition required_base_fee :: "u64 \<Rightarrow> u64 \<Rightarrow> TxError + u64" where
  "required_base_fee rate_q32 tx_weight =
     rbind (ok_or TxOverflow (checked_mul (ucast rate_q32 :: u128) (ucast tx_weight))) (\<lambda>product.
     let denom = push_bit 32 1 :: u128
     in rbind (ok_or TxOverflow (checked_add product (denom - 1))) (\<lambda>total.
          let fee = total div denom
          in if unat fee < 2 ^ 64 then Inr (ucast fee) else Inl TxOverflow))"

section \<open>Transactions are a canonical message codec\<close>

text \<open>The transactions of the wire format: bounded counts, payload lengths of 64 bits, and either a
  single coinbase input without witnesses or ordinary inputs with one witness each.\<close>

fun is_coinbase :: "TxInput \<Rightarrow> bool" where
  "is_coinbase (Outpoint t i) = False"
| "is_coinbase (Coinbase c) = True"

fun wf_input :: "TxInput \<Rightarrow> bool" where
  "wf_input (Outpoint t i) = (arr 32 t \<and> \<not> (t = replicate 32 0 \<and> i = 0xffff))"
| "wf_input (Coinbase c) = (arr 32 (cb_parent_block_hash c) \<and> arr 32 (cb_protocol_operations_root c))"

definition wf_core :: "TransactionCoreV1 \<Rightarrow> bool" where
  "wf_core c \<longleftrightarrow>
     length (core_inputs c) \<le> 1024 \<and> length (core_outputs c) \<le> 1024 \<and>
     list_all wf_input (core_inputs c) \<and>
     (list_all (\<lambda>i. \<not> is_coinbase i) (core_inputs c) \<or> length (core_inputs c) = 1) \<and>
     list_all (\<lambda>x. len64 (out_payload x)) (core_outputs c)"

definition wf_tx :: "TransactionV1 \<Rightarrow> bool" where
  "wf_tx t \<longleftrightarrow>
     wf_core (tx_core t) \<and> list_all (\<lambda>x. len64 (wit_payload x)) (tx_witnesses t) \<and>
     length (tx_witnesses t) =
       (if list_ex is_coinbase (core_inputs (tx_core t)) then 0 else length (core_inputs (tx_core t)))"

lemma tx_cv_iff [simp]: "tx_cv r = Inr x \<longleftrightarrow> r = Inr x"
  by (simp add: tx_cv_def)

lemma tx_take_vec_iff [wire_simps]:
  "tx_take_vec input n = Inr (h, rest) \<longleftrightarrow> length h = n \<and> input = h @ rest"
  by (auto simp: tx_take_vec_def)

lemma TxOutput_encode_append: "TxOutput_encode s out = out @ TxOutput_encode s []"
  by (simp add: TxOutput_encode_def Let_def wire_simps)

lemma WitnessV1_encode_append: "WitnessV1_encode s out = out @ WitnessV1_encode s []"
  by (simp add: WitnessV1_encode_def Let_def wire_simps)

lemma encode_core_append: "encode_core s out = out @ encode_core s []"
  by (cases s) (simp_all add: CoinbaseCommitmentV1_encode_def Let_def)

lemma decode_output_iff [wire_simps]:
  "decode_output input = Inr (x, rest) \<longleftrightarrow>
     len64 (out_payload x) \<and> input = TxOutput_encode x [] @ rest"
  by (cases x) (auto simp: decode_output_def TxOutput_encode_def Let_def wire_simps)

lemma decode_witness_iff [wire_simps]:
  "decode_witness input = Inr (x, rest) \<longleftrightarrow>
     len64 (wit_payload x) \<and> input = WitnessV1_encode x [] @ rest"
  by (cases x) (auto simp: decode_witness_def WitnessV1_encode_def Let_def wire_simps)

interpretation tx_output: canonical_codec
  "\<lambda>x. TxOutput_encode x []" decode_output "\<lambda>x. len64 (out_payload x)"
  by unfold_locales (simp_all add: decode_output_iff)

interpretation tx_witness: canonical_codec
  "\<lambda>x. WitnessV1_encode x []" decode_witness "\<lambda>x. len64 (wit_payload x)"
  by unfold_locales (simp_all add: decode_witness_iff)

fun inputs_ok :: "u64 \<Rightarrow> nat \<Rightarrow> TxInput list \<Rightarrow> bool" where
  "inputs_ok n idx [] = True"
| "inputs_ok n idx (i # is) =
     (wf_input i \<and> (is_coinbase i \<longrightarrow> n = 1 \<and> idx = 0) \<and> inputs_ok n (idx + 1) is)"

lemma tx_cv_Inr [simp]: "tx_cv (Inr x) = Inr x"
  by (simp add: tx_cv_def)

lemma decode_inputs_enc:
  "inputs_ok n idx ins \<Longrightarrow>
   decode_inputs n idx (length ins) cb (concat (map (\<lambda>i. encode_core i []) ins) @ rest) =
     Inr (ins, cb \<or> list_ex is_coinbase ins, rest)"
proof (induction ins arbitrary: idx cb)
  case (Cons i "is")
  show ?case
  proof (cases i)
    case (Coinbase c)
    then show ?thesis
      using Cons by (cases c) (auto simp: read_enc CoinbaseCommitmentV1_encode_def)
  qed (use Cons in \<open>auto simp: read_enc\<close>)
qed simp

lemma decode_inputs_sound:
  "decode_inputs n idx todo cb input = Inr (ins, cb', rest) \<Longrightarrow>
     length ins = todo \<and> inputs_ok n idx ins \<and>
     input = concat (map (\<lambda>i. encode_core i []) ins) @ rest"
proof (induction todo arbitrary: idx cb input ins)
  case (Suc todo)
  then show ?case
    by (auto simp: wire_simps CoinbaseCommitmentV1_encode_def split: if_splits)
qed simp

lemma decode_inputs_iff:
  "decode_inputs n idx todo cb input = Inr (ins, cb', rest) \<longleftrightarrow>
     length ins = todo \<and> inputs_ok n idx ins \<and> cb' = (cb \<or> list_ex is_coinbase ins) \<and>
     input = concat (map (\<lambda>i. encode_core i []) ins) @ rest"
  (is "?l = ?r")
proof
  assume l: ?l
  have "length ins = todo" and ok: "inputs_ok n idx ins"
    and eq: "input = concat (map (\<lambda>i. encode_core i []) ins) @ rest"
    using decode_inputs_sound [OF l] by blast+
  then show ?r
    using l decode_inputs_enc [OF ok, of cb rest] by auto
next
  assume ?r
  then show ?l
    using decode_inputs_enc [of n idx ins cb rest] by auto
qed

lemma inputs_ok_iff:
  assumes "length ins \<le> 1024"
  shows "inputs_ok (of_nat (length ins)) 0 ins \<longleftrightarrow>
    list_all wf_input ins \<and> (list_all (\<lambda>i. \<not> is_coinbase i) ins \<or> length ins = 1)"
proof -
  have later: "inputs_ok n idx xs \<longleftrightarrow> list_all wf_input xs \<and> list_all (\<lambda>i. \<not> is_coinbase i) xs"
    if "0 < idx" for n idx xs
    using that by (induction xs arbitrary: idx) auto
  have one: "(of_nat (length ins) :: u64) = 1 \<longleftrightarrow> length ins = 1"
    using assms by (simp add: word_unat_eq_iff unat_of_nat take_bit_nat_eq_self_iff)
  show ?thesis
    using one by (cases ins) (auto simp: later)
qed

lemma TransactionCoreV1_encode_eq:
  "TransactionCoreV1_encode c =
     to_be_bytes (core_version c) @ to_be_bytes (core_network_id c) @
     to_be_bytes (core_valid_from_epoch c) @ to_be_bytes (core_expiry_epoch c) @
     encode_varuint (of_nat (length (core_inputs c))) @
     concat (map (\<lambda>i. encode_core i []) (core_inputs c)) @
     encode_varuint (of_nat (length (core_outputs c))) @
     concat (map (\<lambda>x. TxOutput_encode x []) (core_outputs c))"
  by (simp add: TransactionCoreV1_encode_def Let_def wire_simps
      fold_write [of encode_core, OF encode_core_append]
      fold_write [of TxOutput_encode, OF TxOutput_encode_append])

lemma encode_full_eq:
  "encode_full t = TransactionCoreV1_encode (tx_core t) @
     concat (map (\<lambda>x. WitnessV1_encode x []) (tx_witnesses t))"
  by (simp add: encode_full_def fold_write [of WitnessV1_encode, OF WitnessV1_encode_append])

lemma count_iff:
  "n \<le> 1024 \<and> unat n = length xs \<longleftrightarrow> length xs \<le> 1024 \<and> n = of_nat (length xs)" for n :: u64
proof -
  have "n = of_nat k \<longleftrightarrow> unat n = k" if "k \<le> 1024" for k
    using that by (auto simp: word_unat_eq_iff unat_of_nat take_bit_nat_eq_self_iff)
  from this [of "length xs"] show ?thesis
    by (auto simp: word_le_nat_alt)
qed

lemma decode_from_enc:
  assumes "wf_tx t"
  shows "decode_from (encode_full t @ rest) = Inr (t, rest)"
proof -
  let ?ins = "core_inputs (tx_core t)" and ?outs = "core_outputs (tx_core t)"
  have wf: "wf_core (tx_core t)" and len: "length ?ins \<le> 1024" "length ?outs \<le> 1024"
    using assms by (simp_all add: wf_tx_def wf_core_def)
  have n: "unat (of_nat (length ?ins) :: u64) = length ?ins" "\<not> (of_nat (length ?ins) :: u64) > 1024"
    and m: "unat (of_nat (length ?outs) :: u64) = length ?outs" "\<not> (of_nat (length ?outs) :: u64) > 1024"
    using count_iff [of "of_nat (length ?ins)" ?ins] count_iff [of "of_nat (length ?outs)" ?outs] len
    by (simp_all add: not_less)
  have ins: "inputs_ok (of_nat (length ?ins)) 0 ?ins"
    using wf inputs_ok_iff [OF len(1)] by (simp add: wf_core_def)
  have outs: "read_many decode_output (length ?outs)
      (concat (map (\<lambda>x. TxOutput_encode x []) ?outs) @ r) = Inr (?outs, r)" for r
    by (rule tx_output.read_many_enc) (use wf in \<open>simp add: wf_core_def\<close>)
  have "read_many decode_witness (length (tx_witnesses t))
      (concat (map (\<lambda>x. WitnessV1_encode x []) (tx_witnesses t)) @ rest) = Inr (tx_witnesses t, rest)"
    by (rule tx_witness.read_many_enc) (use assms in \<open>simp add: wf_tx_def\<close>)
  moreover have "(if list_ex is_coinbase ?ins then 0 else length ?ins) = length (tx_witnesses t)"
    using assms by (simp add: wf_tx_def)
  ultimately show ?thesis
    using n m by (auto simp: decode_from_def encode_full_eq TransactionCoreV1_encode_eq read_enc
        decode_inputs_enc [OF ins, simplified] outs split: if_splits)
qed

lemma decode_from_sound:
  assumes "decode_from input = Inr (t, rest)"
  shows "wf_tx t \<and> input = encode_full t @ rest"
proof -
  obtain version network_id valid_from expiry n ins cb m outs wits r
    where t: "t = \<lparr>tx_core = \<lparr>core_version = version, core_network_id = network_id,
        core_valid_from_epoch = valid_from, core_expiry_epoch = expiry,
        core_inputs = ins, core_outputs = outs\<rparr>, tx_witnesses = wits\<rparr>"
      and input: "input = to_be_bytes version @ to_be_bytes network_id @ to_be_bytes valid_from @
        to_be_bytes expiry @ encode_varuint n @ concat (map (\<lambda>i. encode_core i []) ins) @
        encode_varuint m @ concat (map (\<lambda>x. TxOutput_encode x []) outs) @ r"
      and n: "n \<le> 1024" "unat n = length ins" and m: "m \<le> 1024" "unat m = length outs"
      and ins: "inputs_ok n 0 ins" and cb: "cb = list_ex is_coinbase ins"
      and outs: "list_all (\<lambda>x. len64 (out_payload x)) outs"
      and wits: "read_many decode_witness (if cb then 0 else unat n) r = Inr (wits, rest)"
    using assms
    by (auto simp: decode_from_def decode_inputs_iff tx_output.read_many_iff read_varuint_iff
        read_u16_be_iff read_u32_be_iff read_u64_be_iff Let_def not_less)
  have n': "n = of_nat (length ins)" "length ins \<le> 1024" and m': "m = of_nat (length outs)" "length outs \<le> 1024"
    using count_iff n m by blast+
  show ?thesis
    using ins outs wits inputs_ok_iff [OF n'(2)] n m n' m'
    by (auto simp: t input cb wf_tx_def wf_core_def encode_full_eq TransactionCoreV1_encode_eq
        tx_witness.read_many_iff split: if_splits)
qed

interpretation tx_stream: canonical_codec encode_full decode_from wf_tx
  by unfold_locales (auto simp: decode_from_enc dest: decode_from_sound)

lemma decode_full_iff: "decode_full bs = Inr t \<longleftrightarrow> wf_tx t \<and> bs = encode_full t"
  by (auto simp: decode_full_def tx_stream.dec_iff)

interpretation tx_message: message_codec encode_full decode_full wf_tx
  by unfold_locales (simp_all add: decode_full_iff)

section \<open>Commitments\<close>

text \<open>The core encoding is prefix-free as well: pad the witnesses with empty ones.\<close>

lemma concat_replicate_pair: "concat (replicate n [a, a]) = replicate (2 * n) a"
  by (induction n) simp_all

lemma TransactionCoreV1_encode_inj:
  assumes "wf_core c" and "wf_core c'" and eq: "TransactionCoreV1_encode c = TransactionCoreV1_encode c'"
  shows "c = c'"
proof -
  define n where "n c = (if list_ex is_coinbase (core_inputs c) then 0 else length (core_inputs c))"
    for c :: TransactionCoreV1
  define w where "w = \<lparr>wit_witness_type = 0, wit_payload = []\<rparr>"
  define t where "t c = \<lparr>tx_core = c, tx_witnesses = replicate (n c) w\<rparr>" for c
  have "write_varuint [0] 0 = [0, 0]"
    by (simp add: write_varuint.simps)
  then have w: "WitnessV1_encode w [] = [0, 0]"
    by (simp add: w_def WitnessV1_encode_def)
  have wf: "wf_tx (t c)" if "wf_core c" for c
    using that by (auto simp: t_def wf_tx_def n_def w_def len64_def list_all_iff)
  have enc: "encode_full (t c) = TransactionCoreV1_encode c @ replicate (2 * n c) 0" for c
    by (simp add: encode_full_eq t_def w map_replicate concat_replicate_pair)
  have "encode_full (t c) @ replicate (2 * n c') 0 = encode_full (t c') @ replicate (2 * n c) 0"
    unfolding enc eq by (simp add: replicate_add [symmetric] add.commute)
  then have "t c = t c'"
    using tx_stream.enc_prefix_free [OF wf [OF assms(1)] wf [OF assms(2)]] by blast
  then show ?thesis
    by (simp add: t_def)
qed

lemma TX_LEAF_not_TX_NODE: "TX_LEAF \<noteq> TX_NODE"
  by (simp add: TX_LEAF_def TX_NODE_def ascii_eq_iff)

interpretation tx_merkle: merkle_domains TX_LEAF TX_NODE
  by unfold_locales (simp_all add: TX_LEAF_not_TX_NODE)

text \<open>The strings hashed for the root of a block's transactions.\<close>

definition tx_leaf_message :: "(bytes \<Rightarrow> bytes) \<Rightarrow> TransactionV1 \<Rightarrow> bytes" where
  "tx_leaf_message H t = tx_txid H t @ wtxid H t"

definition tx_root_inputs :: "(bytes \<Rightarrow> bytes) \<Rightarrow> TransactionV1 list \<Rightarrow> bytes set" where
  "tx_root_inputs H txs =
     (\<lambda>t. WTX_ID @ encode_full t) ` set txs \<union>
     merkle_inputs H TX_LEAF TX_NODE (map (tx_leaf_message H) txs)"

lemma wtxid_inj:
  assumes "wf_tx t" and "wf_tx u" and "inj_on H {WTX_ID @ encode_full t, WTX_ID @ encode_full u}"
    and "wtxid H t = wtxid H u"
  shows "t = u"
proof -
  have "encode_full t = encode_full u"
    using assms(4) unfolding wtxid_def by (rule sha256_domain_inj1) (rule assms(3))
  then show ?thesis
    using tx_message.msg_enc_inj assms(1,2) by blast
qed

lemma wtxid_list_inj:
  "list_all wf_tx txs \<Longrightarrow> list_all wf_tx us \<Longrightarrow>
   inj_on H ((\<lambda>t. WTX_ID @ encode_full t) ` set txs \<union> (\<lambda>t. WTX_ID @ encode_full t) ` set us) \<Longrightarrow>
   map (wtxid H) txs = map (wtxid H) us \<Longrightarrow> txs = us"
proof (induction txs arbitrary: us)
  case (Cons t txs)
  then obtain u us' where us: "us = u # us'"
    by (cases us) auto
  have "inj_on H {WTX_ID @ encode_full t, WTX_ID @ encode_full u}"
    by (rule inj_on_subset [OF Cons.prems(3)]) (auto simp: us)
  moreover have "inj_on H ((\<lambda>t. WTX_ID @ encode_full t) ` set txs \<union> (\<lambda>t. WTX_ID @ encode_full t) ` set us')"
    by (rule inj_on_subset [OF Cons.prems(3)]) (auto simp: us)
  ultimately show ?case
    using Cons.IH [of us'] Cons.prems wtxid_inj [of t u H] by (simp add: us)
qed simp

lemma merkle_root_leaves:
  "txs \<noteq> [] \<Longrightarrow> merkle_root H (map (tx_leaf H) txs) =
     Some (merkle_loop (tagged_node H TX_NODE) (map (tagged_leaf H TX_LEAF) (map (tx_leaf_message H) txs)) ! 0)"
proof -
  have "tx_leaf H = tagged_leaf H TX_LEAF \<circ> tx_leaf_message H"
    by (rule ext) (simp add: tx_leaf_def tagged_leaf_def tx_leaf_message_def sha256_domain_def Let_def)
  moreover have "tagged_node H TX_NODE = (\<lambda>a b. sha256_domain H TX_NODE [a, b])"
    by (intro ext) (simp add: tagged_node_def)
  ultimately show "txs \<noteq> [] \<Longrightarrow> ?thesis"
    by (simp add: merkle_root_def)
qed

lemma merkle_root_binding:
  assumes len: "\<forall>x. length (H x) = 32" and wf: "list_all wf_tx txs" "list_all wf_tx us"
    and inj: "inj_on H (tx_root_inputs H txs \<union> tx_root_inputs H us)"
    and eq: "merkle_root H (map (tx_leaf H) txs) = merkle_root H (map (tx_leaf H) us)"
  shows "txs = us"
proof (cases "txs = [] \<or> us = []")
  case True
  then show ?thesis
    using eq by (auto simp: merkle_root_def split: if_splits)
next
  case False
  let ?m = "\<lambda>ts. map (tx_leaf_message H) ts"
  let ?loop = "\<lambda>ts. merkle_loop (tagged_node H TX_NODE) (map (tagged_leaf H TX_LEAF) (?m ts))"
  have "?loop txs ! 0 = ?loop us ! 0"
    using eq merkle_root_leaves [of txs H] merkle_root_leaves [of us H] False
    by (metis option.inject)
  then have "?loop txs = ?loop us"
    using merkle_loop_single [of "map (tagged_leaf H TX_LEAF) (?m txs)"]
      merkle_loop_single [of "map (tagged_leaf H TX_LEAF) (?m us)"] False
    by (metis Nil_is_map_conv nth_Cons_0)
  moreover have "inj_on H (merkle_inputs H TX_LEAF TX_NODE (?m txs) \<union> merkle_inputs H TX_LEAF TX_NODE (?m us))"
    by (rule inj_on_subset [OF inj]) (auto simp: tx_root_inputs_def)
  ultimately have "?m txs = ?m us"
    using tx_merkle.merkle_binding [OF len, of "?m txs" "?m us"] False by blast
  then have "map (drop 32) (?m txs) = map (drop 32) (?m us)"
    by (rule arg_cong)
  then have "map (wtxid H) txs = map (wtxid H) us"
    using len by (simp add: tx_leaf_message_def tx_txid_def core_txid_def sha256_domain_def comp_def)
  then show ?thesis
    by (rule wtxid_list_inj [OF wf, rotated])
      (rule inj_on_subset [OF inj], auto simp: tx_root_inputs_def)
qed

section \<open>Signatures\<close>

lemma strictly_ascending_distinct: "strictly_ascending ks \<Longrightarrow> sorted_wrt (<) ks"
proof (induction ks rule: strictly_ascending.induct)
  case (1 a b xs)
  then show ?case by (auto intro: less_trans)
qed auto

lemma verify_multisig_loop_ok:
  "verify_multisig_loop E ks d prev sigs = Inr () \<Longrightarrow>
     sorted_wrt (<) (map is_key_index sigs) \<and>
     (\<forall>p. prev = Some p \<longrightarrow> (\<forall>s \<in> set sigs. p < is_key_index s)) \<and>
     (\<forall>s \<in> set sigs. unat (is_key_index s) < length ks \<and>
        signature_valid E (ks ! unat (is_key_index s)) d (is_signature s))"
proof (induction sigs arbitrary: prev)
  case (Cons item sigs)
  obtain vk where "vk_from_bytes E (ks ! unat (is_key_index item)) = Some vk"
    "vk_verify E vk d (is_signature item)" "unat (is_key_index item) < length ks"
    and prev: "\<And>p. prev = Some p \<Longrightarrow> p < is_key_index item"
    and rest: "verify_multisig_loop E ks d (Some (is_key_index item)) sigs = Inr ()"
    using Cons.prems by (auto simp: Let_def not_less not_le split: option.splits)
  then show ?case
    using Cons.IH [OF rest] by (auto simp: signature_valid_def intro: less_trans)
qed simp

lemma sorted_wrt_less_distinct: "sorted_wrt (<) xs \<Longrightarrow> distinct (xs :: 'a :: linorder list)"
  by (induction xs) auto

lemma validate_multisig_iff:
  "MultisigPayloadV1_validate p = Inr () \<longleftrightarrow>
     0 < length (ms_public_keys p) \<and> length (ms_public_keys p) \<le> 16 \<and> 0 < unat (ms_threshold p) \<and>
     unat (ms_threshold p) \<le> length (ms_public_keys p) \<and> strictly_ascending (ms_public_keys p)"
  by (auto simp: MultisigPayloadV1_validate_def unat_gt_0)

definition signing_keys :: "'k ed25519_lib \<Rightarrow> MultisigPayloadV1 \<Rightarrow> bytes \<Rightarrow> IndexedSignatureV1 list \<Rightarrow> bytes set" where
  "signing_keys E p d sigs =
     {k \<in> set (ms_public_keys p). \<exists>s \<in> set sigs. signature_valid E k d (is_signature s)}"

lemma verify_multisig_quorum:
  assumes "verify_multisig E p d sigs = Inr ()"
  shows "0 < unat (ms_threshold p)" and "unat (ms_threshold p) \<le> card (signing_keys E p d sigs)"
proof -
  let ?ks = "ms_public_keys p"
  let ?f = "\<lambda>s. ?ks ! unat (is_key_index s)"
  have v: "MultisigPayloadV1_validate p = Inr ()" and len: "unat (ms_threshold p) \<le> length sigs"
    and loop: "verify_multisig_loop E ?ks d None sigs = Inr ()"
    using assms by (auto simp: verify_multisig_def)
  show "0 < unat (ms_threshold p)"
    using v by (simp add: validate_multisig_iff)
  have ks: "distinct ?ks"
    using v strictly_ascending_distinct sorted_wrt_less_distinct by (auto simp: validate_multisig_iff)
  have idx: "distinct (map is_key_index sigs)"
    and ok: "\<And>s. s \<in> set sigs \<Longrightarrow> unat (is_key_index s) < length ?ks \<and> signature_valid E (?f s) d (is_signature s)"
    using verify_multisig_loop_ok [OF loop] sorted_wrt_less_distinct by blast+
  have "inj_on ?f (set sigs)"
  proof (rule inj_onI)
    fix a b assume ab: "a \<in> set sigs" "b \<in> set sigs" and eq: "?f a = ?f b"
    from eq have "unat (is_key_index a) = unat (is_key_index b)"
      by (rule nth_eq_iff_index_eq [OF ks, THEN iffD1, rotated 2]) (use ok ab in blast)+
    then have "is_key_index a = is_key_index b"
      by (rule word_unat_eq_iff [THEN iffD2])
    then show "a = b"
      using idx ab by (simp add: distinct_map inj_on_def)
  qed
  then have "card (?f ` set sigs) = length sigs"
    using idx by (simp add: card_image distinct_map distinct_card)
  moreover have "card (?f ` set sigs) \<le> card (signing_keys E p d sigs)"
  proof (rule card_mono)
    show "finite (signing_keys E p d sigs)"
      by (simp add: signing_keys_def)
    show "?f ` set sigs \<subseteq> signing_keys E p d sigs"
      using ok by (auto simp: signing_keys_def)
  qed
  ultimately show "unat (ms_threshold p) \<le> card (signing_keys E p d sigs)"
    using len by linarith
qed

section \<open>Base fee\<close>

lemma required_base_fee_eq:
  "required_base_fee rate weight =
     (let fee = (unat rate * unat weight + (2 ^ 32 - 1)) div 2 ^ 32
      in if fee < 2 ^ 64 then Inr (of_nat fee) else Inl TxOverflow)"
proof -
  let ?p = "unat rate * unat weight"
  have "?p \<le> (2 ^ 64 - 1) * (2 ^ 64 - 1)"
    using unat_less_2p [of rate] unat_less_2p [of weight] by (intro mult_le_mono) simp_all
  then have small: "?p + (2 ^ 32 - 1) < 2 ^ 128" "?p < 2 ^ 128"
    by simp_all
  have u: "unat (ucast rate :: u128) * unat (ucast weight :: u128) = ?p"
    by (simp add: unat_ucast_up)
  then have "unat (ucast rate :: u128) * unat (ucast weight :: u128) < 2 ^ LENGTH(128)"
    using small(2) by simp
  then obtain q where q: "checked_mul (ucast rate :: u128) (ucast weight) = Some q"
    and "unat q = unat (ucast rate :: u128) * unat (ucast weight :: u128)"
    by (rule checked_mul_ok)
  then have qp: "unat q = ?p"
    using u by (simp only: )
  have "unat q + unat (push_bit 32 1 - 1 :: u128) < 2 ^ LENGTH(128)"
    using small(1) by (simp add: qp)
  then obtain t where t: "checked_add q (push_bit 32 1 - 1) = Some t"
    and "unat t = unat q + unat (push_bit 32 1 - 1 :: u128)"
    by (rule checked_add_ok)
  then have "unat (t div push_bit 32 1) = (?p + (2 ^ 32 - 1)) div 2 ^ 32"
    using qp by (simp add: unat_div)
  moreover have "(ucast (t div push_bit 32 1) :: u64) = word_of_nat (unat (t div push_bit 32 1))"
    by (rule ucast_of_unat)
  ultimately show ?thesis
    unfolding required_base_fee_def by (simp only: q t ok_or_simps rbind_simps Let_def)
qed

lemma txid_iff:
  assumes "wf_core c" and "wf_core c'"
    and "inj_on H {TX_ID @ TransactionCoreV1_encode c, TX_ID @ TransactionCoreV1_encode c'}"
  shows "core_txid H c = core_txid H c' \<longleftrightarrow> c = c'"
proof
  assume "core_txid H c = core_txid H c'"
  then have "TransactionCoreV1_encode c = TransactionCoreV1_encode c'"
    unfolding core_txid_def by (rule sha256_domain_inj1) (rule assms(3))
  then show "c = c'"
    using TransactionCoreV1_encode_inj assms(1,2) by blast
qed simp

definition wf_prevout :: "PrevoutCommitmentV1 \<Rightarrow> bool" where
  "wf_prevout p \<longleftrightarrow> arr 32 (prev_previous_txid p) \<and> len64 (prev_payload p)"

lemma PrevoutCommitmentV1_encode_eq:
  "PrevoutCommitmentV1_encode p =
     prev_previous_txid p @ to_be_bytes (prev_previous_output_index p) @
     TxOutput_encode \<lparr>out_amount_strikes = prev_amount_strikes p, out_output_type = prev_output_type p,
                       out_payload = prev_payload p\<rparr> []"
  by (simp add: PrevoutCommitmentV1_encode_def TxOutput_encode_def Let_def wire_simps)

lemma sighash_message_inj:
  fixes i j :: u16
  assumes "wf_prevout p" and "wf_prevout q" and "length txid = 32" and "length txid' = 32"
    and eq: "txid @ to_be_bytes i @ PrevoutCommitmentV1_encode p =
             txid' @ to_be_bytes j @ PrevoutCommitmentV1_encode q"
  shows "txid = txid' \<and> i = j \<and> p = q"
proof -
  have 1: "txid = txid' \<and> to_be_bytes i @ PrevoutCommitmentV1_encode p = to_be_bytes j @ PrevoutCommitmentV1_encode q"
    using eq assms(3,4) by (rule arr_prefix)
  have 2: "i = j \<and> PrevoutCommitmentV1_encode p = PrevoutCommitmentV1_encode q"
    by (rule u16_codec.enc_prefix_free [OF TrueI TrueI 1 [THEN conjunct2]])
  let ?out = "\<lambda>p. \<lparr>out_amount_strikes = prev_amount_strikes p, out_output_type = prev_output_type p,
    out_payload = prev_payload p\<rparr>"
  have 3: "prev_previous_txid p = prev_previous_txid q \<and>
      to_be_bytes (prev_previous_output_index p) @ TxOutput_encode (?out p) [] =
      to_be_bytes (prev_previous_output_index q) @ TxOutput_encode (?out q) []"
    using 2 [THEN conjunct2] assms(1,2) [unfolded wf_prevout_def, THEN conjunct1]
    unfolding PrevoutCommitmentV1_encode_eq by (rule arr_prefix)
  have 4: "prev_previous_output_index p = prev_previous_output_index q \<and>
      TxOutput_encode (?out p) [] = TxOutput_encode (?out q) []"
    by (rule u16_codec.enc_prefix_free [OF TrueI TrueI 3 [THEN conjunct2]])
  have "?out p = ?out q"
    using tx_output.enc_inj [OF _ _ 4 [THEN conjunct2]] assms(1,2) [unfolded wf_prevout_def, THEN conjunct2]
    by (simp only: TxOutput.select_convs)
  then show ?thesis
    using 1 [THEN conjunct1] 2 [THEN conjunct1] 3 [THEN conjunct1] 4 [THEN conjunct1]
    by (auto intro: PrevoutCommitmentV1.equality)
qed

text \<open>Inputs on which the properties are evaluated.\<close>

definition sample_tx :: "u16 \<Rightarrow> TransactionV1" where
  "sample_tx v = \<lparr>tx_core = \<lparr>core_version = v, core_network_id = 7, core_valid_from_epoch = 1,
     core_expiry_epoch = 2, core_inputs = [], core_outputs = []\<rparr>, tx_witnesses = []\<rparr>"

lemma encode_sample_core: "TransactionCoreV1_encode (tx_core (sample_tx v)) =
    to_be_bytes v @ [0,0,0,7,0,0,0,0,0,0,0,1,0,0,0,0,0,0,0,2,0,0]"
  by (simp add: TransactionCoreV1_encode_eq sample_tx_def encode_varuint_0 to_be_bytes_def nat_be_numeral)

lemma encode_sample: "encode_full (sample_tx v) =
    to_be_bytes v @ [0,0,0,7,0,0,0,0,0,0,0,1,0,0,0,0,0,0,0,2,0,0]"
  using encode_sample_core [of v] by (simp add: encode_full_eq sample_tx_def)

lemma wf_sample: "wf_tx (sample_tx v)"
  by (simp add: wf_tx_def wf_core_def sample_tx_def)

lemma sample_root_inputs:
  "inj_on tail_hash (tx_root_inputs tail_hash [sample_tx 1] \<union> tx_root_inputs tail_hash [sample_tx 2])"
  by (simp add: tx_root_inputs_def merkle_inputs_def merkle_tree_def merkle_loop.simps tx_leaf_message_def)
    (simp add: wtxid_def sha256_domain_def encode_sample to_be_bytes_def nat_be_numeral tail_hash_def
      TX_LEAF_def WTX_ID_def ascii_def)

definition toy_ed25519 :: "bytes ed25519_lib" where
  "toy_ed25519 = \<lparr>vk_from_bytes = Some, vk_verify = (\<lambda>k d s. s = k @ d)\<rparr>"

section \<open>Properties\<close>

text \<open>C13. Transaction decoding is exact: \<open>decode_full\<close> accepts a byte string if and only if it is the
  encoding of a well-formed transaction (bounded counts, one coinbase input without witnesses or
  ordinary inputs with one witness each), and then returns that transaction.\<close>

theorem decode_full_exact: "(decode_full bs = Inr t) = (wf_tx t \<and> bs = encode_full t)"
  by (rule decode_full_iff)

text \<open>C20. The transaction Merkle root of a block commits to the whole list of transactions: order,
  number and witnesses. Two well-formed lists with the same root are equal, unless SHA-256 collides
  on the strings hashed for the two roots.\<close>

theorem transaction_root_commits:
  assumes "\<forall>x. length (H x) = 32" and "list_all wf_tx txs" and "list_all wf_tx us"
    and "inj_on H (tx_root_inputs H txs \<union> tx_root_inputs H us)"
    and "merkle_root H (map (tx_leaf H) txs) = merkle_root H (map (tx_leaf H) us)"
  shows "txs = us"
  using assms by (rule merkle_root_binding)

theorem transaction_root_commits_witness:
  "merkle_root tail_hash (map (tx_leaf tail_hash) [sample_tx 1]) \<noteq>
   merkle_root tail_hash (map (tx_leaf tail_hash) [sample_tx 2])"
proof
  assume "merkle_root tail_hash (map (tx_leaf tail_hash) [sample_tx 1]) =
    merkle_root tail_hash (map (tx_leaf tail_hash) [sample_tx 2])"
  then have "[sample_tx 1] = [sample_tx 2]"
    by (rule transaction_root_commits [OF _ _ _ sample_root_inputs, rotated 3])
      (simp_all add: length_tail_hash wf_sample)
  then show False
    by (simp add: sample_tx_def)
qed

text \<open>The transaction id is independent of the witnesses and determines everything else: two
  well-formed transactions have the same id exactly when their cores are equal.\<close>

theorem txid_commits_core:
  assumes "wf_tx t" and "wf_tx u"
    and "inj_on H {TX_ID @ TransactionCoreV1_encode (tx_core t), TX_ID @ TransactionCoreV1_encode (tx_core u)}"
  shows "tx_txid H t = tx_txid H u \<longleftrightarrow> tx_core t = tx_core u"
  using assms txid_iff by (simp add: tx_txid_def wf_tx_def)

theorem txid_commits_core_witness:
  "tx_txid tail_hash (sample_tx 1) \<noteq> tx_txid tail_hash (sample_tx 2)"
proof -
  have "inj_on tail_hash {TX_ID @ TransactionCoreV1_encode (tx_core (sample_tx 1)),
      TX_ID @ TransactionCoreV1_encode (tx_core (sample_tx 2))}"
    by (simp add: encode_sample_core to_be_bytes_def nat_be_numeral tail_hash_def TX_ID_def ascii_def)
  from txid_commits_core [OF wf_sample wf_sample this] show ?thesis
    by (simp add: sample_tx_def)
qed

text \<open>C24. A multisig spend that verifies has a quorum: at least \<open>threshold\<close>, and at least one, distinct
  keys of the policy have a valid signature on the digest among those supplied.\<close>

theorem multisig_needs_quorum:
  assumes "verify_multisig E payload digest signatures = Inr ()"
  shows "0 < unat (ms_threshold payload) \<and>
    unat (ms_threshold payload) \<le> card (signing_keys E payload digest signatures)"
  using verify_multisig_quorum [OF assms] by simp

theorem multisig_needs_quorum_witness:
  "verify_multisig toy_ed25519 \<lparr>ms_threshold = 2, ms_public_keys = [[1], [2], [3]]\<rparr> [9]
     [\<lparr>is_key_index = 0, is_signature = [1, 9]\<rparr>, \<lparr>is_key_index = 2, is_signature = [3, 9]\<rparr>] = Inr () \<and>
   2 \<le> card (signing_keys toy_ed25519 \<lparr>ms_threshold = 2, ms_public_keys = [[1], [2], [3]]\<rparr> [9]
     [\<lparr>is_key_index = 0, is_signature = [1, 9]\<rparr>, \<lparr>is_key_index = 2, is_signature = [3, 9]\<rparr>])"
proof -
  have v: "verify_multisig toy_ed25519 \<lparr>ms_threshold = 2, ms_public_keys = [[1], [2], [3]]\<rparr> [9]
     [\<lparr>is_key_index = 0, is_signature = [1, 9]\<rparr>, \<lparr>is_key_index = 2, is_signature = [3, 9]\<rparr>] = Inr ()"
    by (simp add: verify_multisig_def MultisigPayloadV1_validate_def toy_ed25519_def)
  with multisig_needs_quorum [OF v] show ?thesis
    by simp
qed

text \<open>C40. The signature hash binds the spend: it determines the transaction id, the input index and the
  spent output, so a signature made for one input is not valid for another.\<close>

theorem sighash_binds_spend:
  assumes "wf_prevout p" and "wf_prevout q" and "length txid = 32" and "length txid' = 32"
    and "inj_on H {TX_SIGN @ txid @ to_be_bytes i @ PrevoutCommitmentV1_encode p,
                   TX_SIGN @ txid' @ to_be_bytes j @ PrevoutCommitmentV1_encode q}"
    and "sighash_all H txid i p = sighash_all H txid' j q"
  shows "txid = txid' \<and> i = j \<and> p = q"
proof (rule sighash_message_inj [OF assms(1-4)])
  have "sha256_domain H TX_SIGN [txid, to_be_bytes i, PrevoutCommitmentV1_encode p] =
      sha256_domain H TX_SIGN [txid', to_be_bytes j, PrevoutCommitmentV1_encode q]"
    using assms(6) unfolding sighash_all_def Let_def .
  then have "concat [txid, to_be_bytes i, PrevoutCommitmentV1_encode p] =
      concat [txid', to_be_bytes j, PrevoutCommitmentV1_encode q]"
    by (rule sha256_domain_inj) (use assms(5) in \<open>simp only: concat.simps append_Nil2\<close>)
  then show "txid @ to_be_bytes i @ PrevoutCommitmentV1_encode p =
      txid' @ to_be_bytes j @ PrevoutCommitmentV1_encode q"
    by (simp only: concat.simps append_Nil2)
qed

theorem sighash_binds_spend_witness:
  "sighash_all tail_hash (replicate 32 1) 0 \<lparr>prev_previous_txid = replicate 32 5, prev_previous_output_index = 0,
      prev_amount_strikes = 9, prev_output_type = 1, prev_payload = []\<rparr> \<noteq>
   sighash_all tail_hash (replicate 32 1) 1 \<lparr>prev_previous_txid = replicate 32 5, prev_previous_output_index = 1,
      prev_amount_strikes = 9, prev_output_type = 1, prev_payload = []\<rparr>"
  (is "sighash_all _ ?t 0 ?p \<noteq> sighash_all _ ?t 1 ?q")
proof
  assume eq: "sighash_all tail_hash ?t 0 ?p = sighash_all tail_hash ?t 1 ?q"
  have "inj_on tail_hash {TX_SIGN @ ?t @ to_be_bytes (0 :: u16) @ PrevoutCommitmentV1_encode ?p,
      TX_SIGN @ ?t @ to_be_bytes (1 :: u16) @ PrevoutCommitmentV1_encode ?q}"
    by (simp add: PrevoutCommitmentV1_encode_def Let_def wire_simps encode_varuint_0 to_be_bytes_def
        nat_be_numeral tail_hash_def)
  from sighash_binds_spend [OF _ _ _ _ this eq] show False
    by (simp add: wf_prevout_def len64_def)
qed

text \<open>The base fee is the exact product of rate and weight divided by \<open>2^32\<close> and rounded up; the
  intermediate 128-bit arithmetic never overflows, and the only error is a fee of 64 bits or more.\<close>

theorem required_base_fee_exact:
  "required_base_fee rate weight =
     (let fee = (unat rate * unat weight + (2 ^ 32 - 1)) div 2 ^ 32
      in if fee < 2 ^ 64 then Inr (of_nat fee) else Inl TxOverflow)"
  by (rule required_base_fee_eq)

end
