(* ===== verification/Ordered_Map.thy ===== *)
theory Ordered_Map
  imports Prelude
begin

text \<open>
  The standard library's \<open>BTreeMap\<close>: an association list in strictly increasing key order, which is
  the order in which the code iterates. The locale \<open>ordered_map\<close> is the interface the components
  rely on (what \<open>get\<close> returns after \<open>insert\<close> and \<open>remove\<close>, and that the order is kept).
\<close>

type_synonym ('k, 'v) btree_map = "('k \<times> 'v) list"

definition bm_wf :: "('k::linorder, 'v) btree_map \<Rightarrow> bool" where
  "bm_wf m \<longleftrightarrow> sorted_wrt (<) (map fst m)"

abbreviation bm_get :: "('k, 'v) btree_map \<Rightarrow> 'k \<Rightarrow> 'v option" where
  "bm_get \<equiv> map_of"

definition bm_contains_key :: "('k, 'v) btree_map \<Rightarrow> 'k \<Rightarrow> bool" where
  "bm_contains_key m k \<longleftrightarrow> bm_get m k \<noteq> None"

fun bm_insert :: "'k::linorder \<Rightarrow> 'v \<Rightarrow> ('k, 'v) btree_map \<Rightarrow> ('k, 'v) btree_map" where
  "bm_insert k v [] = [(k, v)]"
| "bm_insert k v ((l, w) # m) =
     (if k < l then (k, v) # (l, w) # m
      else if k = l then (k, v) # m
      else (l, w) # bm_insert k v m)"

definition bm_remove :: "'k \<Rightarrow> ('k, 'v) btree_map \<Rightarrow> ('k, 'v) btree_map" where
  "bm_remove k m = filter (\<lambda>(l, w). l \<noteq> k) m"

text \<open>\<open>collect\<close> inserts the items in the order they come.\<close>

definition bm_collect :: "('k::linorder \<times> 'v) list \<Rightarrow> ('k, 'v) btree_map" where
  "bm_collect kvs = fold (\<lambda>(k, v). bm_insert k v) kvs []"

lemma bm_get_insert: "bm_get (bm_insert k v m) = (bm_get m)(k \<mapsto> v)"
  by (induction m) (auto simp: fun_upd_twist)

lemma bm_get_remove: "bm_get (bm_remove k m) = (bm_get m)(k := None)"
  by (induction m) (auto simp: bm_remove_def fun_upd_twist)

lemma keys_bm_insert: "set (map fst (bm_insert k v m)) = insert k (set (map fst m))"
proof (induction m)
  case (Cons e m)
  then show ?case by (cases e) (simp add: insert_commute)
qed simp

lemma bm_wf_insert: "bm_wf m \<Longrightarrow> bm_wf (bm_insert k v m)"
proof (induction m)
  case (Cons e m)
  obtain l w where e: "e = (l, w)"
    by (cases e)
  have "bm_wf (bm_insert k v m)"
    using Cons by (simp add: bm_wf_def)
  moreover have "\<forall>x \<in> set (map fst (bm_insert k v m)). l < x" if "l < k"
    unfolding keys_bm_insert using Cons.prems that by (auto simp: bm_wf_def e)
  ultimately show ?case
    using Cons.prems by (auto simp: bm_wf_def e)
qed (simp add: bm_wf_def)

lemma bm_wf_remove: "bm_wf m \<Longrightarrow> bm_wf (bm_remove k m)"
  by (induction m) (auto simp: bm_wf_def bm_remove_def)

lemma bm_wf_Nil [simp]: "bm_wf []"
  by (simp add: bm_wf_def)

lemma bm_wf_distinct: "bm_wf m \<Longrightarrow> distinct (map fst m)"
  unfolding bm_wf_def by (auto simp: strict_sorted_iff)

lemma map_of_rev: "distinct (map fst kvs) \<Longrightarrow> map_of (rev kvs) = map_of kvs"
  by (simp add: map_of_inject_set rev_map [symmetric])

text \<open>Ordered maps are extensional.\<close>

lemma bm_ext:
  assumes "bm_wf a" and "bm_wf b" and "bm_get a = bm_get b"
  shows "a = b"
proof -
  have recover: "map (\<lambda>k. (k, the (bm_get m k))) (map fst m) = m" if "bm_wf m" for m :: "('a, 'b) btree_map"
    unfolding map_map by (rule map_idI) (use bm_wf_distinct [OF that] in \<open>auto simp: map_of_is_SomeI\<close>)
  have "set (map fst a) = set (map fst b)"
    using assms(3) by (metis dom_map_of_conv_image_fst set_map)
  then have "map fst a = map fst b"
    using assms(1,2) unfolding bm_wf_def by (intro strict_sorted_equal)
  then show ?thesis
    using recover [OF assms(1)] recover [OF assms(2)] assms(3) by metis
qed

section \<open>The interface\<close>

locale ordered_map =
  fixes empty :: 'm
    and insert :: "'k \<Rightarrow> 'v \<Rightarrow> 'm \<Rightarrow> 'm"
    and remove :: "'k \<Rightarrow> 'm \<Rightarrow> 'm"
    and lookup :: "'m \<Rightarrow> 'k \<Rightarrow> 'v option"
    and invar :: "'m \<Rightarrow> bool"
  assumes lookup_empty: "lookup empty = (\<lambda>_. None)"
    and lookup_insert: "lookup (insert k v m) = (lookup m)(k \<mapsto> v)"
    and lookup_remove: "lookup (remove k m) = (lookup m)(k := None)"
    and invar_empty: "invar empty"
    and invar_insert: "invar m \<Longrightarrow> invar (insert k v m)"
    and invar_remove: "invar m \<Longrightarrow> invar (remove k m)"
begin

lemma lookup_fold_insert:
  "lookup (fold (\<lambda>(k, v). insert k v) kvs m) = lookup m ++ map_of (rev kvs)"
  by (induction kvs arbitrary: m) (auto simp: lookup_insert map_add_def split: option.splits)

lemma invar_fold_insert: "invar m \<Longrightarrow> invar (fold (\<lambda>(k, v). insert k v) kvs m)"
  by (induction kvs arbitrary: m) (auto simp: invar_insert)

lemma lookup_collect:
  "distinct (map fst kvs) \<Longrightarrow> lookup (fold (\<lambda>(k, v). insert k v) kvs empty) = map_of kvs"
  by (simp add: lookup_fold_insert lookup_empty map_of_rev)

end

interpretation bm: ordered_map "[]" bm_insert bm_remove bm_get bm_wf
  by unfold_locales (auto simp: bm_get_insert bm_get_remove bm_wf_insert bm_wf_remove)

end
