(* ===== verification/Smt.thy ===== *)
theory Smt
  imports Crypto Codec Ordered_Map
begin

text \<open>
  The sparse Merkle tree of depth 256 (crates/mutiny-state/src/lib.rs): default hashes, the root of a
  set of entries computed level by level over the occupied nodes only, the root of a single leaf,
  and the verification of compressed inclusion proofs. A dense reference tree \<open>node_hash\<close>, which
  hashes every subtree down to all \<open>2^256\<close> leaves, is the specification; the theory shows that the
  level-by-level routine and the single-leaf routine compute its root, and that a proof accepted
  against the root of a set of entries shows the value the entries have at the key.
\<close>

unbundle bit_operations_syntax

section \<open>Model\<close>

definition SMT_DEPTH :: nat where "SMT_DEPTH = 256"

datatype StateError =
    ProofSiblingCount
  | RedundantDefaultSibling
  | InvalidLicenseRecord
  | InvalidMiningPresenceState
  | StateOverflow

definition smt_empty_hashes :: "(bytes \<Rightarrow> bytes) \<Rightarrow> bytes list" where
  "smt_empty_hashes H =
     fold (\<lambda>i out. let h = sha256_domain H SMT_NODE [out ! i, out ! i] in out @ [h])
       [0..<SMT_DEPTH] [sha256_domain H SMT_EMPTY_LEAF []]"

definition smt_empty_root :: "(bytes \<Rightarrow> bytes) \<Rightarrow> bytes" where
  "smt_empty_root H = smt_empty_hashes H ! SMT_DEPTH"

definition smt_node :: "(bytes \<Rightarrow> bytes) \<Rightarrow> bytes \<Rightarrow> bytes \<Rightarrow> bytes" where
  "smt_node H left right = sha256_domain H SMT_NODE [left, right]"

definition key_bit_msb :: "bytes \<Rightarrow> nat \<Rightarrow> u8" where
  "key_bit_msb key depth = drop_bit (7 - depth mod 8) (key ! (depth div 8)) AND 1"

text \<open>The loop \<open>for depth in (0..SMT_DEPTH).rev()\<close> that single-leaf roots and proofs share, with the
  sibling at each depth.\<close>

definition climb :: "(bytes \<Rightarrow> bytes) \<Rightarrow> bytes \<Rightarrow> (nat \<Rightarrow> bytes) \<Rightarrow> bytes \<Rightarrow> bytes" where
  "climb H key sibling leaf =
     fold (\<lambda>depth cur. if key_bit_msb key depth = 0 then smt_node H cur (sibling depth)
                        else smt_node H (sibling depth) cur)
       (rev [0..<SMT_DEPTH]) leaf"

definition single_leaf_root :: "(bytes \<Rightarrow> bytes) \<Rightarrow> bytes \<Rightarrow> bytes \<Rightarrow> bytes" where
  "single_leaf_root H key leaf =
     (let empties = smt_empty_hashes H
      in climb H key (\<lambda>depth. empties ! (SMT_DEPTH - 1 - depth)) leaf)"

text \<open>One step of the inner loop of \<open>sparse_root\<close>: \<open>level\<close> is being read, \<open>next\<close> and \<open>consumed\<close> grow.\<close>

definition sparse_step ::
    "(bytes \<Rightarrow> bytes) \<Rightarrow> bytes \<Rightarrow> (nat, bytes) btree_map \<Rightarrow> nat \<times> bytes \<Rightarrow>
     (nat, bytes) btree_map \<times> (nat, unit) btree_map \<Rightarrow> (nat, bytes) btree_map \<times> (nat, unit) btree_map" where
  "sparse_step H dflt level = (\<lambda>(index, val) (nxt, consumed).
     if bm_contains_key consumed index then (nxt, consumed)
     else
       let sibling_index = index XOR 1;
           sibling = (case bm_get level sibling_index of Some s \<Rightarrow> s | None \<Rightarrow> dflt);
           is_right = (index AND 1 = 1);
           parent = (if is_right then smt_node H sibling val else smt_node H val sibling)
       in (bm_insert (drop_bit 1 index) parent nxt,
           bm_insert sibling_index () (bm_insert index () consumed)))"

definition sparse_level ::
    "(bytes \<Rightarrow> bytes) \<Rightarrow> bytes \<Rightarrow> (nat, bytes) btree_map \<Rightarrow> (nat, bytes) btree_map" where
  "sparse_level H dflt level = fst (fold (sparse_step H dflt level) level ([], []))"

definition sparse_root :: "(bytes \<Rightarrow> bytes) \<Rightarrow> (bytes, bytes) btree_map \<Rightarrow> bytes" where
  "sparse_root H entries =
     (if entries = [] then smt_empty_root H
      else
        let empties = smt_empty_hashes H;
            level = bm_collect (map (\<lambda>(k, v). (be_nat k, v)) entries);
            level = fold (\<lambda>height level. sparse_level H (empties ! height) level) [0..<SMT_DEPTH] level
        in case bm_get level 0 of Some r \<Rightarrow> r | None \<Rightarrow> empties ! SMT_DEPTH)"

record CompressedSmtProofV1 =
  smt_bitmap :: bytes
  smt_nondefault_siblings :: "bytes list"

definition bitmap_set :: "bytes \<Rightarrow> nat \<Rightarrow> bool" where
  "bitmap_set bitmap depth = (drop_bit (7 - depth mod 8) (bitmap ! (depth div 8)) AND 1 = 1)"

definition count_ones :: "u8 \<Rightarrow> nat" where
  "count_ones b = length (filter (\<lambda>i. bit b i) [0..<8])"

text \<open>The first loop of \<open>verify_compressed_proof\<close>, with \<open>by_depth\<close> and \<open>cursor\<close>. Indexing past the end
  of the siblings would panic; the count check before the loop rules it out.\<close>

fun collect_siblings ::
    "bytes list \<Rightarrow> bytes \<Rightarrow> bytes list \<Rightarrow> nat list \<Rightarrow> (nat, bytes) btree_map \<Rightarrow> nat \<Rightarrow>
     StateError + (nat, bytes) btree_map" where
  "collect_siblings empties bitmap siblings [] by_depth cursor = Inr by_depth"
| "collect_siblings empties bitmap siblings (depth # depths) by_depth cursor =
     (if bitmap_set bitmap depth then
        let sibling = siblings ! cursor;
            dflt = empties ! (SMT_DEPTH - 1 - depth)
        in if sibling = dflt then Inl RedundantDefaultSibling
           else collect_siblings empties bitmap siblings depths (bm_insert depth sibling by_depth) (cursor + 1)
      else collect_siblings empties bitmap siblings depths by_depth cursor)"

definition verify_compressed_proof ::
    "(bytes \<Rightarrow> bytes) \<Rightarrow> bytes \<Rightarrow> bytes \<Rightarrow> CompressedSmtProofV1 \<Rightarrow> bytes \<Rightarrow> StateError + bool" where
  "verify_compressed_proof H key leaf prf expected_root =
     (let expected_count = sum_list (map count_ones (smt_bitmap prf))
      in if expected_count \<noteq> length (smt_nondefault_siblings prf) then Inl ProofSiblingCount
         else
           let empties = smt_empty_hashes H
           in rbind (collect_siblings empties (smt_bitmap prf) (smt_nondefault_siblings prf)
                       [0..<SMT_DEPTH] [] 0) (\<lambda>by_depth.
                let cur = climb H key (\<lambda>depth. case bm_get by_depth depth of
                    Some s \<Rightarrow> s | None \<Rightarrow> empties ! (SMT_DEPTH - 1 - depth)) leaf
                in Inr (cur = expected_root)))"

section \<open>Default hashes and the dense reference tree\<close>

fun empty_hash :: "(bytes \<Rightarrow> bytes) \<Rightarrow> nat \<Rightarrow> bytes" where
  "empty_hash H 0 = sha256_domain H SMT_EMPTY_LEAF []"
| "empty_hash H (Suc h) = smt_node H (empty_hash H h) (empty_hash H h)"

text \<open>The hash of the subtree of height \<open>h\<close> whose leaves are the indices from \<open>i * 2 ^ h\<close> on.\<close>

fun node_hash :: "(bytes \<Rightarrow> bytes) \<Rightarrow> (nat \<Rightarrow> bytes option) \<Rightarrow> nat \<Rightarrow> nat \<Rightarrow> bytes" where
  "node_hash H m 0 i = (case m i of Some v \<Rightarrow> v | None \<Rightarrow> empty_hash H 0)"
| "node_hash H m (Suc h) i = smt_node H (node_hash H m h (2 * i)) (node_hash H m h (2 * i + 1))"

declare empty_hash.simps [simp del] node_hash.simps(2) [simp del]

lemma empties_prefix:
  "fold (\<lambda>i out. let h = sha256_domain H SMT_NODE [out ! i, out ! i] in out @ [h]) [0..<n]
     [sha256_domain H SMT_EMPTY_LEAF []] = map (empty_hash H) [0..<Suc n]"
proof (induction n)
  case (Suc n)
  have "map (empty_hash H) [0..<Suc n] ! n = empty_hash H n"
    by (simp del: upt_Suc)
  then show ?case
    using Suc by (simp add: Let_def empty_hash.simps smt_node_def del: upt_Suc)
      (simp add: empty_hash.simps smt_node_def nth_append)
qed (simp add: empty_hash.simps)

lemma smt_empty_hashes_nth: "i \<le> 256 \<Longrightarrow> smt_empty_hashes H ! i = empty_hash H i"
  unfolding smt_empty_hashes_def empties_prefix by (simp add: SMT_DEPTH_def del: upt_Suc)

lemma node_hash_empty: "\<forall>j. i * 2 ^ h \<le> j \<and> j < (i + 1) * 2 ^ h \<longrightarrow> m j = None \<Longrightarrow> node_hash H m h i = empty_hash H h"
proof (induction h arbitrary: i)
  case (Suc h)
  have "node_hash H m h (2 * i) = empty_hash H h" "node_hash H m h (2 * i + 1) = empty_hash H h"
    by (rule Suc.IH, use Suc.prems in \<open>force simp: algebra_simps\<close>)+
  then show ?case
    by (simp add: node_hash.simps(2) empty_hash.simps)
qed simp

section \<open>Climbing from a leaf to the root\<close>

text \<open>The same climb by height and index.\<close>

fun ascend :: "(bytes \<Rightarrow> bytes) \<Rightarrow> nat \<Rightarrow> (nat \<Rightarrow> bytes) \<Rightarrow> nat \<Rightarrow> bytes \<Rightarrow> bytes" where
  "ascend H k sib 0 cur = cur"
| "ascend H k sib (Suc h) cur =
     (if even (k div 2 ^ h) then smt_node H (ascend H k sib h cur) (sib h)
      else smt_node H (sib h) (ascend H k sib h cur))"

lemma bit_of_byte_string:
  assumes "q < length key" and "r < 8"
  shows "even (be_nat key div 2 ^ (8 * (length key - 1 - q) + (7 - r))) \<longleftrightarrow>
    even (unat (key ! q) div 2 ^ (7 - r))"
proof -
  define n where "n = length key - 1 - q"
  have key: "key = take q key @ [key ! q] @ drop (Suc q) key"
    using assms by (simp add: id_take_nth_drop [symmetric])
  have len: "length (drop (Suc q) key) = n"
    using assms by (simp add: n_def)
  define A where "A = be_nat (take q key)"
  define C where "C = be_nat (drop (Suc q) key)"
  have "be_nat key = be_nat (take q key @ [key ! q]) * 256 ^ n + C"
    using key len by (metis C_def append.assoc be_nat_append)
  also have "be_nat (take q key @ [key ! q]) = A * 256 + unat (key ! q)"
    by (simp add: be_nat_append A_def be_nat_Cons)
  finally have be: "be_nat key = (A * 256 + unat (key ! q)) * 256 ^ n + C" .
  have C: "C < 256 ^ n"
    using be_nat_less [of "drop (Suc q) key"] len by (simp add: C_def)
  have "be_nat key div 2 ^ (8 * n + (7 - r)) = be_nat key div 256 ^ n div 2 ^ (7 - r)"
    by (simp add: power_add power_mult div_mult2_eq)
  also have "be_nat key div 256 ^ n = A * 256 + unat (key ! q)"
    using C by (simp add: be)
  also have "(A * 256 + unat (key ! q)) div 2 ^ (7 - r) = A * 2 ^ (r + 1) + unat (key ! q) div 2 ^ (7 - r)"
  proof -
    have "(256 :: nat) = 2 ^ (r + 1) * 2 ^ (7 - r)"
      using assms(2) by (simp add: power_add [symmetric])
    then have "A * 256 + unat (key ! q) = unat (key ! q) + A * 2 ^ (r + 1) * 2 ^ (7 - r)"
      by (simp only: mult.assoc add.commute)
    moreover have "(unat (key ! q) + A * 2 ^ (r + 1) * 2 ^ (7 - r)) div 2 ^ (7 - r) =
        A * 2 ^ (r + 1) + unat (key ! q) div 2 ^ (7 - r)"
      by (rule div_mult_self1) simp
    ultimately show ?thesis
      by (simp only: )
  qed
  finally show ?thesis
    by (simp add: n_def)
qed

lemma key_bit_even:
  assumes "length key = 32" and "d < 256"
  shows "key_bit_msb key d = 0 \<longleftrightarrow> even (be_nat key div 2 ^ (255 - d))"
proof -
  have "255 - d = 8 * (length key - 1 - d div 8) + (7 - d mod 8)"
  proof -
    define q r where "q = d div 8" and "r = d mod 8"
    have "d = 8 * q + r" "q \<le> 31" "r \<le> 7"
      using assms(2) by (simp_all add: q_def r_def)
    then show ?thesis
      unfolding q_def [symmetric] r_def [symmetric] assms(1) by simp
  qed
  then have "even (be_nat key div 2 ^ (255 - d)) \<longleftrightarrow> even (unat (key ! (d div 8)) div 2 ^ (7 - d mod 8))"
    using bit_of_byte_string [of "d div 8" key "d mod 8"] assms by simp
  moreover have "key_bit_msb key d = 0 \<longleftrightarrow> even (unat (drop_bit (7 - d mod 8) (key ! (d div 8))))"
    unfolding key_bit_msb_def and_one_eq by (simp only: word_unat_eq_iff unat_mod) (simp add: even_iff_mod_2_eq_zero)
  moreover have "unat (drop_bit (7 - d mod 8) (key ! (d div 8))) = unat (key ! (d div 8)) div 2 ^ (7 - d mod 8)"
    unfolding unat_drop_bit_eq by (simp add: drop_bit_eq_div)
  ultimately show ?thesis
    by (simp only: )
qed

lemma climb_ascend:
  assumes "length key = 32"
  shows "climb H key sib leaf = ascend H (be_nat key) (\<lambda>h. sib (255 - h)) 256 leaf"
proof -
  let ?f = "\<lambda>depth cur. if key_bit_msb key depth = 0 then smt_node H cur (sib depth)
    else smt_node H (sib depth) cur"
  have "fold ?f (rev [256 - h..<256]) leaf = ascend H (be_nat key) (\<lambda>h. sib (255 - h)) h leaf"
    if "h \<le> 256" for h
    using that
  proof (induction h)
    case (Suc h)
    have "[256 - Suc h..<256] = (255 - h) # [256 - h..<256]"
      using upt_conv_Cons [of "255 - h" 256] Suc_diff_le [of h 255] Suc.prems by simp
    then show ?case
      using Suc key_bit_even [OF assms, of "255 - h"] by simp
  qed simp
  from this [of 256] show ?thesis
    unfolding climb_def SMT_DEPTH_def by (simp only: diff_self_eq_0 le_refl)
qed

lemma sibling_index:
  "even j \<Longrightarrow> j XOR Suc 0 = Suc j" "odd j \<Longrightarrow> j XOR Suc 0 = j - Suc 0" for j :: nat
  by (simp_all add: xor_Suc_0_eq)

lemma ascend_tree:
  assumes "\<And>h. h < n \<Longrightarrow> sib h = node_hash H m h (k div 2 ^ h XOR 1)"
  shows "ascend H k sib n (node_hash H m 0 k) = node_hash H m n (k div 2 ^ n)"
  using assms
proof (induction n)
  case (Suc n)
  define j where "j = k div 2 ^ n"
  have IH: "ascend H k sib n (node_hash H m 0 k) = node_hash H m n j"
    using Suc by (simp add: j_def)
  have half: "k div 2 ^ Suc n = j div 2"
    by (simp add: j_def div_mult2_eq [symmetric] mult.commute)
  have sib: "sib n = node_hash H m n (j XOR 1)"
    using Suc.prems by (simp add: j_def)
  show ?case
  proof (cases "even j")
    case True
    then have "2 * (j div 2) = j"
      by simp
    then show ?thesis
      using True IH sib unfolding half by (simp add: node_hash.simps(2) sibling_index j_def [symmetric])
  next
    case False
    then have "2 * (j div 2) = j - 1" "2 * (j div 2) + 1 = j"
      by (simp_all add: odd_two_times_div_two_nat)
    then show ?thesis
      using False IH sib unfolding half by (simp add: node_hash.simps(2) sibling_index j_def [symmetric])
  qed
qed simp

text \<open>The strings hashed on the way from a leaf to height \<open>n\<close>, in a climb and in the reference tree.\<close>

definition ascend_inputs :: "(bytes \<Rightarrow> bytes) \<Rightarrow> nat \<Rightarrow> (nat \<Rightarrow> bytes) \<Rightarrow> nat \<Rightarrow> bytes \<Rightarrow> bytes set" where
  "ascend_inputs H k sib n cur =
     (\<lambda>h. if even (k div 2 ^ h) then SMT_NODE @ ascend H k sib h cur @ sib h
          else SMT_NODE @ sib h @ ascend H k sib h cur) ` {..<n}"

definition tree_path_inputs :: "(bytes \<Rightarrow> bytes) \<Rightarrow> (nat \<Rightarrow> bytes option) \<Rightarrow> nat \<Rightarrow> nat \<Rightarrow> bytes set" where
  "tree_path_inputs H m k n =
     (\<lambda>h. SMT_NODE @ node_hash H m h (2 * (k div 2 ^ Suc h)) @ node_hash H m h (2 * (k div 2 ^ Suc h) + 1)) ` {..<n}"

lemma smt_node_eq: "smt_node H l r = H (SMT_NODE @ l @ r)"
  by (simp add: smt_node_def sha256_domain_def)

lemma length_node_hash:
  assumes "\<forall>x. length (H x) = 32" and "\<forall>i v. m i = Some v \<longrightarrow> length v = 32"
  shows "length (node_hash H m h i) = 32"
  using assms by (cases h) (auto simp: node_hash.simps(2) empty_hash.simps smt_node_eq sha256_domain_def split: option.splits)

lemma length_ascend:
  "\<forall>x. length (H x) = 32 \<Longrightarrow> length cur = 32 \<Longrightarrow> length (ascend H k sib h cur) = 32"
  by (cases h) (auto simp: smt_node_eq)

lemma ascend_binding:
  assumes len: "\<forall>x. length (H x) = 32" "\<forall>i v. m i = Some v \<longrightarrow> length v = 32"
    and cur: "length cur = 32" and sib: "\<And>h. h < n \<Longrightarrow> length (sib h) = 32"
    and inj: "inj_on H (ascend_inputs H k sib n cur \<union> tree_path_inputs H m k n)"
    and eq: "ascend H k sib n cur = node_hash H m n (k div 2 ^ n)"
  shows "cur = node_hash H m 0 k"
  using sib inj eq
proof (induction n)
  case (Suc n)
  define j where "j = k div 2 ^ n"
  have half: "k div 2 ^ Suc n = j div 2"
    by (simp add: j_def div_mult2_eq [symmetric] mult.commute)
  let ?a = "ascend H k sib n cur"
  let ?l = "node_hash H m n (2 * (j div 2))" and ?r = "node_hash H m n (2 * (j div 2) + 1)"
  let ?x = "if even j then SMT_NODE @ ?a @ sib n else SMT_NODE @ sib n @ ?a"
  have "H ?x = H (SMT_NODE @ ?l @ ?r)"
    using Suc.prems(3) unfolding half
    by (simp add: node_hash.simps(2) smt_node_eq j_def [symmetric] split: if_splits)
  moreover have "?x \<in> ascend_inputs H k sib (Suc n) cur"
    unfolding ascend_inputs_def j_def by (rule image_eqI [where x = n]) simp_all
  moreover have "SMT_NODE @ ?l @ ?r \<in> tree_path_inputs H m k (Suc n)"
    unfolding tree_path_inputs_def by (rule image_eqI [where x = n]) (simp_all only: half lessThan_iff lessI)
  ultimately have "?x = SMT_NODE @ ?l @ ?r"
    using inj_onD [OF Suc.prems(2)] by blast
  then have "(if even j then ?a @ sib n else sib n @ ?a) = ?l @ ?r"
    by (cases "even j") (simp_all only: if_True if_False same_append_eq)
  moreover have "length ?a = 32" "length ?l = 32" "length (sib n) = 32"
    using length_ascend [OF len(1) cur] length_node_hash [OF len] Suc.prems(1) by simp_all
  ultimately have "?a = (if even j then ?l else ?r)"
    using arr_prefix [of ?a "sib n" ?l ?r 32] arr_prefix [of "sib n" ?a ?l ?r 32]
    by (cases "even j") (simp_all only: if_True if_False)
  then have "?a = node_hash H m n j"
    by (cases "even j") simp_all
  then have "ascend H k sib n cur = node_hash H m n (k div 2 ^ n)"
    by (simp only: j_def)
  moreover have "inj_on H (ascend_inputs H k sib n cur \<union> tree_path_inputs H m k n)"
    by (rule inj_on_subset [OF Suc.prems(2)]) (auto simp: ascend_inputs_def tree_path_inputs_def)
  ultimately show ?case
    using Suc.IH Suc.prems(1) by simp
qed simp

section \<open>The level-by-level root\<close>

text \<open>A node of the next level exists when one of its children does, and hashes both.\<close>

definition level_value :: "(bytes \<Rightarrow> bytes) \<Rightarrow> nat \<Rightarrow> (nat, bytes) btree_map \<Rightarrow> nat \<Rightarrow> bytes" where
  "level_value H h level i = (case bm_get level i of Some v \<Rightarrow> v | None \<Rightarrow> empty_hash H h)"

definition parent_value :: "(bytes \<Rightarrow> bytes) \<Rightarrow> nat \<Rightarrow> (nat, bytes) btree_map \<Rightarrow> nat \<Rightarrow> bytes" where
  "parent_value H h level j = smt_node H (level_value H h level (2 * j)) (level_value H h level (2 * j + 1))"

lemma same_parent: "i = k \<or> i = k XOR Suc 0 \<longleftrightarrow> i div 2 = k div 2" for i k :: nat
proof (cases "even k")
  case True
  then show ?thesis by (auto simp: sibling_index elim!: evenE)
next
  case False
  then show ?thesis by (auto simp: sibling_index elim!: oddE)
qed

lemma sparse_step_parent:
  assumes "bm_get level i = Some v"
  shows "(if i AND 1 = 1
      then smt_node H (case bm_get level (i XOR 1) of Some s \<Rightarrow> s | None \<Rightarrow> empty_hash H h) v
      else smt_node H v (case bm_get level (i XOR 1) of Some s \<Rightarrow> s | None \<Rightarrow> empty_hash H h)) =
    parent_value H h level (i div 2)"
proof (cases "even i")
  case True
  then show ?thesis
    using assms by (simp add: parent_value_def level_value_def sibling_index and_one_eq)
next
  case False
  then have "2 * (i div 2) = i - 1" "Suc (2 * (i div 2)) = i"
    by simp_all
  then show ?thesis
    using assms False by (simp add: parent_value_def level_value_def sibling_index and_one_eq odd_iff_mod_2_eq_one)
qed

lemma sparse_fold:
  assumes "distinct (map fst level)" and "set todo \<subseteq> set level"
    and "\<And>j. bm_get nxt j = (if j \<in> P then Some (parent_value H h level j) else None)"
    and "\<And>i. bm_contains_key consumed i \<longleftrightarrow> i div 2 \<in> P"
  shows "bm_get (fst (fold (sparse_step H (empty_hash H h) level) todo (nxt, consumed))) j =
    (if j \<in> P \<union> (\<lambda>e. fst e div 2) ` set todo then Some (parent_value H h level j) else None)"
  using assms
proof (induction todo arbitrary: P nxt consumed)
  case Nil
  then show ?case by simp
next
  case (Cons e todo)
  obtain i v where e: "e = (i, v)"
    by (cases e)
  show ?case
  proof (cases "i div 2 \<in> P")
    case True
    then have "sparse_step H (empty_hash H h) level e (nxt, consumed) = (nxt, consumed)"
      using Cons.prems(4) by (simp add: sparse_step_def e)
    moreover have "P \<union> (\<lambda>e. fst e div 2) ` set (e # todo) = P \<union> (\<lambda>e. fst e div 2) ` set todo"
      using True by (auto simp: e)
    ultimately show ?thesis
      using Cons.IH [of nxt P consumed] Cons.prems by simp
  next
    case False
    have "bm_get level i = Some v"
      using Cons.prems(1,2) by (simp add: e map_of_is_SomeI)
    then have step: "sparse_step H (empty_hash H h) level e (nxt, consumed) =
        (bm_insert (i div 2) (parent_value H h level (i div 2)) nxt,
         bm_insert (i XOR 1) () (bm_insert i () consumed))"
      using False by (simp only: sparse_step_def e prod.case Cons.prems(4) if_False Let_def
          sparse_step_parent drop_bit_eq_div power_one_right)
    have "bm_get (fst (fold (sparse_step H (empty_hash H h) level) todo
          (bm_insert (i div 2) (parent_value H h level (i div 2)) nxt,
           bm_insert (i XOR 1) () (bm_insert i () consumed)))) j =
        (if j \<in> insert (i div 2) P \<union> (\<lambda>e. fst e div 2) ` set todo
         then Some (parent_value H h level j) else None)"
    proof (rule Cons.IH)
      show "bm_contains_key (bm_insert (i XOR 1) () (bm_insert i () consumed)) k \<longleftrightarrow>
          k div 2 \<in> insert (i div 2) P" for k
        using Cons.prems(4) same_parent [of k i] by (auto simp: bm_contains_key_def bm_get_insert)
    qed (use Cons.prems in \<open>auto simp: bm_get_insert\<close>)
    then show ?thesis
      by (simp only: fold_Cons comp_apply step) (simp add: e)
  qed
qed

lemma sparse_level_get:
  assumes "distinct (map fst level)"
  shows "level_value H (Suc h) (sparse_level H (empty_hash H h) level) j = parent_value H h level j"
proof -
  have "bm_get (sparse_level H (empty_hash H h) level) j =
      (if j \<in> (\<lambda>e. fst e div 2) ` set level then Some (parent_value H h level j) else None)"
    unfolding sparse_level_def using sparse_fold [OF assms, of level "[]" "{}"]
    by (simp add: bm_contains_key_def)
  moreover have "parent_value H h level j = empty_hash H (Suc h)" if "j \<notin> (\<lambda>e. fst e div 2) ` set level"
  proof -
    have "bm_get level (2 * j) = None" "bm_get level (2 * j + 1) = None"
      using that by (force simp: map_of_eq_None_iff)+
    then show ?thesis
      by (simp add: parent_value_def level_value_def empty_hash.simps)
  qed
  ultimately show ?thesis
    by (simp add: level_value_def)
qed

lemma bm_wf_sparse_level: "bm_wf (sparse_level H dflt level)"
proof -
  have "bm_wf nxt \<Longrightarrow> bm_wf (fst (fold (sparse_step H dflt level) todo (nxt, consumed)))" for todo nxt consumed
  proof (induction todo arbitrary: nxt consumed)
    case (Cons e todo)
    then show ?case
      by (cases e) (simp add: sparse_step_def Let_def bm_wf_insert)
  qed simp
  then show ?thesis
    by (simp add: sparse_level_def)
qed

lemma sparse_levels:
  assumes "bm_wf level"
  shows "n \<le> 256 \<Longrightarrow>
    bm_wf (fold (\<lambda>height level. sparse_level H (smt_empty_hashes H ! height) level) [0..<n] level) \<and>
    level_value H n (fold (\<lambda>height level. sparse_level H (smt_empty_hashes H ! height) level) [0..<n] level) i =
      node_hash H (bm_get level) n i"
proof (induction n arbitrary: i)
  case 0
  then show ?case
    using assms by (simp add: level_value_def)
next
  case (Suc n)
  let ?l = "fold (\<lambda>height level. sparse_level H (smt_empty_hashes H ! height) level) [0..<n] level"
  have IH: "bm_wf ?l" "\<And>i. level_value H n ?l i = node_hash H (bm_get level) n i"
    using Suc by simp_all
  have "level_value H (Suc n) (sparse_level H (empty_hash H n) ?l) i = parent_value H n ?l i"
    by (rule sparse_level_get [OF bm_wf_distinct [OF IH(1)]])
  then show ?case
    using Suc.prems IH(2) by (simp add: smt_empty_hashes_nth bm_wf_sparse_level parent_value_def node_hash.simps(2))
qed

text \<open>The map from leaf index to value that a set of entries denotes.\<close>

definition leaf_map :: "(bytes, bytes) btree_map \<Rightarrow> nat \<Rightarrow> bytes option" where
  "leaf_map entries i = (if i < 2 ^ 256 then bm_get entries (nat_be 32 i) else None)"

definition entries_ok :: "(bytes, bytes) btree_map \<Rightarrow> bool" where
  "entries_ok entries \<longleftrightarrow> bm_wf entries \<and> list_all (\<lambda>(k, v). arr 32 k \<and> arr 32 v) entries"

lemma leaf_map_collect:
  assumes "entries_ok entries"
  shows "bm_get (bm_collect (map (\<lambda>(k, v). (be_nat k, v)) entries)) = leaf_map entries"
proof -
  have d: "distinct (map fst entries)" and len: "\<And>k. k \<in> set (map fst entries) \<Longrightarrow> length k = 32"
    using assms bm_wf_distinct by (auto simp: entries_ok_def list_all_iff)
  have inj: "inj_on be_nat (set (map fst entries))"
    by (intro inj_onI be_nat_inj) (simp_all add: len)
  have d': "distinct (map fst (map (\<lambda>(k, v). (be_nat k, v)) entries))"
    using d inj by (simp add: comp_def case_prod_unfold distinct_map inj_on_def)
  then have "bm_get (bm_collect (map (\<lambda>(k, v). (be_nat k, v)) entries)) =
      map_of (map (\<lambda>(k, v). (be_nat k, v)) entries)"
    unfolding bm_collect_def by (rule bm.lookup_collect)
  also have "\<dots> = leaf_map entries"
  proof
    fix i
    have keys: "(i, v) \<in> set (map (\<lambda>(k, v). (be_nat k, v)) entries) \<longleftrightarrow> i < 2 ^ 256 \<and> (nat_be 32 i, v) \<in> set entries"
      for v
    proof -
      have "be_nat k = i \<longleftrightarrow> i < 2 ^ 256 \<and> nat_be 32 i = k" if "(k, w) \<in> set entries" for k w
      proof -
        have "length k = 32"
          using len that by force
        then show ?thesis
          using nat_be_be_nat [of k] be_nat_nat_be [of 32 i] be_nat_less [of k] by auto
      qed
      then show ?thesis
        by force
    qed
    show "map_of (map (\<lambda>(k, v). (be_nat k, v)) entries) i = leaf_map entries i"
    proof (rule option_eqI)
      fix v
      have "map_of (map (\<lambda>(k, v). (be_nat k, v)) entries) i = Some v \<longleftrightarrow> i < 2 ^ 256 \<and> (nat_be 32 i, v) \<in> set entries"
        unfolding map_of_eq_Some_iff [OF d'] by (rule keys)
      then show "map_of (map (\<lambda>(k, v). (be_nat k, v)) entries) i = Some v \<longleftrightarrow> leaf_map entries i = Some v"
        by (simp only: leaf_map_def map_of_eq_Some_iff [OF d, symmetric]) (simp del: power_numeral)
    qed
  qed
  finally show ?thesis .
qed

lemma sparse_root_eq:
  assumes "entries_ok entries"
  shows "sparse_root H entries = node_hash H (leaf_map entries) 256 0"
proof (cases "entries = []")
  case True
  have "node_hash H (leaf_map entries) 256 0 = empty_hash H 256"
    by (rule node_hash_empty) (simp add: True leaf_map_def)
  then show ?thesis
    by (simp add: True sparse_root_def smt_empty_root_def SMT_DEPTH_def smt_empty_hashes_nth)
next
  case False
  let ?l = "bm_collect (map (\<lambda>(k, v). (be_nat k, v)) entries)"
  let ?f = "fold (\<lambda>height level. sparse_level H (smt_empty_hashes H ! height) level) [0..<256] ?l"
  have "bm_wf ?l"
    unfolding bm_collect_def by (rule bm.invar_fold_insert) simp
  then have "level_value H 256 ?f 0 = node_hash H (bm_get ?l) 256 0"
    using sparse_levels [of ?l 256 H 0] by blast
  then have "level_value H 256 ?f 0 = node_hash H (leaf_map entries) 256 0"
    by (simp only: leaf_map_collect [OF assms])
  moreover have "sparse_root H entries = level_value H 256 ?f 0"
    unfolding sparse_root_def Let_def SMT_DEPTH_def level_value_def
    using False by (simp only: smt_empty_hashes_nth le_refl if_False)
  ultimately show ?thesis
    by (simp only: )
qed

lemma sibling_range:
  fixes k h j :: nat
  assumes "(k div 2 ^ h XOR 1) * 2 ^ h \<le> j" and "j < ((k div 2 ^ h XOR 1) + 1) * 2 ^ h"
  shows "j \<noteq> k"
proof
  assume "j = k"
  then have "k div 2 ^ h = k div 2 ^ h XOR 1"
    using assms by (intro div_nat_eqI) (simp_all add: mult.commute)
  then show False
    by (cases "even (k div 2 ^ h)") (auto simp: sibling_index elim: oddE)
qed

lemma single_leaf_root_eq:
  assumes "length key = 32" and "length leaf = 32"
  shows "single_leaf_root H key leaf = node_hash H (leaf_map [(key, leaf)]) 256 0"
proof -
  let ?k = "be_nat key" and ?m = "leaf_map [(key, leaf)]"
  have k: "?k < 2 ^ 256"
    using be_nat_less [of key] assms(1) by simp
  have key: "nat_be 32 ?k = key"
    using nat_be_be_nat [of key] assms(1) by simp
  have m: "?m j = (if j = ?k then Some leaf else None)" for j
  proof (cases "j < 2 ^ 256")
    case True
    then have "nat_be 32 j = key \<longleftrightarrow> j = ?k"
      using key be_nat_nat_be [of 32 j] by auto
    then show ?thesis
      using True by (simp add: leaf_map_def)
  next
    case False
    then show ?thesis
      using k by (auto simp: leaf_map_def)
  qed
  have sib: "smt_empty_hashes H ! (SMT_DEPTH - 1 - (255 - h)) = node_hash H ?m h (?k div 2 ^ h XOR 1)"
    if "h < 256" for h
  proof -
    have "node_hash H ?m h (?k div 2 ^ h XOR 1) = empty_hash H h"
      by (rule node_hash_empty) (use sibling_range m in \<open>metis (no_types, lifting)\<close>)
    then show ?thesis
      using that by (simp add: SMT_DEPTH_def smt_empty_hashes_nth)
  qed
  have "single_leaf_root H key leaf =
      ascend H ?k (\<lambda>h. smt_empty_hashes H ! (SMT_DEPTH - 1 - (255 - h))) 256 leaf"
    unfolding single_leaf_root_def Let_def by (rule climb_ascend [OF assms(1)])
  also have "\<dots> = ascend H ?k (\<lambda>h. smt_empty_hashes H ! (SMT_DEPTH - 1 - (255 - h))) 256 (node_hash H ?m 0 ?k)"
    by (simp only: node_hash.simps(1) m if_True refl option.case)
  also have "\<dots> = node_hash H ?m 256 (?k div 2 ^ 256)"
    by (rule ascend_tree) (rule sib)
  also have "?k div 2 ^ 256 = 0"
    using k by (rule div_less)
  finally show ?thesis .
qed

section \<open>Compressed proofs\<close>

lemma bitmap_set_append:
  "d < 8 * length bm \<Longrightarrow> bitmap_set (bm @ [b]) d = bitmap_set bm d"
  by (simp add: bitmap_set_def nth_append div_less_iff_less_mult mult.commute)

lemma bitmap_set_last: "j < 8 \<Longrightarrow> bitmap_set (bm @ [b]) (8 * length bm + j) = bit b (7 - j)"
  by (simp add: bitmap_set_def nth_append bit_iff_odd_drop_bit and_one_eq odd_iff_mod_2_eq_one)

lemma count_bitmap: "length (filter (bitmap_set bm) [0..<8 * length bm]) = sum_list (map count_ones bm)"
proof (induction bm rule: rev_induct)
  case (snoc b bm)
  let ?n = "8 * length bm"
  have "[0..<8 * length (bm @ [b])] = [0..<?n + 8]"
    by (simp add: add.commute)
  also have "\<dots> = [0..<?n] @ [?n..<?n + 8]"
    by (rule upt_add_eq_append) simp
  also have "[?n..<?n + 8] = map (\<lambda>j. ?n + j) [0..<8]"
    using map_add_upt [of ?n 8] by (simp only: add.commute)
  finally have "[0..<8 * length (bm @ [b])] = [0..<?n] @ map (\<lambda>j. ?n + j) [0..<8]" .
  moreover have "filter (bitmap_set (bm @ [b])) [0..<?n] = filter (bitmap_set bm) [0..<?n]"
    by (rule filter_cong) (simp_all add: bitmap_set_append)
  moreover have "length (filter (bitmap_set (bm @ [b])) (map (\<lambda>j. ?n + j) [0..<8])) = count_ones b"
  proof -
    have "[0..<8] = [0, 1, 2, 3, 4, 5, 6, 7 :: nat]"
      by (simp add: upt_rec)
    then show ?thesis
      by (simp add: count_ones_def bitmap_set_last [of 0, simplified] bitmap_set_last [of "Suc 0", simplified]
          bitmap_set_last [of 2, simplified] bitmap_set_last)
  qed
  ultimately show ?case
    using snoc by simp
qed simp

lemma collect_siblings_range:
  "collect_siblings empties bm siblings depths by_depth cursor = Inr out \<Longrightarrow>
   cursor + length (filter (bitmap_set bm) depths) \<le> length siblings \<Longrightarrow>
   (\<And>d s. bm_get by_depth d = Some s \<Longrightarrow> s \<in> set siblings) \<Longrightarrow>
   bm_get out d = Some s \<Longrightarrow> s \<in> set siblings"
proof (induction depths arbitrary: by_depth cursor)
  case (Cons depth depths)
  show ?case
  proof (cases "bitmap_set bm depth")
    case True
    then have "siblings ! cursor \<in> set siblings"
      using Cons.prems(2) by (intro nth_mem) simp
    then have new: "s \<in> set siblings" if "bm_get (bm_insert depth (siblings ! cursor) by_depth) d = Some s" for d s
      using that Cons.prems(3) by (auto simp: bm_get_insert split: if_split_asm)
    show ?thesis
      by (rule Cons.IH [of "bm_insert depth (siblings ! cursor) by_depth" "cursor + 1"])
        (use Cons.prems True new in \<open>auto simp: Let_def\<close>)
  next
    case False
    then show ?thesis
      using Cons.IH [of by_depth cursor] Cons.prems by auto
  qed
qed simp

text \<open>The sibling a proof supplies at a height.\<close>

definition proof_sibling :: "(bytes \<Rightarrow> bytes) \<Rightarrow> CompressedSmtProofV1 \<Rightarrow> nat \<Rightarrow> bytes" where
  "proof_sibling H prf h =
     (case collect_siblings (smt_empty_hashes H) (smt_bitmap prf) (smt_nondefault_siblings prf) [0..<SMT_DEPTH] [] 0 of
        Inl e \<Rightarrow> []
      | Inr by_depth \<Rightarrow>
          (case bm_get by_depth (255 - h) of
             Some s \<Rightarrow> s | None \<Rightarrow> smt_empty_hashes H ! (SMT_DEPTH - 1 - (255 - h))))"

definition proof_ok :: "CompressedSmtProofV1 \<Rightarrow> bool" where
  "proof_ok prf \<longleftrightarrow> arr 32 (smt_bitmap prf) \<and> list_all (arr 32) (smt_nondefault_siblings prf)"

lemma length_empty_hash: "\<forall>x. length (H x) = 32 \<Longrightarrow> length (empty_hash H h) = 32"
  by (cases h) (simp_all add: empty_hash.simps smt_node_eq sha256_domain_def)

lemma verify_compressed_proof_climb:
  assumes "verify_compressed_proof H key leaf prf root = Inr True" and "length key = 32"
    and "proof_ok prf" and "\<forall>x. length (H x) = 32"
  shows "ascend H (be_nat key) (proof_sibling H prf) 256 leaf = root"
    and "h < 256 \<Longrightarrow> length (proof_sibling H prf h) = 32"
proof -
  obtain by_depth where count: "sum_list (map count_ones (smt_bitmap prf)) = length (smt_nondefault_siblings prf)"
    and by_depth: "collect_siblings (smt_empty_hashes H) (smt_bitmap prf) (smt_nondefault_siblings prf)
        [0..<SMT_DEPTH] [] 0 = Inr by_depth"
    and root: "climb H key (\<lambda>depth. case bm_get by_depth depth of Some s \<Rightarrow> s
        | None \<Rightarrow> smt_empty_hashes H ! (SMT_DEPTH - 1 - depth)) leaf = root"
    using assms(1) by (auto simp: verify_compressed_proof_def Let_def split: if_splits)
  show "ascend H (be_nat key) (proof_sibling H prf) 256 leaf = root"
    using root unfolding climb_ascend [OF assms(2)] by (simp only: proof_sibling_def [abs_def] by_depth sum.case)
  have "length (filter (bitmap_set (smt_bitmap prf)) [0..<SMT_DEPTH]) = length (smt_nondefault_siblings prf)"
    using count_bitmap [of "smt_bitmap prf"] count assms(3) by (simp add: proof_ok_def SMT_DEPTH_def)
  then have "s \<in> set (smt_nondefault_siblings prf)" if "bm_get by_depth d = Some s" for d s
    using collect_siblings_range [OF by_depth _ _ that] by simp
  then have "length s = 32" if "bm_get by_depth d = Some s" for d s
    using assms(3) that by (auto simp: proof_ok_def list_all_iff)
  then show "h < 256 \<Longrightarrow> length (proof_sibling H prf h) = 32"
    using assms(4) unfolding proof_sibling_def by_depth
    by (auto simp: SMT_DEPTH_def smt_empty_hashes_nth length_empty_hash split: option.splits)
qed

text \<open>The strings hashed while a proof is verified, and on the path of the key in the tree of the entries.\<close>

definition proof_inputs :: "(bytes \<Rightarrow> bytes) \<Rightarrow> bytes \<Rightarrow> bytes \<Rightarrow> CompressedSmtProofV1 \<Rightarrow> bytes set" where
  "proof_inputs H key leaf prf = ascend_inputs H (be_nat key) (proof_sibling H prf) 256 leaf"

definition path_inputs :: "(bytes \<Rightarrow> bytes) \<Rightarrow> (bytes, bytes) btree_map \<Rightarrow> bytes \<Rightarrow> bytes set" where
  "path_inputs H entries key = tree_path_inputs H (leaf_map entries) (be_nat key) 256"

lemma leaf_map_key:
  assumes "length key = 32"
  shows "leaf_map entries (be_nat key) = bm_get entries key"
  using be_nat_less [of key] nat_be_be_nat [of key] assms by (simp add: leaf_map_def)

lemma leaf_map_length:
  "entries_ok entries \<Longrightarrow> leaf_map entries i = Some v \<Longrightarrow> length v = 32"
  by (auto simp: entries_ok_def leaf_map_def list_all_iff dest: map_of_SomeD split: if_splits)

lemma verify_compressed_proof_sound:
  assumes "\<forall>x. length (H x) = 32" and "entries_ok entries" and "proof_ok prf"
    and "length key = 32" and "length leaf = 32"
    and "inj_on H (proof_inputs H key leaf prf \<union> path_inputs H entries key)"
    and "verify_compressed_proof H key leaf prf (sparse_root H entries) = Inr True"
  shows "leaf = (case bm_get entries key of Some v \<Rightarrow> v | None \<Rightarrow> sha256_domain H SMT_EMPTY_LEAF [])"
proof -
  let ?k = "be_nat key" and ?m = "leaf_map entries"
  have "?k < 2 ^ 256"
    using be_nat_less [of key] assms(4) by simp
  then have zero: "?k div 2 ^ 256 = 0"
    by (rule div_less)
  have eq: "ascend H ?k (proof_sibling H prf) 256 leaf = node_hash H ?m 256 (?k div 2 ^ 256)"
    using verify_compressed_proof_climb(1) [OF assms(7,4,3,1)]
    unfolding sparse_root_eq [OF assms(2)] zero .
  have vals: "\<forall>i v. ?m i = Some v \<longrightarrow> length v = 32"
    using leaf_map_length [OF assms(2)] by blast
  have "leaf = node_hash H ?m 0 ?k"
    using ascend_binding [OF assms(1) vals assms(5) verify_compressed_proof_climb(2) [OF assms(7,4,3,1)]
        assms(6) [unfolded proof_inputs_def path_inputs_def] eq] .
  then show ?thesis
    by (simp add: leaf_map_key [OF assms(4)] empty_hash.simps(1) cong: option.case_cong)
qed

section \<open>The root determines the entries\<close>

text \<open>All strings hashed in the tree of a set of entries.\<close>

definition smt_inputs :: "(bytes \<Rightarrow> bytes) \<Rightarrow> (bytes, bytes) btree_map \<Rightarrow> bytes set" where
  "smt_inputs H entries = (\<Union>k \<in> {..<2 ^ 256}. tree_path_inputs H (leaf_map entries) k 256)"

definition no_default :: "(bytes \<Rightarrow> bytes) \<Rightarrow> (bytes, bytes) btree_map \<Rightarrow> bool" where
  "no_default H entries \<longleftrightarrow> list_all (\<lambda>(k, v). v \<noteq> sha256_domain H SMT_EMPTY_LEAF []) entries"

lemma ascend_inputs_tree:
  "ascend_inputs H k (\<lambda>h. node_hash H m h (k div 2 ^ h XOR 1)) n (node_hash H m 0 k) \<subseteq> tree_path_inputs H m k n"
proof
  fix x
  assume "x \<in> ascend_inputs H k (\<lambda>h. node_hash H m h (k div 2 ^ h XOR 1)) n (node_hash H m 0 k)"
  then obtain h where h: "h < n" and x: "x = (if even (k div 2 ^ h)
      then SMT_NODE @ node_hash H m h (k div 2 ^ h) @ node_hash H m h (k div 2 ^ h XOR 1)
      else SMT_NODE @ node_hash H m h (k div 2 ^ h XOR 1) @ node_hash H m h (k div 2 ^ h))"
    by (auto simp: ascend_inputs_def ascend_tree simp del: node_hash.simps)
  have half: "k div 2 ^ Suc h = k div 2 ^ h div 2"
    by (simp add: div_mult2_eq [symmetric] mult.commute)
  have "x = SMT_NODE @ node_hash H m h (2 * (k div 2 ^ Suc h)) @ node_hash H m h (2 * (k div 2 ^ Suc h) + 1)"
    unfolding x half by (cases "even (k div 2 ^ h)") (simp_all add: sibling_index odd_two_times_div_two_nat)
  then show "x \<in> tree_path_inputs H m k n"
    using h by (auto simp: tree_path_inputs_def)
qed

lemma sparse_root_leaves:
  assumes len: "\<forall>x. length (H x) = 32" and ok: "entries_ok a" "entries_ok b"
    and inj: "inj_on H (smt_inputs H a \<union> smt_inputs H b)"
    and eq: "sparse_root H a = sparse_root H b" and k: "k < 2 ^ 256"
  shows "node_hash H (leaf_map b) 0 k = node_hash H (leaf_map a) 0 k"
proof -
  let ?sib = "\<lambda>h. node_hash H (leaf_map b) h (k div 2 ^ h XOR 1)"
  let ?cur = "node_hash H (leaf_map b) 0 k"
  have vals: "\<forall>i v. leaf_map a i = Some v \<longrightarrow> length v = 32" "\<forall>i v. leaf_map b i = Some v \<longrightarrow> length v = 32"
    using leaf_map_length ok by blast+
  have sub: "tree_path_inputs H (leaf_map e) k 256 \<subseteq> smt_inputs H e" for e
    unfolding smt_inputs_def by (rule UN_upper) (use k in \<open>simp only: lessThan_iff\<close>)
  have inj': "inj_on H (ascend_inputs H k ?sib 256 ?cur \<union> tree_path_inputs H (leaf_map a) k 256)"
    by (rule inj_on_subset [OF inj]) (use ascend_inputs_tree [of H k "leaf_map b" 256] sub [of a] sub [of b] in blast)
  have eq': "ascend H k ?sib 256 ?cur = node_hash H (leaf_map a) 256 (k div 2 ^ 256)"
  proof -
    have zero: "k div 2 ^ 256 = 0"
      using k by (rule div_less)
    have "ascend H k ?sib 256 ?cur = node_hash H (leaf_map b) 256 (k div 2 ^ 256)"
      by (rule ascend_tree) (rule refl)
    then show ?thesis
      using eq unfolding zero sparse_root_eq [OF ok(1)] sparse_root_eq [OF ok(2)] by (rule trans [OF _ sym])
  qed
  show ?thesis
    using ascend_binding [OF len vals(1) length_node_hash [OF len vals(2)] length_node_hash [OF len vals(2)] inj' eq'] .
qed

lemma sparse_root_binding:
  assumes "\<forall>x. length (H x) = 32" and ok: "entries_ok a" "entries_ok b"
    and "no_default H a" "no_default H b"
    and "inj_on H (smt_inputs H a \<union> smt_inputs H b)" and "sparse_root H a = sparse_root H b"
  shows "a = b"
proof (rule bm_ext)
  show "bm_wf a" "bm_wf b"
    using ok by (simp_all add: entries_ok_def)
  have nd: "bm_get m k \<noteq> Some (empty_hash H 0)" if "no_default H m" for m k
    using that by (auto simp: no_default_def list_all_iff empty_hash.simps dest: map_of_SomeD)
  show "bm_get a = bm_get b"
  proof
    fix key
    show "bm_get a key = bm_get b key"
    proof (cases "length key = 32")
      case True
      then have "be_nat key < 2 ^ 256"
        using be_nat_less [of key] by simp
      then have "(case bm_get b key of Some v \<Rightarrow> v | None \<Rightarrow> empty_hash H 0) =
          (case bm_get a key of Some v \<Rightarrow> v | None \<Rightarrow> empty_hash H 0)"
        using sparse_root_leaves [OF assms(1) ok assms(6,7), of "be_nat key"]
        by (simp add: leaf_map_key [OF True] cong: option.case_cong)
      then show ?thesis
        using nd [OF assms(4), of key] nd [OF assms(5), of key] by (auto split: option.splits)
    next
      case False
      have "bm_get m key = None" if "entries_ok m" for m
        using that False by (auto simp: entries_ok_def list_all_iff map_of_eq_None_iff)
      then show ?thesis
        using ok by simp
    qed
  qed
qed

section \<open>An empty tree\<close>

text \<open>A hash that counts: it adds one to the number that the last 32 bytes denote.\<close>

definition counting_hash :: "bytes \<Rightarrow> bytes" where
  "counting_hash x = nat_be 32 (be_nat (drop (length x - 32) x) + 1)"

definition empty_proof :: CompressedSmtProofV1 where
  "empty_proof = \<lparr>smt_bitmap = replicate 32 0, smt_nondefault_siblings = []\<rparr>"

lemma length_counting_hash: "\<forall>x. length (counting_hash x) = 32"
  by (simp add: counting_hash_def)

lemma counting_hash_inj: "inj_on counting_hash ((\<lambda>e. SMT_NODE @ e @ e) ` {e. length e = 32})"
proof (rule inj_onI)
  fix x y :: bytes
  assume "x \<in> (\<lambda>e. SMT_NODE @ e @ e) ` {e. length e = 32}" and "y \<in> (\<lambda>e. SMT_NODE @ e @ e) ` {e. length e = 32}"
    and xy: "counting_hash x = counting_hash y"
  then obtain a b where x: "x = SMT_NODE @ a @ a" and y: "y = SMT_NODE @ b @ b"
    and len: "length a = 32" "length b = 32"
    by blast
  have eq: "counting_hash (SMT_NODE @ a @ a) = counting_hash (SMT_NODE @ b @ b)"
    using xy unfolding x y .
  have "be_nat (nat_be 32 (be_nat a + 1)) = be_nat (nat_be 32 (be_nat b + 1))"
    using arg_cong [OF eq, of be_nat] len by (simp add: counting_hash_def)
  then have "(be_nat a + 1) mod 2 ^ 256 = (be_nat b + 1) mod 2 ^ 256"
    by simp
  moreover have "be_nat a < 2 ^ 256" "be_nat b < 2 ^ 256"
    using be_nat_less [of a] be_nat_less [of b] len by simp_all
  ultimately have "be_nat a = be_nat b"
    by (simp add: mod_Suc split: if_splits)
  then show "x = y"
    using be_nat_inj [of a b] len by (simp add: x y)
qed

lemma empty_proof_collect: "collect_siblings es (replicate 32 0) sibs [0..<SMT_DEPTH] [] 0 = Inr []"
proof -
  have unset: "\<not> bitmap_set (replicate 32 0) d" if "d < 256" for d
    using that by (simp add: bitmap_set_def div_less_iff_less_mult)
  have "list_all (\<lambda>d. d < 256) ds \<Longrightarrow> collect_siblings es (replicate 32 0) sibs ds [] 0 = Inr []" for ds
    by (induction ds) (simp_all add: unset)
  then show ?thesis
    by (simp add: SMT_DEPTH_def list_all_iff)
qed

lemma empty_proof_sibling: "h < 256 \<Longrightarrow> proof_sibling H empty_proof h = empty_hash H h"
  by (simp add: proof_sibling_def empty_proof_def empty_proof_collect) (simp add: SMT_DEPTH_def smt_empty_hashes_nth)

lemma ascend_empty:
  "(\<And>h. h < n \<Longrightarrow> sib h = empty_hash H h) \<Longrightarrow> ascend H k sib n (empty_hash H 0) = empty_hash H n"
  by (induction n) (simp_all add: empty_hash.simps)

lemma empty_proof_verifies:
  assumes "length key = 32"
  shows "verify_compressed_proof H key (empty_hash H 0) empty_proof (sparse_root H []) = Inr True"
proof -
  have "climb H key (\<lambda>depth. smt_empty_hashes H ! (SMT_DEPTH - 1 - depth)) (empty_hash H 0) = empty_hash H 256"
    unfolding climb_ascend [OF assms] by (rule ascend_empty) (simp add: SMT_DEPTH_def smt_empty_hashes_nth)
  moreover have "sparse_root H [] = empty_hash H 256"
    by (simp add: sparse_root_def smt_empty_root_def SMT_DEPTH_def smt_empty_hashes_nth)
  moreover have "count_ones 0 = 0"
    by (simp add: count_ones_def)
  ultimately show ?thesis
    by (simp add: verify_compressed_proof_def empty_proof_def empty_proof_collect Let_def sum_list_replicate)
qed

lemma empty_proof_inputs:
  assumes "length key = 32" and "\<forall>x. length (H x) = 32"
  shows "proof_inputs H key (empty_hash H 0) empty_proof \<union> path_inputs H [] key \<subseteq>
    (\<lambda>e. SMT_NODE @ e @ e) ` {e. length e = 32}"
proof -
  have a: "ascend H k (proof_sibling H empty_proof) h (empty_hash H 0) = empty_hash H h" if "h < 256" for h k
    by (rule ascend_empty) (use that in \<open>simp add: empty_proof_sibling\<close>)
  have t: "node_hash H (leaf_map []) h i = empty_hash H h" for h i
    by (rule node_hash_empty) (simp add: leaf_map_def)
  have "proof_inputs H key (empty_hash H 0) empty_proof \<subseteq> (\<lambda>h. SMT_NODE @ empty_hash H h @ empty_hash H h) ` {..<256}"
    unfolding proof_inputs_def ascend_inputs_def by (auto simp: a empty_proof_sibling)
  moreover have "path_inputs H [] key \<subseteq> (\<lambda>h. SMT_NODE @ empty_hash H h @ empty_hash H h) ` {..<256}"
    unfolding path_inputs_def tree_path_inputs_def by (auto simp: t)
  moreover have "(\<lambda>h. SMT_NODE @ empty_hash H h @ empty_hash H h) ` {..<256} \<subseteq> (\<lambda>e. SMT_NODE @ e @ e) ` {e. length e = 32}"
    using length_empty_hash [OF assms(2)] by auto
  ultimately show ?thesis
    by blast
qed

section \<open>Properties\<close>

text \<open>C7. The level-by-level sparse root, which visits only the occupied nodes, equals the root of the full
  binary tree of depth 256 over the entries, with default leaves elsewhere; no entries give the
  default root.\<close>

theorem sparse_root_is_tree_root:
  assumes "entries_ok entries"
  shows "sparse_root H entries = node_hash H (leaf_map entries) 256 0"
  using assms by (rule sparse_root_eq)

theorem sparse_root_is_tree_root_witness:
  "sparse_root counting_hash [(replicate 32 1, replicate 32 7), (replicate 32 2, replicate 32 9)] =
   node_hash counting_hash (leaf_map [(replicate 32 1, replicate 32 7), (replicate 32 2, replicate 32 9)]) 256 0"
  by (rule sparse_root_is_tree_root) (simp add: entries_ok_def bm_wf_def eval_nat_numeral)

text \<open>The single-leaf root routine agrees with the general one on one entry.\<close>

theorem single_leaf_root_agrees:
  assumes "length key = 32" and "length leaf = 32"
  shows "single_leaf_root H key leaf = sparse_root H [(key, leaf)]"
proof -
  have "entries_ok [(key, leaf)]"
    using assms by (simp add: entries_ok_def bm_wf_def)
  then show ?thesis
    using single_leaf_root_eq [OF assms] sparse_root_eq by simp
qed

theorem single_leaf_root_agrees_witness:
  "single_leaf_root counting_hash (replicate 32 3) (replicate 32 5) =
   sparse_root counting_hash [(replicate 32 3, replicate 32 5)]"
  by (rule single_leaf_root_agrees) simp_all

text \<open>C8. Compressed proofs are sound: a proof accepted against the root of a set of entries shows the
  value they have at the key, or the default leaf when they have none, unless SHA-256 collides on
  the strings hashed along the path.\<close>

theorem compressed_proof_sound:
  assumes "\<forall>x. length (H x) = 32" and "entries_ok entries" and "proof_ok prf"
    and "length key = 32" and "length leaf = 32"
    and "inj_on H (proof_inputs H key leaf prf \<union> path_inputs H entries key)"
    and "verify_compressed_proof H key leaf prf (sparse_root H entries) = Inr True"
  shows "leaf = (case bm_get entries key of Some v \<Rightarrow> v | None \<Rightarrow> sha256_domain H SMT_EMPTY_LEAF [])"
  using assms by (rule verify_compressed_proof_sound)

theorem compressed_proof_sound_witness:
  "verify_compressed_proof counting_hash (replicate 32 6) (empty_hash counting_hash 0) empty_proof
     (sparse_root counting_hash []) = Inr True \<and>
   empty_hash counting_hash 0 = sha256_domain counting_hash SMT_EMPTY_LEAF []"
proof -
  have len: "length (replicate 32 (6 :: u8)) = 32"
    by simp
  have v: "verify_compressed_proof counting_hash (replicate 32 6) (empty_hash counting_hash 0) empty_proof
      (sparse_root counting_hash []) = Inr True"
    by (rule empty_proof_verifies [OF len])
  have inj: "inj_on counting_hash (proof_inputs counting_hash (replicate 32 6) (empty_hash counting_hash 0) empty_proof
      \<union> path_inputs counting_hash [] (replicate 32 6))"
    by (rule inj_on_subset [OF counting_hash_inj empty_proof_inputs [OF len length_counting_hash]])
  have "entries_ok []" and "proof_ok empty_proof"
    by (simp_all add: entries_ok_def proof_ok_def empty_proof_def)
  from compressed_proof_sound [OF length_counting_hash this len length_empty_hash [OF length_counting_hash] inj v] v
  show ?thesis
    by simp
qed



end
