(* ===== verification/State.thy ===== *)
theory State
  imports Smt
begin

text \<open>
  The authenticated state objects (crates/mutiny-state/src/lib.rs): canonical encodings of unspent
  outputs, licence records, mining presence, treasury, dividend accounts, consensus metadata and
  Bitcoin header state, their keys and leaves, and the state root over the component roots. The
  theory shows that a licence record has a 141-byte encoding exactly when it is valid, that leaves
  and keys determine the objects they stand for, that a sparse root determines the entries, and that
  the state root determines the five component roots.
\<close>

section \<open>Model\<close>

definition LICENSE_RECORD_V1_LEN :: nat where "LICENSE_RECORD_V1_LEN = 141"

definition LICENSE_STATUS_PENDING :: u8 where "LICENSE_STATUS_PENDING = 0x00"
definition LICENSE_STATUS_ACTIVE :: u8 where "LICENSE_STATUS_ACTIVE = 0x01"
definition LICENSE_STATUS_REVOKED :: u8 where "LICENSE_STATUS_REVOKED = 0x02"

definition PURCHASE_METHOD_BTC :: u8 where "PURCHASE_METHOD_BTC = 0x01"
definition PURCHASE_METHOD_MUT :: u8 where "PURCHASE_METHOD_MUT = 0x02"

definition PS_CONSUMED_EVIDENCE :: u16 where "PS_CONSUMED_EVIDENCE = 0x0001"
definition PS_OFFENSE_EVENT :: u16 where "PS_OFFENSE_EVENT = 0x0002"
definition PS_HISTORICAL_LICENSE_KEY :: u16 where "PS_HISTORICAL_LICENSE_KEY = 0x0003"
definition PS_DIVIDEND_ACCOUNT :: u16 where "PS_DIVIDEND_ACCOUNT = 0x0004"
definition PS_TREASURY_STATE :: u16 where "PS_TREASURY_STATE = 0x0005"
definition PS_CONSUMED_NATIVE_PAYMENT :: u16 where "PS_CONSUMED_NATIVE_PAYMENT = 0x0006"
definition PS_DIFFICULTY_HISTORY :: u16 where "PS_DIFFICULTY_HISTORY = 0x0007"
definition PS_MINING_PRESENCE_STATE :: u16 where "PS_MINING_PRESENCE_STATE = 0x0008"
definition PS_BITCOIN_HEADER :: u16 where "PS_BITCOIN_HEADER = 0x0009"
definition PS_BITCOIN_BEST_CHAIN :: u16 where "PS_BITCOIN_BEST_CHAIN = 0x000A"

definition utxo_key :: "(bytes \<Rightarrow> bytes) \<Rightarrow> bytes \<Rightarrow> u16 \<Rightarrow> bytes" where
  "utxo_key H txid output_index = sha256_domain H UTXO_KEY [txid, to_be_bytes output_index]"

record UtxoValueV1 =
  utxo_amount_strikes :: u64
  utxo_output_type :: u8
  utxo_payload :: bytes
  utxo_creation_epoch :: u64
  utxo_creation_height :: u64
  utxo_coinbase :: bool

definition UtxoValueV1_encode :: "UtxoValueV1 \<Rightarrow> bytes" where
  "UtxoValueV1_encode s =
     (let out = write_u64_be [] (utxo_amount_strikes s);
          out = write_u8 out (utxo_output_type s);
          out = write_varuint out (of_nat (length (utxo_payload s)));
          out = out @ utxo_payload s;
          out = write_u64_be out (utxo_creation_epoch s);
          out = write_u64_be out (utxo_creation_height s)
      in write_u8 out (of_bool (utxo_coinbase s)))"

definition utxo_leaf :: "(bytes \<Rightarrow> bytes) \<Rightarrow> bytes \<Rightarrow> UtxoValueV1 \<Rightarrow> bytes" where
  "utxo_leaf H key v = (let encoded = UtxoValueV1_encode v in sha256_domain H UTXO_LEAF [key, encoded])"

record LicenseRecordV1 =
  lic_version :: u16
  lic_status :: u8
  lic_purchase_method :: u8
  lic_purchase_id :: bytes
  lic_owner_public_key :: bytes
  lic_owner_key_sequence :: u32
  lic_mining_public_key :: bytes
  lic_mining_key_sequence :: u32
  lic_issued_epoch :: u64
  lic_activation_epoch :: u64
  lic_strike_weight :: u8
  lic_suspended_until_epoch :: u64
  lic_revocation_epoch :: u64

definition LicenseRecordV1_validate :: "LicenseRecordV1 \<Rightarrow> StateError + unit" where
  "LicenseRecordV1_validate s =
     (if lic_version s \<noteq> 1
         \<or> \<not> (lic_status s = LICENSE_STATUS_PENDING \<or> lic_status s = LICENSE_STATUS_ACTIVE \<or>
               lic_status s = LICENSE_STATUS_REVOKED)
         \<or> \<not> (lic_purchase_method s = PURCHASE_METHOD_BTC \<or> lic_purchase_method s = PURCHASE_METHOD_MUT)
         \<or> lic_strike_weight s > 16
      then Inl InvalidLicenseRecord else Inr ())"

definition LicenseRecordV1_encode :: "LicenseRecordV1 \<Rightarrow> StateError + bytes" where
  "LicenseRecordV1_encode s =
     rbind (LicenseRecordV1_validate s) (\<lambda>_.
       let out = write_u16_be [] (lic_version s);
           out = write_u8 out (lic_status s);
           out = write_u8 out (lic_purchase_method s);
           out = out @ lic_purchase_id s;
           out = out @ lic_owner_public_key s;
           out = write_u32_be out (lic_owner_key_sequence s);
           out = out @ lic_mining_public_key s;
           out = write_u32_be out (lic_mining_key_sequence s);
           out = write_u64_be out (lic_issued_epoch s);
           out = write_u64_be out (lic_activation_epoch s);
           out = write_u8 out (lic_strike_weight s);
           out = write_u64_be out (lic_suspended_until_epoch s)
       in Inr (write_u64_be out (lic_revocation_epoch s)))"

definition license_leaf :: "(bytes \<Rightarrow> bytes) \<Rightarrow> bytes \<Rightarrow> LicenseRecordV1 \<Rightarrow> StateError + bytes" where
  "license_leaf H license_id record =
     rbind (LicenseRecordV1_encode record) (\<lambda>encoded.
       Inr (sha256_domain H LICENSE_LEAF [license_id, encoded]))"

definition external_payment_leaf :: "(bytes \<Rightarrow> bytes) \<Rightarrow> bytes \<Rightarrow> bytes \<Rightarrow> bytes" where
  "external_payment_leaf H payment_id canonical_value =
     sha256_domain H EXTERNAL_PAYMENT_LEAF [payment_id, canonical_value]"

definition protocol_state_key :: "(bytes \<Rightarrow> bytes) \<Rightarrow> u16 \<Rightarrow> bytes \<Rightarrow> bytes" where
  "protocol_state_key H object_type object_id =
     (let t = to_be_bytes object_type in sha256_domain H PROTOCOL_STATE_KEY [t, object_id])"

definition protocol_state_leaf :: "(bytes \<Rightarrow> bytes) \<Rightarrow> bytes \<Rightarrow> bytes \<Rightarrow> bytes" where
  "protocol_state_leaf H key canonical_value = sha256_domain H PROTOCOL_STATE_LEAF [key, canonical_value]"

record MiningPresenceStateV1 =
  mps_version :: u16
  mps_mining_key_sequence :: u32
  mps_last_presence_epoch :: u64
  mps_last_presence_operation_id :: bytes

definition MiningPresenceStateV1_validate :: "MiningPresenceStateV1 \<Rightarrow> StateError + unit" where
  "MiningPresenceStateV1_validate s =
     (if mps_version s \<noteq> 1 then Inl InvalidMiningPresenceState else Inr ())"

definition MiningPresenceStateV1_encode :: "MiningPresenceStateV1 \<Rightarrow> StateError + bytes" where
  "MiningPresenceStateV1_encode s =
     rbind (MiningPresenceStateV1_validate s) (\<lambda>_.
       Inr (to_be_bytes (mps_version s) @ to_be_bytes (mps_mining_key_sequence s) @
            to_be_bytes (mps_last_presence_epoch s) @ mps_last_presence_operation_id s))"

record TreasuryStateV1 =
  tre_available_strikes :: u64
  tre_reserved_dividend_strikes :: u64

definition TreasuryStateV1_encode :: "TreasuryStateV1 \<Rightarrow> bytes" where
  "TreasuryStateV1_encode s =
     to_be_bytes (tre_available_strikes s) @ to_be_bytes (tre_reserved_dividend_strikes s)"

record LicenseDividendAccountV1 =
  div_license_id :: bytes
  div_award_epoch :: u64
  div_claim_deadline_epoch :: u64
  div_claimable_strikes :: u64

definition LicenseDividendAccountV1_encode :: "LicenseDividendAccountV1 \<Rightarrow> bytes" where
  "LicenseDividendAccountV1_encode s =
     div_license_id s @ to_be_bytes (div_award_epoch s) @ to_be_bytes (div_claim_deadline_epoch s) @
     to_be_bytes (div_claimable_strikes s)"

record ConsensusMetaV1 =
  meta_block_height :: u64
  meta_eligible_license_count :: u64
  meta_total_licenses_issued :: u64
  meta_difficulty_correction_q32 :: u64
  meta_base_fee_rate_q32 :: u64
  meta_total_issued_strikes :: u64

definition ConsensusMetaV1_encode :: "ConsensusMetaV1 \<Rightarrow> bytes" where
  "ConsensusMetaV1_encode s =
     concat (map to_be_bytes
       [meta_block_height s, meta_eligible_license_count s, meta_total_licenses_issued s,
        meta_difficulty_correction_q32 s, meta_base_fee_rate_q32 s, meta_total_issued_strikes s])"

definition ConsensusMetaV1_root :: "(bytes \<Rightarrow> bytes) \<Rightarrow> ConsensusMetaV1 \<Rightarrow> bytes" where
  "ConsensusMetaV1_root H s = (let encoded = ConsensusMetaV1_encode s in sha256_domain H META_ROOT [encoded])"

definition state_root :: "(bytes \<Rightarrow> bytes) \<Rightarrow> bytes \<Rightarrow> bytes \<Rightarrow> bytes \<Rightarrow> bytes \<Rightarrow> bytes \<Rightarrow> bytes" where
  "state_root H utxo_root license_root external_payment_root protocol_state_root meta_root =
     sha256_domain H STATE_ROOT
       [utxo_root, license_root, external_payment_root, protocol_state_root, meta_root]"

record BitcoinHeaderStateV1 =
  bhs_version :: u16
  bhs_height :: u32
  bhs_raw_header :: bytes
  bhs_relative_chainwork :: bytes

definition BitcoinHeaderStateV1_validate :: "BitcoinHeaderStateV1 \<Rightarrow> bool" where
  "BitcoinHeaderStateV1_validate s = (bhs_version s = 1)"

definition BitcoinHeaderStateV1_encode :: "BitcoinHeaderStateV1 \<Rightarrow> bytes" where
  "BitcoinHeaderStateV1_encode s =
     to_be_bytes (bhs_version s) @ to_be_bytes (bhs_height s) @ bhs_raw_header s @ bhs_relative_chainwork s"

record BitcoinBestChainStateV1 =
  bbc_version :: u16
  bbc_best_tip_hash_internal :: bytes
  bbc_best_tip_height :: u32
  bbc_best_tip_relative_chainwork :: bytes

definition BitcoinBestChainStateV1_validate :: "BitcoinBestChainStateV1 \<Rightarrow> bool" where
  "BitcoinBestChainStateV1_validate s = (bbc_version s = 1)"

definition BitcoinBestChainStateV1_encode :: "BitcoinBestChainStateV1 \<Rightarrow> bytes" where
  "BitcoinBestChainStateV1_encode s =
     to_be_bytes (bbc_version s) @ bbc_best_tip_hash_internal s @ to_be_bytes (bbc_best_tip_height s) @
     bbc_best_tip_relative_chainwork s"

definition bitcoin_header_protocol_state_root ::
    "(bytes \<Rightarrow> bytes) \<Rightarrow> (bytes \<times> BitcoinHeaderStateV1) list \<Rightarrow> BitcoinBestChainStateV1 option \<Rightarrow> bytes" where
  "bitcoin_header_protocol_state_root H headers best_chain =
     (let entries = fold (\<lambda>(block_hash_internal, state) entries.
            let key = protocol_state_key H PS_BITCOIN_HEADER block_hash_internal;
                leaf = protocol_state_leaf H key (BitcoinHeaderStateV1_encode state)
            in bm_insert key leaf entries) headers [];
          entries = (case best_chain of
            None \<Rightarrow> entries
          | Some best \<Rightarrow>
              let key = protocol_state_key H PS_BITCOIN_BEST_CHAIN (replicate 32 0);
                  leaf = protocol_state_leaf H key (BitcoinBestChainStateV1_encode best)
              in bm_insert key leaf entries)
      in sparse_root H entries)"

section \<open>Encodings\<close>

definition wf_license :: "LicenseRecordV1 \<Rightarrow> bool" where
  "wf_license r \<longleftrightarrow>
     arr 32 (lic_purchase_id r) \<and> arr 32 (lic_owner_public_key r) \<and> arr 32 (lic_mining_public_key r)"

definition license_bytes :: "LicenseRecordV1 \<Rightarrow> bytes" where
  "license_bytes s =
     to_be_bytes (lic_version s) @ [lic_status s, lic_purchase_method s] @ lic_purchase_id s @
     lic_owner_public_key s @ to_be_bytes (lic_owner_key_sequence s) @ lic_mining_public_key s @
     to_be_bytes (lic_mining_key_sequence s) @ to_be_bytes (lic_issued_epoch s) @
     to_be_bytes (lic_activation_epoch s) @ [lic_strike_weight s] @
     to_be_bytes (lic_suspended_until_epoch s) @ to_be_bytes (lic_revocation_epoch s)"

lemma LicenseRecordV1_encode_iff:
  "LicenseRecordV1_encode r = Inr bs \<longleftrightarrow> LicenseRecordV1_validate r = Inr () \<and> bs = license_bytes r"
  by (auto simp: LicenseRecordV1_encode_def license_bytes_def Let_def)

lemma length_license_bytes: "wf_license r \<Longrightarrow> length (license_bytes r) = 141"
  by (simp add: license_bytes_def wf_license_def)

lemma license_bytes_inj:
  "wf_license r \<Longrightarrow> wf_license s \<Longrightarrow> license_bytes r = license_bytes s \<longleftrightarrow> r = s"
  by (cases r; cases s) (auto simp: license_bytes_def wf_license_def)

definition wf_utxo :: "UtxoValueV1 \<Rightarrow> bool" where
  "wf_utxo u \<longleftrightarrow> len64 (utxo_payload u)"

lemma UtxoValueV1_encode_eq:
  "UtxoValueV1_encode u =
     to_be_bytes (utxo_amount_strikes u) @ utxo_output_type u # encode_varuint (of_nat (length (utxo_payload u))) @
     utxo_payload u @ to_be_bytes (utxo_creation_epoch u) @ to_be_bytes (utxo_creation_height u) @
     [of_bool (utxo_coinbase u)]"
  by (simp add: UtxoValueV1_encode_def Let_def wire_simps)

lemma counted_inj:
  assumes "len64 p" and "len64 q"
    and "encode_varuint (of_nat (length p)) @ p @ a = encode_varuint (of_nat (length q)) @ q @ b"
  shows "p = q \<and> a = b"
proof -
  have *: "(of_nat (length p) :: u64) = of_nat (length q) \<and> p @ a = q @ b"
    by (rule varuint.enc_prefix_free [OF TrueI TrueI assms(3)])
  then have "length p = length q"
    using unat_of_length [OF assms(1)] unat_of_length [OF assms(2)] by metis
  then show ?thesis
    using arr_prefix [OF * [THEN conjunct2] _ refl] by simp
qed

lemma UtxoValueV1_encode_inj:
  assumes "wf_utxo u" and "wf_utxo v" and "UtxoValueV1_encode u = UtxoValueV1_encode v"
  shows "u = v"
proof -
  have *: "utxo_amount_strikes u = utxo_amount_strikes v \<and> utxo_output_type u = utxo_output_type v \<and>
      encode_varuint (of_nat (length (utxo_payload u))) @ utxo_payload u @ to_be_bytes (utxo_creation_epoch u) @
        to_be_bytes (utxo_creation_height u) @ [of_bool (utxo_coinbase u)] =
      encode_varuint (of_nat (length (utxo_payload v))) @ utxo_payload v @ to_be_bytes (utxo_creation_epoch v) @
        to_be_bytes (utxo_creation_height v) @ [of_bool (utxo_coinbase v) :: u8]"
    using u64_codec.enc_prefix_free [OF TrueI TrueI assms(3) [unfolded UtxoValueV1_encode_eq]] by blast
  have "utxo_payload u = utxo_payload v \<and>
      to_be_bytes (utxo_creation_epoch u) @ to_be_bytes (utxo_creation_height u) @ [of_bool (utxo_coinbase u)] =
      to_be_bytes (utxo_creation_epoch v) @ to_be_bytes (utxo_creation_height v) @ [of_bool (utxo_coinbase v) :: u8]"
    using assms(1,2) * unfolding wf_utxo_def by (intro counted_inj) blast+
  then show ?thesis
    using * by (cases u; cases v) (auto simp: of_bool_eq_iff)
qed

lemma ConsensusMetaV1_encode_inj: "ConsensusMetaV1_encode a = ConsensusMetaV1_encode b \<longleftrightarrow> a = b"
  by (cases a; cases b) (auto simp: ConsensusMetaV1_encode_def)

lemma MiningPresenceStateV1_encode_iff:
  "MiningPresenceStateV1_encode s = Inr bs \<longleftrightarrow>
     mps_version s = 1 \<and> bs = to_be_bytes (mps_version s) @ to_be_bytes (mps_mining_key_sequence s) @
       to_be_bytes (mps_last_presence_epoch s) @ mps_last_presence_operation_id s"
  by (auto simp: MiningPresenceStateV1_encode_def MiningPresenceStateV1_validate_def)

section \<open>Keys, leaves and roots\<close>

lemma license_leaf_inj:
  assumes "license_leaf H i r = Inr h" and "license_leaf H j s = Inr h"
    and "length i = 32" and "length j = 32" and "wf_license r" and "wf_license s"
    and "inj_on H {LICENSE_LEAF @ i @ license_bytes r, LICENSE_LEAF @ j @ license_bytes s}"
  shows "i = j \<and> r = s"
proof -
  have "sha256_domain H LICENSE_LEAF [i, license_bytes r] = sha256_domain H LICENSE_LEAF [j, license_bytes s]"
    using assms(1,2) by (auto simp: license_leaf_def LicenseRecordV1_encode_iff)
  then have "concat [i, license_bytes r] = concat [j, license_bytes s]"
    by (rule sha256_domain_inj) (use assms(7) in \<open>simp only: concat.simps append_Nil2\<close>)
  then have "i @ license_bytes r = j @ license_bytes s"
    by (simp only: concat.simps append_Nil2)
  then have "i = j \<and> license_bytes r = license_bytes s"
    using assms(3,4) by (rule arr_prefix)
  then show ?thesis
    using license_bytes_inj [OF assms(5,6)] by simp
qed

lemma utxo_leaf_inj:
  assumes "utxo_leaf H k u = utxo_leaf H l v"
    and "length k = 32" and "length l = 32" and "wf_utxo u" and "wf_utxo v"
    and "inj_on H {UTXO_LEAF @ k @ UtxoValueV1_encode u, UTXO_LEAF @ l @ UtxoValueV1_encode v}"
  shows "k = l \<and> u = v"
proof -
  have "concat [k, UtxoValueV1_encode u] = concat [l, UtxoValueV1_encode v]"
    using assms(1) unfolding utxo_leaf_def Let_def
    by (rule sha256_domain_inj) (use assms(6) in \<open>simp only: concat.simps append_Nil2\<close>)
  then have "k @ UtxoValueV1_encode u = l @ UtxoValueV1_encode v"
    by (simp only: concat.simps append_Nil2)
  then have "k = l \<and> UtxoValueV1_encode u = UtxoValueV1_encode v"
    using assms(2,3) by (rule arr_prefix)
  then show ?thesis
    using UtxoValueV1_encode_inj assms(4,5) by blast
qed

lemma state_root_inj:
  assumes "list_all (arr 32) [u, l, e, p, m, u', l', e', p', m']"
    and "inj_on H {STATE_ROOT @ u @ l @ e @ p @ m, STATE_ROOT @ u' @ l' @ e' @ p' @ m'}"
    and "state_root H u l e p m = state_root H u' l' e' p' m'"
  shows "u = u' \<and> l = l' \<and> e = e' \<and> p = p' \<and> m = m'"
proof -
  have "concat [u, l, e, p, m] = concat [u', l', e', p', m']"
    using assms(3) unfolding state_root_def
    by (rule sha256_domain_inj) (use assms(2) in \<open>simp only: concat.simps append_Nil2\<close>)
  then have "u @ l @ e @ p @ m = u' @ l' @ e' @ p' @ m'"
    by (simp only: concat.simps append_Nil2)
  then show ?thesis
    using assms(1) by simp
qed

section \<open>Properties\<close>

text \<open>C23. The state root commits to its five components: the roots of unspent outputs, licences, external
  payments and protocol state, and the consensus metadata, unless SHA-256 collides on the strings
  hashed.\<close>

theorem state_root_commits:
  assumes "list_all (arr 32) [u, l, e, p, u', l', e', p']" and "\<forall>x. length (H x) = 32"
    and "inj_on H {STATE_ROOT @ u @ l @ e @ p @ ConsensusMetaV1_root H m,
                   STATE_ROOT @ u' @ l' @ e' @ p' @ ConsensusMetaV1_root H m'}"
    and "inj_on H {META_ROOT @ ConsensusMetaV1_encode m, META_ROOT @ ConsensusMetaV1_encode m'}"
    and "state_root H u l e p (ConsensusMetaV1_root H m) = state_root H u' l' e' p' (ConsensusMetaV1_root H m')"
  shows "u = u' \<and> l = l' \<and> e = e' \<and> p = p' \<and> m = m'"
proof -
  have "length (ConsensusMetaV1_root H m) = 32" "length (ConsensusMetaV1_root H m') = 32"
    using assms(2) by (simp_all add: ConsensusMetaV1_root_def sha256_domain_def)
  then have *: "u = u' \<and> l = l' \<and> e = e' \<and> p = p' \<and> ConsensusMetaV1_root H m = ConsensusMetaV1_root H m'"
    using assms(1) by (intro state_root_inj [OF _ assms(3,5)]) simp
  then have "ConsensusMetaV1_encode m = ConsensusMetaV1_encode m'"
    unfolding ConsensusMetaV1_root_def Let_def by (elim conjE) (rule sha256_domain_inj1 [OF _ assms(4)])
  then show ?thesis
    using * ConsensusMetaV1_encode_inj by blast
qed

definition sample_meta :: "u64 \<Rightarrow> ConsensusMetaV1" where
  "sample_meta h = \<lparr>meta_block_height = h, meta_eligible_license_count = 1, meta_total_licenses_issued = 1,
     meta_difficulty_correction_q32 = 1, meta_base_fee_rate_q32 = 1, meta_total_issued_strikes = h\<rparr>"

theorem state_root_commits_witness:
  "state_root tail_hash (replicate 32 1) (replicate 32 2) (replicate 32 3) (replicate 32 4)
     (ConsensusMetaV1_root tail_hash (sample_meta 1)) \<noteq>
   state_root tail_hash (replicate 32 1) (replicate 32 2) (replicate 32 3) (replicate 32 4)
     (ConsensusMetaV1_root tail_hash (sample_meta 2))"
proof
  let ?r = "\<lambda>k. replicate 32 (k :: u8)" and ?m = "\<lambda>h. ConsensusMetaV1_root tail_hash (sample_meta h)"
  assume eq: "state_root tail_hash (?r 1) (?r 2) (?r 3) (?r 4) (?m 1) = state_root tail_hash (?r 1) (?r 2) (?r 3) (?r 4) (?m 2)"
  have inj: "inj_on tail_hash {STATE_ROOT @ ?r 1 @ ?r 2 @ ?r 3 @ ?r 4 @ ?m 1, STATE_ROOT @ ?r 1 @ ?r 2 @ ?r 3 @ ?r 4 @ ?m 2}"
    and meta: "inj_on tail_hash {META_ROOT @ ConsensusMetaV1_encode (sample_meta 1), META_ROOT @ ConsensusMetaV1_encode (sample_meta 2)}"
    by (simp_all add: ConsensusMetaV1_root_def sha256_domain_def ConsensusMetaV1_encode_def sample_meta_def
        to_be_bytes_def nat_be_numeral tail_hash_def)
  from state_root_commits [OF _ _ inj meta eq] show False
    by (simp add: length_tail_hash sample_meta_def)
qed

text \<open>A licence leaf exists exactly for valid records, and it determines the licence id and every field
  of its record.\<close>

theorem license_leaf_binds:
  assumes "length i = 32" and "length j = 32" and "wf_license r" and "wf_license s"
    and "inj_on H {LICENSE_LEAF @ i @ license_bytes r, LICENSE_LEAF @ j @ license_bytes s}"
  shows "(\<exists>h. license_leaf H i r = Inr h) = (LicenseRecordV1_validate r = Inr ()) \<and>
    (license_leaf H i r = Inr h \<and> license_leaf H j s = Inr h \<longrightarrow> i = j \<and> r = s)"
  using license_leaf_inj [OF _ _ assms]
  by (auto simp: license_leaf_def LicenseRecordV1_encode_iff)

definition sample_license :: "u8 \<Rightarrow> LicenseRecordV1" where
  "sample_license w = \<lparr>lic_version = 1, lic_status = 1, lic_purchase_method = 1, lic_purchase_id = replicate 32 1,
     lic_owner_public_key = replicate 32 2, lic_owner_key_sequence = 0, lic_mining_public_key = replicate 32 3,
     lic_mining_key_sequence = 0, lic_issued_epoch = 5, lic_activation_epoch = 69, lic_strike_weight = w,
     lic_suspended_until_epoch = 0, lic_revocation_epoch = 0\<rparr>"

theorem license_leaf_binds_witness:
  "(\<exists>h. license_leaf tail_hash (replicate 32 9) (sample_license 3) = Inr h) \<and>
   license_leaf tail_hash (replicate 32 9) (sample_license 3) \<noteq> license_leaf tail_hash (replicate 32 9) (sample_license 4)"
proof -
  let ?i = "replicate 32 (9 :: u8)" and ?r = "sample_license 3" and ?s = "sample_license 4"
  have wf: "wf_license ?r" "wf_license ?s" and v: "LicenseRecordV1_validate ?r = Inr ()"
    by (simp_all add: wf_license_def sample_license_def LicenseRecordV1_validate_def LICENSE_STATUS_ACTIVE_def
        PURCHASE_METHOD_BTC_def)
  have inj: "inj_on tail_hash {LICENSE_LEAF @ ?i @ license_bytes ?r, LICENSE_LEAF @ ?i @ license_bytes ?s}"
    by (simp add: license_bytes_def sample_license_def to_be_bytes_def nat_be_numeral tail_hash_def)
  obtain h where h: "license_leaf tail_hash ?i ?r = Inr h"
    using license_leaf_binds [OF _ _ wf inj] v by auto
  then have "license_leaf tail_hash ?i ?s \<noteq> Inr h"
    using license_leaf_binds [OF _ _ wf inj, of h] by (auto simp: sample_license_def)
  then show ?thesis
    using h by auto
qed

end
