(* ===== verification/Operations.thy ===== *)
theory Operations
  imports Transaction State
begin

text \<open>
  The wire format of protocol operations (crates/mutiny-protocol/src/lib.rs): the operation envelope,
  its id and signing digest, network identities, the licence manifests, native purchases, Bitcoin
  header imports with their own varuint routines, and the root over a block's operations. The theory
  shows that the envelope and the manifests are canonical, that the second varuint implementation
  is equivalent to the codec's, and that the operations root commits to the operations.
\<close>

unbundle bit_operations_syntax

section \<open>Model: constants and errors\<close>

definition OP_LICENSE_PURCHASE_BTC :: u16 where "OP_LICENSE_PURCHASE_BTC = 0x0001"
definition OP_LICENSE_PURCHASE_MUT :: u16 where "OP_LICENSE_PURCHASE_MUT = 0x0002"
definition OP_LICENSE_TRANSFER :: u16 where "OP_LICENSE_TRANSFER = 0x0003"
definition OP_LICENSE_MINING_KEY_ROTATE :: u16 where "OP_LICENSE_MINING_KEY_ROTATE = 0x0004"
definition OP_PUNISHMENT_EVIDENCE :: u16 where "OP_PUNISHMENT_EVIDENCE = 0x0005"
definition OP_BOOTSTRAP_COMMITMENT :: u16 where "OP_BOOTSTRAP_COMMITMENT = 0x0006"
definition OP_DIVIDEND_CLAIM :: u16 where "OP_DIVIDEND_CLAIM = 0x0007"
definition OP_MINING_PRESENCE :: u16 where "OP_MINING_PRESENCE = 0x0008"
definition OP_BITCOIN_HEADERS :: u16 where "OP_BITCOIN_HEADERS = 0x0009"

definition MAINNET_NETWORK_ID :: u32 where "MAINNET_NETWORK_ID = 0x4D555401"
definition TESTNET_NETWORK_ID :: u32 where "TESTNET_NETWORK_ID = 0x4D555402"
definition DEVNET_NETWORK_ID :: u32 where "DEVNET_NETWORK_ID = 0x4D555403"

definition MAINNET_GENESIS_ID :: bytes where
  "MAINNET_GENESIS_ID =
    [0x9d, 0xef, 0x7a, 0x0c, 0xc8, 0x3e, 0x92, 0xf6, 0xe1, 0xd8, 0x69, 0x2e, 0x9c, 0x29, 0xbb, 0x3f,
     0x11, 0xa8, 0x98, 0x6b, 0x9c, 0xb5, 0x90, 0xb8, 0x92, 0x14, 0x77, 0x4e, 0x2c, 0x7e, 0x54, 0x81]"

definition PACK_K_DEVNET_NETWORK_ID :: u32 where "PACK_K_DEVNET_NETWORK_ID = DEVNET_NETWORK_ID"

definition PACK_K_DEVNET_GENESIS_ID :: bytes where
  "PACK_K_DEVNET_GENESIS_ID =
    [0x4c, 0x60, 0x3d, 0xf8, 0x83, 0x9c, 0xe0, 0x20, 0xb4, 0x2a, 0x12, 0x68, 0xa5, 0x4a, 0x19, 0x38,
     0x65, 0x7a, 0x1b, 0x78, 0x12, 0xd2, 0xdf, 0x92, 0xc4, 0x80, 0x3d, 0x63, 0x35, 0x5e, 0x70, 0x2c]"

definition PACK_K_DEVNET_ACTIVATION_EPOCH :: u64 where "PACK_K_DEVNET_ACTIVATION_EPOCH = 1500"
definition MINING_PRESENCE_WINDOW_EPOCHS :: u64 where "MINING_PRESENCE_WINDOW_EPOCHS = 16"
definition MINING_PRESENCE_UNSIGNED_LEN :: nat where "MINING_PRESENCE_UNSIGNED_LEN = 80"
definition MINING_PRESENCE_FULL_LEN :: nat where "MINING_PRESENCE_FULL_LEN = 144"

definition pack_k_activation_epoch :: "u32 \<Rightarrow> bytes \<Rightarrow> u64 option" where
  "pack_k_activation_epoch network_id genesis_id =
     (if network_id = MAINNET_NETWORK_ID \<and> genesis_id = MAINNET_GENESIS_ID then Some 11
      else if network_id = PACK_K_DEVNET_NETWORK_ID \<and> genesis_id = PACK_K_DEVNET_GENESIS_ID
      then Some PACK_K_DEVNET_ACTIVATION_EPOCH else None)"

definition pack_k_active :: "u32 \<Rightarrow> bytes \<Rightarrow> u64 \<Rightarrow> bool" where
  "pack_k_active network_id genesis_id epoch =
     (case pack_k_activation_epoch network_id genesis_id of
        Some activation \<Rightarrow> epoch \<ge> activation
      | None \<Rightarrow> False)"

datatype ProtocolError =
    PrBadVersion
  | PrInvalidManifest
  | PrInvalidSignature
  | PrStaleOwnerSequence
  | PrStaleMiningSequence
  | PrRevoked
  | PrBadOffenseWeight
  | PrDividendExpired
  | PrDividendOverdraw
  | PrTreasuryUnderflow
  | PrOverflow
  | PrMiningPresenceInactive
  | PrMiningPresenceNetwork
  | PrMiningPresenceGenesis
  | PrMiningPresenceEpoch
  | PrInvalidMiningPresence
  | PrState StateError

section \<open>Model: the operation envelope\<close>

record ProtocolOperationV1 =
  op_op_type :: u16
  op_op_version :: u16
  op_payload :: bytes

definition ProtocolOperationV1_encode :: "ProtocolOperationV1 \<Rightarrow> bytes" where
  "ProtocolOperationV1_encode s =
     (let out = write_u16_be [] (op_op_type s);
          out = write_u16_be out (op_op_version s);
          out = write_varuint out (of_nat (length (op_payload s)))
      in out @ op_payload s)"

definition operation_id :: "(bytes \<Rightarrow> bytes) \<Rightarrow> ProtocolOperationV1 \<Rightarrow> bytes" where
  "operation_id H s = sha256_domain H PROTOCOL_OP_ID [ProtocolOperationV1_encode s]"

definition unsigned_operation_bytes :: "u16 \<Rightarrow> u16 \<Rightarrow> bytes \<Rightarrow> bytes" where
  "unsigned_operation_bytes op_type op_version unsigned_payload =
     (let out = write_u16_be [] op_type;
          out = write_u16_be out op_version;
          out = write_varuint out (of_nat (length unsigned_payload))
      in out @ unsigned_payload)"

definition operation_signing_digest :: "(bytes \<Rightarrow> bytes) \<Rightarrow> u16 \<Rightarrow> u16 \<Rightarrow> bytes \<Rightarrow> bytes" where
  "operation_signing_digest H op_type op_version unsigned_payload =
     (let bs = unsigned_operation_bytes op_type op_version unsigned_payload
      in sha256_domain H PROTOCOL_OP_SIGN [bs])"

definition verify_owner_signature ::
    "'k ed25519_lib \<Rightarrow> bytes \<Rightarrow> bytes \<Rightarrow> bytes \<Rightarrow> ProtocolError + unit" where
  "verify_owner_signature E public_key digest signature =
     rbind (ok_or PrInvalidSignature (vk_from_bytes E public_key)) (\<lambda>key.
       if vk_verify E key digest signature then Inr () else Inl PrInvalidSignature)"

section \<open>Model: manifests\<close>

record LicenseManifestEntryV1 =
  ent_owner_public_key :: bytes
  ent_mining_public_key :: bytes

text \<open>The loop that appends the entries, and the one that reads \<open>count\<close> of them from an input whose
  length has been checked.\<close>

definition write_entries :: "LicenseManifestEntryV1 list \<Rightarrow> bytes \<Rightarrow> bytes" where
  "write_entries licenses out =
     fold (\<lambda>entry out. out @ ent_owner_public_key entry @ ent_mining_public_key entry) licenses out"

fun read_entries :: "nat \<Rightarrow> bytes \<Rightarrow> LicenseManifestEntryV1 list" where
  "read_entries 0 input = []"
| "read_entries (Suc count) input =
     \<lparr>ent_owner_public_key = take 32 input, ent_mining_public_key = take 32 (drop 32 input)\<rparr> #
     read_entries count (drop 64 input)"

record MutLicenseManifestV1 =
  mm_version :: u16
  mm_network_id :: u32
  mm_purchase_nonce :: bytes
  mm_licenses :: "LicenseManifestEntryV1 list"

definition MutLicenseManifestV1_validate :: "MutLicenseManifestV1 \<Rightarrow> ProtocolError + unit" where
  "MutLicenseManifestV1_validate s =
     (if mm_version s \<noteq> 1 \<or> mm_licenses s = [] \<or> length (mm_licenses s) > 1024
      then Inl PrInvalidManifest else Inr ())"

definition MutLicenseManifestV1_encode :: "MutLicenseManifestV1 \<Rightarrow> ProtocolError + bytes" where
  "MutLicenseManifestV1_encode s =
     rbind (MutLicenseManifestV1_validate s) (\<lambda>_.
       let out = write_u16_be [] (mm_version s);
           out = write_u32_be out (mm_network_id s);
           out = out @ mm_purchase_nonce s;
           out = write_u32_be out (of_nat (length (mm_licenses s)))
       in Inr (write_entries (mm_licenses s) out))"

definition MutLicenseManifestV1_manifest_hash ::
    "(bytes \<Rightarrow> bytes) \<Rightarrow> MutLicenseManifestV1 \<Rightarrow> ProtocolError + bytes" where
  "MutLicenseManifestV1_manifest_hash H s =
     rbind (MutLicenseManifestV1_encode s) (\<lambda>bs. Inr (sha256_domain H MUT_LICENSE_MANIFEST [bs]))"

definition BOOTSTRAP_LICENSE_COUNT_V1 :: nat where "BOOTSTRAP_LICENSE_COUNT_V1 = 12"

record BootstrapManifestV1 =
  boot_version :: u16
  boot_network_id :: u32
  boot_purchase_nonce :: bytes
  boot_licenses :: "LicenseManifestEntryV1 list"

definition BootstrapManifestV1_validate :: "BootstrapManifestV1 \<Rightarrow> ProtocolError + unit" where
  "BootstrapManifestV1_validate s =
     (if boot_version s \<noteq> 1 \<or> length (boot_licenses s) \<noteq> BOOTSTRAP_LICENSE_COUNT_V1
      then Inl PrInvalidManifest else Inr ())"

definition BootstrapManifestV1_encode :: "BootstrapManifestV1 \<Rightarrow> ProtocolError + bytes" where
  "BootstrapManifestV1_encode s =
     rbind (BootstrapManifestV1_validate s) (\<lambda>_.
       let out = write_u16_be [] (boot_version s);
           out = write_u32_be out (boot_network_id s);
           out = out @ boot_purchase_nonce s;
           out = write_u32_be out (of_nat (length (boot_licenses s)))
       in Inr (write_entries (boot_licenses s) out))"

definition BootstrapManifestV1_decode :: "bytes \<Rightarrow> ProtocolError + BootstrapManifestV1" where
  "BootstrapManifestV1_decode input =
     rbind (map_err (\<lambda>_. PrInvalidManifest) (read_u16_be input)) (\<lambda>(version, input).
     rbind (map_err (\<lambda>_. PrInvalidManifest) (read_u32_be input)) (\<lambda>(network_id, input).
     if length input < 36 then Inl PrInvalidManifest
     else
       let purchase_nonce = take 32 input; input = drop 32 input
       in rbind (map_err (\<lambda>_. PrInvalidManifest) (read_u32_be input)) (\<lambda>(count, input).
          let count = unat count
          in if count \<noteq> BOOTSTRAP_LICENSE_COUNT_V1 \<or> length input \<noteq> count * 64
             then Inl PrInvalidManifest
             else
               let licenses = read_entries count input;
                   manifest = \<lparr>boot_version = version, boot_network_id = network_id,
                                boot_purchase_nonce = purchase_nonce, boot_licenses = licenses\<rparr>
               in rbind (BootstrapManifestV1_validate manifest) (\<lambda>_. Inr manifest))))"

definition BootstrapManifestV1_manifest_hash ::
    "(bytes \<Rightarrow> bytes) \<Rightarrow> BootstrapManifestV1 \<Rightarrow> ProtocolError + bytes" where
  "BootstrapManifestV1_manifest_hash H s =
     rbind (BootstrapManifestV1_encode s) (\<lambda>bs. Inr (sha256_domain H BOOTSTRAP_MANIFEST [bs]))"

record BtcLicenseManifestV1 =
  btm_version :: u16
  btm_network_id :: u32
  btm_genesis_hash :: bytes
  btm_purchase_nonce :: bytes
  btm_licenses :: "LicenseManifestEntryV1 list"

definition BtcLicenseManifestV1_validate :: "BtcLicenseManifestV1 \<Rightarrow> ProtocolError + unit" where
  "BtcLicenseManifestV1_validate s =
     (if btm_version s \<noteq> 1 \<or> btm_licenses s = [] \<or> length (btm_licenses s) > 1024
      then Inl PrInvalidManifest else Inr ())"

definition BtcLicenseManifestV1_encode :: "BtcLicenseManifestV1 \<Rightarrow> ProtocolError + bytes" where
  "BtcLicenseManifestV1_encode s =
     rbind (BtcLicenseManifestV1_validate s) (\<lambda>_.
       let out = write_u16_be [] (btm_version s);
           out = write_u32_be out (btm_network_id s);
           out = out @ btm_genesis_hash s;
           out = out @ btm_purchase_nonce s;
           out = write_u32_be out (of_nat (length (btm_licenses s)))
       in Inr (write_entries (btm_licenses s) out))"

definition BtcLicenseManifestV1_decode :: "bytes \<Rightarrow> ProtocolError + BtcLicenseManifestV1" where
  "BtcLicenseManifestV1_decode input =
     rbind (map_err (\<lambda>_. PrInvalidManifest) (read_u16_be input)) (\<lambda>(version, input).
     rbind (map_err (\<lambda>_. PrInvalidManifest) (read_u32_be input)) (\<lambda>(network_id, input).
     if length input < 64 then Inl PrInvalidManifest
     else
       let genesis_hash = take 32 input; purchase_nonce = take 32 (drop 32 input); input = drop 64 input
       in rbind (map_err (\<lambda>_. PrInvalidManifest) (read_u32_be input)) (\<lambda>(count, input).
          let count = unat count
          in if count = 0 \<or> count > 1024 \<or> length input \<noteq> count * 64
             then Inl PrInvalidManifest
             else
               let licenses = read_entries count input;
                   manifest = \<lparr>btm_version = version, btm_network_id = network_id,
                                btm_genesis_hash = genesis_hash,
                                btm_purchase_nonce = purchase_nonce, btm_licenses = licenses\<rparr>
               in rbind (BtcLicenseManifestV1_validate manifest) (\<lambda>_. Inr manifest))))"

definition BtcLicenseManifestV1_manifest_hash ::
    "(bytes \<Rightarrow> bytes) \<Rightarrow> BtcLicenseManifestV1 \<Rightarrow> ProtocolError + bytes" where
  "BtcLicenseManifestV1_manifest_hash H s =
     rbind (BtcLicenseManifestV1_encode s) (\<lambda>bs. Inr (sha256_domain H BTC_MANIFEST [bs]))"

section \<open>Model: purchases with the native coin\<close>

definition bitcoin_payment_id :: "(bytes \<Rightarrow> bytes) \<Rightarrow> bytes \<Rightarrow> u32 \<Rightarrow> bytes" where
  "bitcoin_payment_id H txid_internal output_index =
     sha256_domain H BTC_PAYMENT_ID [txid_internal, to_be_bytes output_index]"

definition native_payment_id :: "(bytes \<Rightarrow> bytes) \<Rightarrow> bytes \<Rightarrow> u16 \<Rightarrow> bytes" where
  "native_payment_id H payment_txid output_index =
     sha256_domain H MUT_PAYMENT_ID [payment_txid, to_be_bytes output_index]"

definition derive_license_id :: "(bytes \<Rightarrow> bytes) \<Rightarrow> u32 \<Rightarrow> u8 \<Rightarrow> bytes \<Rightarrow> u32 \<Rightarrow> bytes \<Rightarrow> bytes" where
  "derive_license_id H network_id purchase_method purchase_id manifest_index initial_owner_public_key =
     sha256_domain H LICENSE_ID
       [to_be_bytes network_id, [purchase_method], purchase_id, to_be_bytes manifest_index,
        initial_owner_public_key]"

record LicensePurchaseMutV1 =
  pm_payment_txid :: bytes
  pm_payment_output_index :: u16
  pm_manifest :: MutLicenseManifestV1

definition LicensePurchaseMutV1_payload :: "LicensePurchaseMutV1 \<Rightarrow> ProtocolError + bytes" where
  "LicensePurchaseMutV1_payload s =
     rbind (MutLicenseManifestV1_encode (pm_manifest s)) (\<lambda>manifest.
       let out = pm_payment_txid s;
           out = write_u16_be out (pm_payment_output_index s);
           out = write_varuint out (of_nat (length manifest))
       in Inr (out @ manifest))"

definition LicensePurchaseMutV1_operation :: "LicensePurchaseMutV1 \<Rightarrow> ProtocolError + ProtocolOperationV1" where
  "LicensePurchaseMutV1_operation s =
     rbind (LicensePurchaseMutV1_payload s) (\<lambda>payload.
       Inr \<lparr>op_op_type = OP_LICENSE_PURCHASE_MUT, op_op_version = 1, op_payload = payload\<rparr>)"

text \<open>The ids of the licences of a manifest, by position.\<close>

definition manifest_license_ids ::
    "(bytes \<Rightarrow> bytes) \<Rightarrow> u32 \<Rightarrow> u8 \<Rightarrow> bytes \<Rightarrow> LicenseManifestEntryV1 list \<Rightarrow> bytes list" where
  "manifest_license_ids H network_id purchase_method payment licenses =
     map (\<lambda>(i, entry). derive_license_id H network_id purchase_method payment (of_nat i)
            (ent_owner_public_key entry)) (enumerate 0 licenses)"

definition LicensePurchaseMutV1_license_ids ::
    "(bytes \<Rightarrow> bytes) \<Rightarrow> LicensePurchaseMutV1 \<Rightarrow> ProtocolError + bytes list" where
  "LicensePurchaseMutV1_license_ids H s =
     (let payment = native_payment_id H (pm_payment_txid s) (pm_payment_output_index s)
      in Inr (manifest_license_ids H (mm_network_id (pm_manifest s)) PURCHASE_METHOD_MUT payment
                (mm_licenses (pm_manifest s))))"

section \<open>Model: Bitcoin header imports\<close>

record BitcoinHeadersV1 =
  bh_network_id :: u32
  bh_genesis_id :: bytes
  bh_headers :: "bytes list"

function pack_m_write_varuint :: "u64 \<Rightarrow> bytes \<Rightarrow> bytes" where
  "pack_m_write_varuint v out =
     (let byte = ucast (v AND 0x7f) :: u8;
          v = drop_bit 7 v;
          byte = (if v \<noteq> 0 then byte OR 0x80 else byte);
          out = out @ [byte]
      in if v = 0 then out else pack_m_write_varuint v out)"
  by pat_completeness auto
termination
  by (relation "measure (\<lambda>(v, out). unat v)") (auto intro: drop7_less)

declare pack_m_write_varuint.simps [simp del]

function pack_m_read_loop :: "bytes \<Rightarrow> u64 \<Rightarrow> nat \<Rightarrow> nat \<Rightarrow> string + (u64 \<times> nat)" where
  "pack_m_read_loop input v shift i =
     (if i \<ge> 10 \<or> i \<ge> length input then Inl ''unterminated Pack M VarUInt''
      else
        let byte = input ! i;
            low = ucast (byte AND 0x7f) :: u64
        in if shift \<ge> 64 \<or> (shift = 63 \<and> low > 1) then Inl ''Pack M VarUInt overflow''
           else
             let v = v OR push_bit shift low
             in if byte AND 0x80 = 0 then
                  let canonical = pack_m_write_varuint v []
                  in if canonical \<noteq> take (i + 1) input
                     then Inl ''Pack M VarUInt is not minimally encoded''
                     else Inr (v, i + 1)
                else pack_m_read_loop input v (shift + 7) (i + 1))"
  by pat_completeness auto
termination
  by (relation "measure (\<lambda>(input, v, shift, i). 10 - i)") auto

declare pack_m_read_loop.simps [simp del]

definition pack_m_read_varuint :: "bytes \<Rightarrow> string + (u64 \<times> nat)" where
  "pack_m_read_varuint input = pack_m_read_loop input 0 0 0"

definition MAX_HEADERS :: nat where "MAX_HEADERS = 256"

definition BitcoinHeadersV1_payload :: "BitcoinHeadersV1 \<Rightarrow> string + bytes" where
  "BitcoinHeadersV1_payload s =
     (if bh_headers s = [] \<or> length (bh_headers s) > MAX_HEADERS
      then Inl ''BITCOIN_HEADERS header_count must be in 1..=256''
      else
        let out = to_be_bytes (bh_network_id s);
            out = out @ bh_genesis_id s;
            out = pack_m_write_varuint (of_nat (length (bh_headers s))) out
        in Inr (fold (\<lambda>header out. out @ header) (bh_headers s) out))"

text \<open>The loop that slices the raw headers from position \<open>pos\<close> on.\<close>

fun slice_headers :: "bytes \<Rightarrow> nat \<Rightarrow> nat \<Rightarrow> bytes list" where
  "slice_headers input pos 0 = []"
| "slice_headers input pos (Suc count) = take 80 (drop pos input) # slice_headers input (pos + 80) count"

definition BitcoinHeadersV1_decode_payload :: "bytes \<Rightarrow> string + BitcoinHeadersV1" where
  "BitcoinHeadersV1_decode_payload input =
     (if length input < 37 then Inl ''BITCOIN_HEADERS payload is truncated''
      else
        let network_id = from_be_bytes (take 4 input);
            genesis_id = take 32 (drop 4 input)
        in rbind (pack_m_read_varuint (drop 36 input)) (\<lambda>(count, count_len).
           let count = unat count
           in if count = 0 \<or> count > MAX_HEADERS
              then Inl ''BITCOIN_HEADERS header_count must be in 1..=256''
              else
                let body = 36 + count_len;
                    expected = body + count * 80
                in if length input \<noteq> expected then Inl ''BITCOIN_HEADERS payload length mismatch''
                   else Inr \<lparr>bh_network_id = network_id, bh_genesis_id = genesis_id,
                             bh_headers = slice_headers input body count\<rparr>))"

definition BitcoinHeadersV1_to_operation :: "BitcoinHeadersV1 \<Rightarrow> string + ProtocolOperationV1" where
  "BitcoinHeadersV1_to_operation s =
     rbind (BitcoinHeadersV1_payload s) (\<lambda>payload.
       Inr \<lparr>op_op_type = OP_BITCOIN_HEADERS, op_op_version = 1, op_payload = payload\<rparr>)"

definition BitcoinHeadersV1_from_operation :: "ProtocolOperationV1 \<Rightarrow> string + BitcoinHeadersV1" where
  "BitcoinHeadersV1_from_operation op =
     (if op_op_type op \<noteq> OP_BITCOIN_HEADERS \<or> op_op_version op \<noteq> 1
      then Inl ''not a BITCOIN_HEADERS v1 operation''
      else BitcoinHeadersV1_decode_payload (op_payload op))"

section \<open>Model: the operations root\<close>

definition protocol_operation_leaf :: "(bytes \<Rightarrow> bytes) \<Rightarrow> bytes \<Rightarrow> bytes" where
  "protocol_operation_leaf H op_id = sha256_domain H PROTOCOL_OP_LEAF [op_id]"

text \<open>Pairs of operation type and id, compared lexicographically, over \<open>windows(2)\<close>.\<close>

fun ops_ascending :: "(bytes \<Rightarrow> bytes) \<Rightarrow> ProtocolOperationV1 list \<Rightarrow> bool" where
  "ops_ascending H (a # b # ops) =
     ((op_op_type a < op_op_type b \<or>
       op_op_type a = op_op_type b \<and> operation_id H a < operation_id H b) \<and>
      ops_ascending H (b # ops))"
| "ops_ascending H ops = True"

definition protocol_operations_root ::
    "(bytes \<Rightarrow> bytes) \<Rightarrow> ProtocolOperationV1 list \<Rightarrow> ProtocolError + bytes" where
  "protocol_operations_root H operations =
     (if operations = [] then Inr (sha256_domain H PROTOCOL_OPS_EMPTY [])
      else if \<not> ops_ascending H operations then Inl PrInvalidManifest
      else
        let level = map (\<lambda>op. protocol_operation_leaf H (operation_id H op)) operations
        in Inr (merkle_loop (\<lambda>a b. sha256_domain H PROTOCOL_OP_NODE [a, b]) level ! 0))"

section \<open>The second varuint implementation\<close>

lemma pack_m_write_varuint_eq: "pack_m_write_varuint v out = write_varuint out v"
proof (induction v out rule: pack_m_write_varuint.induct)
  case (1 v out)
  show ?case
    using 1 [OF refl refl refl refl]
    by (simp only: pack_m_write_varuint.simps [of v out] write_varuint.simps [of out v] Let_def split: if_splits)
      (auto simp: Let_def)
qed

lemma pack_m_loop_agrees:
  "pack_m_read_loop input v (7 * i) i = Inr (r, n) \<longleftrightarrow>
     read_varuint_loop input v (7 * i) i = Inr (r, n) \<and> encode_varuint r = take n input"
proof (induction "10 - i" arbitrary: v i)
  case 0
  then show ?case
    by (simp add: pack_m_read_loop.simps [of input v "7 * i" i] read_varuint_loop.simps [of input v "7 * i" i])
next
  case (Suc k)
  have i: "i < 10" and IH: "\<And>v. pack_m_read_loop input v (7 * (i + 1)) (i + 1) = Inr (r, n) \<longleftrightarrow>
      read_varuint_loop input v (7 * (i + 1)) (i + 1) = Inr (r, n) \<and> encode_varuint r = take n input"
    using Suc.hyps(2) by (simp, intro Suc.hyps(1)) simp
  show ?case
  proof (cases "i < length input")
    case False
    then show ?thesis
      using i by (simp add: pack_m_read_loop.simps [of input v "7 * i" i] read_varuint_loop.simps [of input v "7 * i" i])
  next
    case True
    let ?low = "ucast (input ! i AND 0x7f) :: u64"
    have step: "7 * i + 7 = 7 * (i + 1)" and s: "checked_shl ?low (7 * i) = Some (push_bit (7 * i) ?low)" "\<not> 7 * i \<ge> 64" "\<not> 7 * i > 63"
      using i by (simp_all add: checked_shl_def)
    have g: "(i \<ge> 10) = False" "(i \<ge> length input) = False"
      using i True by simp_all
    have P: "pack_m_read_loop input v (7 * i) i =
       (if 7 * i = 63 \<and> ?low > 1 then Inl ''Pack M VarUInt overflow''
        else if input ! i AND 0x80 = 0 then
          (if encode_varuint (v OR push_bit (7 * i) ?low) \<noteq> take (i + 1) input
           then Inl ''Pack M VarUInt is not minimally encoded''
           else Inr (v OR push_bit (7 * i) ?low, i + 1))
        else pack_m_read_loop input (v OR push_bit (7 * i) ?low) (7 * (i + 1)) (i + 1))"
      by (simp only: pack_m_read_loop.simps [of input v "7 * i" i] Let_def g s(2) if_False simp_thms
          pack_m_write_varuint_eq encode_varuint_def step)
    have R: "read_varuint_loop input v (7 * i) i =
       (if 7 * i = 63 \<and> ?low > 1 then Inl DecOverflow
        else if input ! i AND 0x80 = 0 then Inr (v OR push_bit (7 * i) ?low, i + 1)
        else read_varuint_loop input (v OR push_bit (7 * i) ?low) (7 * (i + 1)) (i + 1))"
      by (simp only: read_varuint_loop.simps [of input v "7 * i" i] Let_def g s if_False simp_thms
          option.case step)
    show ?thesis
      unfolding P R using IH by auto
  qed
qed

lemma read_varuint_loop_consumed:
  "read_varuint_loop input v shift i = Inr (r, n) \<Longrightarrow> n \<le> length input"
proof (induction "10 - i" arbitrary: v shift i)
  case 0
  then show ?case
    by (simp add: read_varuint_loop.simps [of input v shift i])
next
  case (Suc k)
  have IH: "read_varuint_loop input w s (i + 1) = Inr (r, n) \<Longrightarrow> n \<le> length input" for w s
    by (rule Suc.hyps(1)) (use Suc.hyps(2) in simp_all)
  have "i < length input" and "n = i + 1 \<or> (\<exists>w s. read_varuint_loop input w s (i + 1) = Inr (r, n))"
    using Suc.prems unfolding read_varuint_loop.simps [of input v shift i] Let_def
    by (simp_all split: if_split_asm option.split_asm) blast+
  then show ?case
    using IH by auto
qed

lemma pack_m_read_varuint_iff:
  "pack_m_read_varuint input = Inr (v, n) \<longleftrightarrow>
     n = length (encode_varuint v) \<and> read_varuint input = Inr (v, drop n input)"
proof
  assume "pack_m_read_varuint input = Inr (v, n)"
  then have r: "read_varuint_loop input 0 0 0 = Inr (v, n)" and e: "encode_varuint v = take n input"
    using pack_m_loop_agrees [of input 0 0 v n] by (simp_all add: pack_m_read_varuint_def)
  then show "n = length (encode_varuint v) \<and> read_varuint input = Inr (v, drop n input)"
    using read_varuint_loop_consumed [OF r] by (simp add: read_varuint_def)
next
  assume "n = length (encode_varuint v) \<and> read_varuint input = Inr (v, drop n input)"
  then obtain k where n: "n = length (encode_varuint v)" and r: "read_varuint_loop input 0 0 0 = Inr (v, k)"
    and e: "encode_varuint v = take k input"
    by (auto simp: read_varuint_def Let_def)
  then have "k = n"
    using read_varuint_loop_consumed [OF r] by simp
  then show "pack_m_read_varuint input = Inr (v, n)"
    using pack_m_loop_agrees [of input 0 0 v n] r e by (simp add: pack_m_read_varuint_def)
qed

section \<open>Manifests\<close>

lemma write_entries_eq:
  "write_entries es out = out @ concat (map (\<lambda>e. ent_owner_public_key e @ ent_mining_public_key e) es)"
  unfolding write_entries_def by (induction es arbitrary: out) simp_all

definition wf_entry :: "LicenseManifestEntryV1 \<Rightarrow> bool" where
  "wf_entry e \<longleftrightarrow> arr 32 (ent_owner_public_key e) \<and> arr 32 (ent_mining_public_key e)"

lemma read_entries_write:
  "list_all wf_entry es \<Longrightarrow> read_entries (length es) (write_entries es []) = es"
  unfolding write_entries_eq by (induction es) (simp_all add: wf_entry_def)

lemma length_write_entries: "list_all wf_entry es \<Longrightarrow> length (write_entries es []) = length es * 64"
  unfolding write_entries_eq by (induction es) (simp_all add: wf_entry_def)

lemma read_entries_sound:
  "length input = n * 64 \<Longrightarrow>
   length (read_entries n input) = n \<and> list_all wf_entry (read_entries n input) \<and>
   write_entries (read_entries n input) [] = input"
proof (induction n arbitrary: input)
  case (Suc n)
  have "take 32 input @ take 32 (drop 32 input) @ drop 64 input = input"
  proof -
    have "drop 64 input = drop 32 (drop 32 input)"
      by simp
    then show ?thesis
      by (simp only: append_take_drop_id)
  qed
  moreover have "write_entries (read_entries n (drop 64 input)) [] = drop 64 input"
    and "length (read_entries n (drop 64 input)) = n" and "list_all wf_entry (read_entries n (drop 64 input))"
    using Suc.IH [of "drop 64 input"] Suc.prems by simp_all
  moreover have "wf_entry \<lparr>ent_owner_public_key = take 32 input, ent_mining_public_key = take 32 (drop 32 input)\<rparr>"
    using Suc.prems by (simp add: wf_entry_def)
  ultimately show ?case
    by (simp add: write_entries_eq)
qed (simp add: write_entries_eq)

definition wf_bootstrap :: "BootstrapManifestV1 \<Rightarrow> bool" where
  "wf_bootstrap m \<longleftrightarrow> arr 32 (boot_purchase_nonce m) \<and> list_all wf_entry (boot_licenses m)"

lemma BootstrapManifestV1_encode_iff:
  "BootstrapManifestV1_encode m = Inr bs \<longleftrightarrow>
     boot_version m = 1 \<and> length (boot_licenses m) = 12 \<and>
     bs = to_be_bytes (boot_version m) @ to_be_bytes (boot_network_id m) @ boot_purchase_nonce m @
       to_be_bytes (of_nat (length (boot_licenses m)) :: u32) @ write_entries (boot_licenses m) []"
  by (auto simp: BootstrapManifestV1_encode_def BootstrapManifestV1_validate_def BOOTSTRAP_LICENSE_COUNT_V1_def
      Let_def write_entries_eq)

lemma take_drop_32: "length xs \<ge> 32 \<Longrightarrow> length (take 32 xs) = 32 \<and> take 32 xs @ drop 32 xs = xs" for xs :: bytes
  by simp

lemma BootstrapManifestV1_decode_sound:
  assumes "BootstrapManifestV1_decode input = Inr m"
  shows "wf_bootstrap m \<and> BootstrapManifestV1_encode m = Inr input"
proof -
  obtain version :: u16 and network_id :: u32 and r and count :: u32 and body
    where input: "input = to_be_bytes version @ to_be_bytes network_id @ r" and r: "36 \<le> length r"
      and body: "drop 32 r = to_be_bytes count @ body"
      and count: "unat count = 12" and len: "length body = 12 * 64"
      and m: "m = \<lparr>boot_version = version, boot_network_id = network_id, boot_purchase_nonce = take 32 r,
        boot_licenses = read_entries 12 body\<rparr>"
      and v: "version = 1"
    using assms
    by (auto simp: BootstrapManifestV1_decode_def Let_def wire_simps BOOTSTRAP_LICENSE_COUNT_V1_def
        BootstrapManifestV1_validate_def not_less)
  have es: "length (read_entries 12 body) = 12" "list_all wf_entry (read_entries 12 body)"
      "write_entries (read_entries 12 body) [] = body"
    using read_entries_sound [of body 12] len by simp_all
  have "take 32 r @ to_be_bytes count @ body = r"
    unfolding body [symmetric] by (rule append_take_drop_id)
  moreover have "count = of_nat 12"
    using count by (simp add: word_unat_eq_iff)
  ultimately show ?thesis
    using r v es by (simp add: m input wf_bootstrap_def BootstrapManifestV1_encode_iff)
qed

lemma BootstrapManifestV1_decode_encode:
  assumes "wf_bootstrap m" and "BootstrapManifestV1_encode m = Inr input"
  shows "BootstrapManifestV1_decode input = Inr m"
proof -
  let ?body = "write_entries (boot_licenses m) []"
  have m: "boot_version m = 1" "length (boot_licenses m) = 12"
    and input: "input = to_be_bytes (boot_version m) @ to_be_bytes (boot_network_id m) @ boot_purchase_nonce m @
      to_be_bytes (of_nat (length (boot_licenses m)) :: u32) @ ?body"
    using assms(2) by (simp_all add: BootstrapManifestV1_encode_iff)
  have es: "read_entries 12 ?body = boot_licenses m" "length ?body = 12 * 64"
    using read_entries_write [of "boot_licenses m"] length_write_entries [of "boot_licenses m"] assms(1) m
    by (simp_all add: wf_bootstrap_def)
  show ?thesis
    using assms(1) m es unfolding input
    by (simp add: BootstrapManifestV1_decode_def read_enc Let_def wf_bootstrap_def BOOTSTRAP_LICENSE_COUNT_V1_def
        BootstrapManifestV1_validate_def)
qed

lemma BootstrapManifestV1_decode_iff:
  "BootstrapManifestV1_decode input = Inr m \<longleftrightarrow> wf_bootstrap m \<and> BootstrapManifestV1_encode m = Inr input"
  using BootstrapManifestV1_decode_sound BootstrapManifestV1_decode_encode by blast

definition wf_btc_manifest :: "BtcLicenseManifestV1 \<Rightarrow> bool" where
  "wf_btc_manifest m \<longleftrightarrow>
     arr 32 (btm_genesis_hash m) \<and> arr 32 (btm_purchase_nonce m) \<and> list_all wf_entry (btm_licenses m)"

lemma BtcLicenseManifestV1_encode_iff:
  "BtcLicenseManifestV1_encode m = Inr bs \<longleftrightarrow>
     btm_version m = 1 \<and> 0 < length (btm_licenses m) \<and> length (btm_licenses m) \<le> 1024 \<and>
     bs = to_be_bytes (btm_version m) @ to_be_bytes (btm_network_id m) @ btm_genesis_hash m @ btm_purchase_nonce m @
       to_be_bytes (of_nat (length (btm_licenses m)) :: u32) @ write_entries (btm_licenses m) []"
  by (auto simp: BtcLicenseManifestV1_encode_def BtcLicenseManifestV1_validate_def Let_def write_entries_eq)

lemma count32: "k \<le> 1024 \<Longrightarrow> n = of_nat k \<longleftrightarrow> unat n = k" for n :: u32
  by (auto simp: word_unat_eq_iff unat_of_nat take_bit_nat_eq_self_iff)

lemma BtcLicenseManifestV1_decode_sound:
  assumes "BtcLicenseManifestV1_decode input = Inr m"
  shows "wf_btc_manifest m \<and> BtcLicenseManifestV1_encode m = Inr input"
proof -
  obtain version :: u16 and network_id :: u32 and r and count :: u32 and body
    where input: "input = to_be_bytes version @ to_be_bytes network_id @ r" and r: "64 \<le> length r"
      and body: "drop 64 r = to_be_bytes count @ body"
      and count: "0 < unat count" "unat count \<le> 1024" and len: "length body = unat count * 64"
      and m: "m = \<lparr>btm_version = version, btm_network_id = network_id, btm_genesis_hash = take 32 r,
        btm_purchase_nonce = take 32 (drop 32 r), btm_licenses = read_entries (unat count) body\<rparr>"
      and v: "version = 1"
    using assms
    by (auto simp: BtcLicenseManifestV1_decode_def Let_def wire_simps BtcLicenseManifestV1_validate_def not_less)
  have es: "length (read_entries (unat count) body) = unat count" "list_all wf_entry (read_entries (unat count) body)"
      "write_entries (read_entries (unat count) body) [] = body"
    using read_entries_sound [OF len] by simp_all
  have "take 32 r @ take 32 (drop 32 r) @ to_be_bytes count @ body = r"
  proof -
    have "drop 64 r = drop 32 (drop 32 r)"
      by simp
    then show ?thesis
      unfolding body [symmetric] by (simp only: append_take_drop_id)
  qed
  moreover have "count = of_nat (unat count)"
    by simp
  ultimately show ?thesis
    using r v es count by (simp add: m input wf_btc_manifest_def BtcLicenseManifestV1_encode_iff)
qed

lemma BtcLicenseManifestV1_decode_encode:
  assumes "wf_btc_manifest m" and "BtcLicenseManifestV1_encode m = Inr input"
  shows "BtcLicenseManifestV1_decode input = Inr m"
proof -
  let ?body = "write_entries (btm_licenses m) []" and ?n = "length (btm_licenses m)"
  have m: "btm_version m = 1" "0 < ?n" "?n \<le> 1024"
    and input: "input = to_be_bytes (btm_version m) @ to_be_bytes (btm_network_id m) @ btm_genesis_hash m @
      btm_purchase_nonce m @ to_be_bytes (of_nat ?n :: u32) @ ?body"
    using assms(2) by (simp_all add: BtcLicenseManifestV1_encode_iff)
  have es: "read_entries ?n ?body = btm_licenses m" "length ?body = ?n * 64"
    using read_entries_write [of "btm_licenses m"] length_write_entries [of "btm_licenses m"] assms(1)
    by (simp_all add: wf_btc_manifest_def)
  have n: "unat (of_nat ?n :: u32) = ?n"
    using count32 [OF m(3)] by blast
  show ?thesis
    using assms(1) m es n unfolding input
    by (simp add: BtcLicenseManifestV1_decode_def read_enc Let_def wf_btc_manifest_def BtcLicenseManifestV1_validate_def)
qed

lemma BtcLicenseManifestV1_decode_iff:
  "BtcLicenseManifestV1_decode input = Inr m \<longleftrightarrow> wf_btc_manifest m \<and> BtcLicenseManifestV1_encode m = Inr input"
  using BtcLicenseManifestV1_decode_sound BtcLicenseManifestV1_decode_encode by blast

section \<open>Bitcoin header imports\<close>

definition wf_headers :: "BitcoinHeadersV1 \<Rightarrow> bool" where
  "wf_headers h \<longleftrightarrow> arr 32 (bh_genesis_id h) \<and> list_all (arr 80) (bh_headers h)"

lemma fold_append: "fold (\<lambda>x out. out @ x) xs out = out @ concat xs"
  by (induction xs arbitrary: out) simp_all

lemma BitcoinHeadersV1_payload_iff:
  "BitcoinHeadersV1_payload h = Inr bs \<longleftrightarrow>
     0 < length (bh_headers h) \<and> length (bh_headers h) \<le> 256 \<and>
     bs = to_be_bytes (bh_network_id h) @ bh_genesis_id h @ encode_varuint (of_nat (length (bh_headers h))) @
       concat (bh_headers h)"
  by (auto simp: BitcoinHeadersV1_payload_def MAX_HEADERS_def Let_def pack_m_write_varuint_eq write_varuint_append
      fold_append)

lemma slice_headers_eq: "slice_headers input pos n = slice_headers (drop pos input) 0 n"
proof (induction n arbitrary: input pos)
  case (Suc n)
  show ?case
    using Suc [of input "pos + 80"] Suc [of "drop pos input" 80] by (simp add: add.commute)
qed simp

lemma slice_headers_concat: "list_all (arr 80) hs \<Longrightarrow> slice_headers (concat hs) 0 (length hs) = hs"
proof (induction hs)
  case (Cons h hs)
  then show ?case
    using slice_headers_eq [of "h @ concat hs" 80 "length hs"] by simp
qed simp

lemma slice_headers_sound:
  "length input = n * 80 \<Longrightarrow>
   length (slice_headers input 0 n) = n \<and> list_all (arr 80) (slice_headers input 0 n) \<and>
   concat (slice_headers input 0 n) = input"
proof (induction n arbitrary: input)
  case (Suc n)
  then show ?case
    using slice_headers_eq [of input 80 n] Suc.IH [of "drop 80 input"] by simp
qed simp

lemma length_concat_arr: "list_all (arr n) hs \<Longrightarrow> length (concat hs) = length hs * n"
  by (induction hs) simp_all

lemma BitcoinHeadersV1_decode_encode:
  assumes "wf_headers h" and "BitcoinHeadersV1_payload h = Inr input"
  shows "BitcoinHeadersV1_decode_payload input = Inr h"
proof -
  let ?n = "length (bh_headers h)" and ?v = "encode_varuint (of_nat (length (bh_headers h)))"
  have n: "0 < ?n" "?n \<le> 256" and input: "input = to_be_bytes (bh_network_id h) @ bh_genesis_id h @ ?v @ concat (bh_headers h)"
    using assms(2) by (simp_all add: BitcoinHeadersV1_payload_iff)
  have g: "length (bh_genesis_id h) = 32" and hs: "list_all (arr 80) (bh_headers h)"
    using assms(1) by (simp_all add: wf_headers_def)
  have "?v \<noteq> []"
    by (metis encode_varuint_def append_Nil write_varuint_append encode_varuint_0 varuint.enc_prefix_free append_Nil2 not_Cons_self2)
  then have long: "37 \<le> length input"
    using g by (cases ?v) (simp_all add: input)
  have count: "unat (of_nat ?n :: u64) = ?n"
    using n by (simp add: unat_of_nat take_bit_nat_eq_self_iff)
  have d36: "drop 36 input = ?v @ concat (bh_headers h)"
    using g by (simp add: input)
  have rd: "pack_m_read_varuint (drop 36 input) = Inr (of_nat ?n, length ?v)"
    unfolding d36 pack_m_read_varuint_iff by (simp add: read_enc)
  have len: "length input = 36 + length ?v + ?n * 80"
    using g length_concat_arr [OF hs] by (simp add: input)
  have body: "slice_headers input (36 + length ?v) ?n = bh_headers h"
    unfolding slice_headers_eq [of input] using g slice_headers_concat [OF hs] by (simp add: input)
  show ?thesis
    using long len n g unfolding BitcoinHeadersV1_decode_payload_def rd
    by (simp add: Let_def count MAX_HEADERS_def body) (simp add: input from_to_be_bytes)
qed

lemma BitcoinHeadersV1_decode_sound:
  assumes "BitcoinHeadersV1_decode_payload input = Inr h"
  shows "wf_headers h \<and> BitcoinHeadersV1_payload h = Inr input"
proof -
  obtain count k where long: "37 \<le> length input"
    and rd: "pack_m_read_varuint (drop 36 input) = Inr (count, k)"
    and n: "0 < unat count" "unat count \<le> 256" and len: "length input = 36 + k + unat count * 80"
    and h: "h = \<lparr>bh_network_id = from_be_bytes (take 4 input), bh_genesis_id = take 32 (drop 4 input),
      bh_headers = slice_headers input (36 + k) (unat count)\<rparr>"
    using assms by (auto simp: BitcoinHeadersV1_decode_payload_def Let_def MAX_HEADERS_def not_less)
  have v: "k = length (encode_varuint count)" "drop 36 input = encode_varuint count @ drop k (drop 36 input)"
    using rd by (simp_all add: pack_m_read_varuint_iff read_varuint_iff)
  have "length (drop (36 + k) input) = unat count * 80"
    using len by simp
  from slice_headers_sound [OF this] have
    hs: "length (slice_headers input (36 + k) (unat count)) = unat count"
      "list_all (arr 80) (slice_headers input (36 + k) (unat count))"
      "concat (slice_headers input (36 + k) (unat count)) = drop (36 + k) input"
    by (simp_all add: slice_headers_eq [of input "36 + k"])
  have "to_be_bytes (from_be_bytes (take 4 input) :: u32) = take 4 input"
    using long by (intro to_from_be_bytes) simp
  moreover have "take 4 input @ take 32 (drop 4 input) @ encode_varuint count @ drop (36 + k) input = input"
  proof -
    have "drop 36 input = drop 32 (drop 4 input)"
      by simp
    moreover have "encode_varuint count @ drop (36 + k) input = drop 36 input"
      using v(2) by (simp add: add.commute)
    ultimately show ?thesis
      by (simp only: append_take_drop_id)
  qed
  ultimately show ?thesis
    using hs n long by (simp add: h wf_headers_def BitcoinHeadersV1_payload_iff)
qed

section \<open>Operation ids and the operations root\<close>

lemma ProtocolOperationV1_encode_eq:
  "ProtocolOperationV1_encode p =
     to_be_bytes (op_op_type p) @ to_be_bytes (op_op_version p) @
     encode_varuint (of_nat (length (op_payload p))) @ op_payload p"
  by (simp add: ProtocolOperationV1_encode_def Let_def wire_simps)

lemma ProtocolOperationV1_encode_inj:
  assumes "len64 (op_payload a)" and "len64 (op_payload b)"
    and "ProtocolOperationV1_encode a = ProtocolOperationV1_encode b"
  shows "a = b"
proof -
  have 1: "op_op_type a = op_op_type b \<and> to_be_bytes (op_op_version a) @
        encode_varuint (of_nat (length (op_payload a))) @ op_payload a =
      to_be_bytes (op_op_version b) @ encode_varuint (of_nat (length (op_payload b))) @ op_payload b"
    by (rule u16_codec.enc_prefix_free [OF TrueI TrueI assms(3) [unfolded ProtocolOperationV1_encode_eq]])
  have 2: "op_op_version a = op_op_version b \<and>
      encode_varuint (of_nat (length (op_payload a))) @ op_payload a =
      encode_varuint (of_nat (length (op_payload b))) @ op_payload b"
    by (rule u16_codec.enc_prefix_free [OF TrueI TrueI 1 [THEN conjunct2]])
  have "op_payload a = op_payload b \<and> ([] :: bytes) = []"
    by (rule counted_inj [OF assms(1,2)]) (use 2 in \<open>simp only: append_Nil2\<close>)
  then show ?thesis
    using 1 [THEN conjunct1] 2 [THEN conjunct1] by (auto intro: ProtocolOperationV1.equality)
qed

lemma operation_id_inj:
  assumes "len64 (op_payload a)" and "len64 (op_payload b)"
    and "inj_on H {PROTOCOL_OP_ID @ ProtocolOperationV1_encode a, PROTOCOL_OP_ID @ ProtocolOperationV1_encode b}"
    and "operation_id H a = operation_id H b"
  shows "a = b"
proof -
  have "ProtocolOperationV1_encode a = ProtocolOperationV1_encode b"
    using assms(4) unfolding operation_id_def by (rule sha256_domain_inj1) (rule assms(3))
  then show ?thesis
    using ProtocolOperationV1_encode_inj assms(1,2) by blast
qed

lemma op_tags_differ: "PROTOCOL_OP_LEAF \<noteq> PROTOCOL_OP_NODE"
  by (simp add: PROTOCOL_OP_LEAF_def PROTOCOL_OP_NODE_def ascii_eq_iff)

interpretation op_merkle: merkle_domains PROTOCOL_OP_LEAF PROTOCOL_OP_NODE
  by unfold_locales (simp_all add: op_tags_differ)

text \<open>The strings hashed for an operations root.\<close>

definition ops_root_inputs :: "(bytes \<Rightarrow> bytes) \<Rightarrow> ProtocolOperationV1 list \<Rightarrow> bytes set" where
  "ops_root_inputs H ops =
     insert PROTOCOL_OPS_EMPTY
       ((\<lambda>p. PROTOCOL_OP_ID @ ProtocolOperationV1_encode p) ` set ops \<union>
        (if ops = [] then {} else merkle_inputs H PROTOCOL_OP_LEAF PROTOCOL_OP_NODE (map (operation_id H) ops)))"

lemma operation_ids_inj:
  "list_all (\<lambda>p. len64 (op_payload p)) a \<Longrightarrow> list_all (\<lambda>p. len64 (op_payload p)) b \<Longrightarrow>
   inj_on H ((\<lambda>p. PROTOCOL_OP_ID @ ProtocolOperationV1_encode p) ` (set a \<union> set b)) \<Longrightarrow>
   map (operation_id H) a = map (operation_id H) b \<Longrightarrow> a = b"
proof (induction a arbitrary: b)
  case (Cons x a)
  then obtain y b' where b: "b = y # b'"
    by (cases b) auto
  have "inj_on H {PROTOCOL_OP_ID @ ProtocolOperationV1_encode x, PROTOCOL_OP_ID @ ProtocolOperationV1_encode y}"
    by (rule inj_on_subset [OF Cons.prems(3)]) (auto simp: b)
  moreover have "inj_on H ((\<lambda>p. PROTOCOL_OP_ID @ ProtocolOperationV1_encode p) ` (set a \<union> set b'))"
    by (rule inj_on_subset [OF Cons.prems(3)]) (auto simp: b)
  ultimately show ?case
    using Cons.IH [of b'] Cons.prems operation_id_inj [of x y H] by (simp add: b)
qed simp

lemma operations_root_tree:
  assumes "ops \<noteq> []" and "protocol_operations_root H ops = Inr r"
  shows "merkle_loop (tagged_node H PROTOCOL_OP_NODE) (map (tagged_leaf H PROTOCOL_OP_LEAF) (map (operation_id H) ops)) = [r]"
proof -
  have n: "(\<lambda>a b. sha256_domain H PROTOCOL_OP_NODE [a, b]) = tagged_node H PROTOCOL_OP_NODE"
    by (intro ext) (simp add: tagged_node_def)
  have l: "map (\<lambda>op. protocol_operation_leaf H (operation_id H op)) ops =
      map (tagged_leaf H PROTOCOL_OP_LEAF) (map (operation_id H) ops)"
    by (simp add: protocol_operation_leaf_def tagged_leaf_def)
  have "merkle_loop (tagged_node H PROTOCOL_OP_NODE) (map (tagged_leaf H PROTOCOL_OP_LEAF) (map (operation_id H) ops)) ! 0 = r"
    using assms unfolding protocol_operations_root_def n l by (simp add: Let_def)
  moreover obtain q where "merkle_loop (tagged_node H PROTOCOL_OP_NODE)
      (map (tagged_leaf H PROTOCOL_OP_LEAF) (map (operation_id H) ops)) = [q]"
    using merkle_loop_single assms(1) by (metis Nil_is_map_conv)
  ultimately show ?thesis
    by (simp only: nth_Cons_0)
qed

text \<open>A root under the leaf or node tag differs from the empty root.\<close>

lemma root_not_empty:
  assumes "ops \<noteq> []" and "protocol_operations_root H ops = Inr r" and "inj_on H (ops_root_inputs H ops)"
  shows "r \<noteq> sha256_domain H PROTOCOL_OPS_EMPTY []"
proof -
  let ?ids = "map (operation_id H) ops"
  have ne: "?ids \<noteq> []"
    using assms(1) by simp
  have "mhash (tagged_leaf H PROTOCOL_OP_LEAF) (tagged_node H PROTOCOL_OP_NODE) (merkle_tree ?ids) = r"
    using operations_root_tree [OF assms(1,2)] unfolding merkle_loop_tree(1) [OF ne] by blast
  then obtain d x where r: "r = H (d @ x)" and d: "d = PROTOCOL_OP_LEAF \<or> d = PROTOCOL_OP_NODE"
    and x: "d @ x \<in> merkle_inputs H PROTOCOL_OP_LEAF PROTOCOL_OP_NODE ?ids"
    unfolding merkle_inputs_def by (cases "merkle_tree ?ids") (auto simp only: op_merkle.mhash_tagged tree_inputs.simps)
  show ?thesis
  proof
    assume "r = sha256_domain H PROTOCOL_OPS_EMPTY []"
    then have "H (d @ x) = H PROTOCOL_OPS_EMPTY"
      unfolding r sha256_domain_def by (simp only: concat.simps append_Nil2)
    then have "d @ x = PROTOCOL_OPS_EMPTY @ []"
      unfolding append_Nil2 by (rule inj_onD [OF assms(3)]) (use x assms(1) in \<open>auto simp: ops_root_inputs_def\<close>)
    then have "d = PROTOCOL_OPS_EMPTY"
      using v1_tag_separates [of d PROTOCOL_OPS_EMPTY x "[]"] d by fastforce
    then show False
      using d by (auto simp: PROTOCOL_OP_LEAF_def PROTOCOL_OP_NODE_def PROTOCOL_OPS_EMPTY_def ascii_eq_iff)
  qed
qed

lemma operations_root_inj:
  assumes len: "\<forall>x. length (H x) = 32"
    and wf: "list_all (\<lambda>p. len64 (op_payload p)) a" "list_all (\<lambda>p. len64 (op_payload p)) b"
    and inj: "inj_on H (ops_root_inputs H a \<union> ops_root_inputs H b)"
    and root: "protocol_operations_root H a = Inr r" "protocol_operations_root H b = Inr r"
  shows "a = b"
proof -
  have inj': "inj_on H (ops_root_inputs H a)" "inj_on H (ops_root_inputs H b)"
    by (rule inj_on_subset [OF inj], blast)+
  have empty: "r = sha256_domain H PROTOCOL_OPS_EMPTY []" if "a = [] \<or> b = []"
    using that root by (auto simp: protocol_operations_root_def)
  show ?thesis
  proof (cases "a = [] \<or> b = []")
    case True
    then show ?thesis
      using empty root_not_empty [OF _ root(1) inj'(1)] root_not_empty [OF _ root(2) inj'(2)] by blast
  next
    case False
    let ?ids = "map (operation_id H)"
    have "inj_on H (merkle_inputs H PROTOCOL_OP_LEAF PROTOCOL_OP_NODE (?ids a) \<union>
        merkle_inputs H PROTOCOL_OP_LEAF PROTOCOL_OP_NODE (?ids b))"
      by (rule inj_on_subset [OF inj]) (use False in \<open>auto simp: ops_root_inputs_def\<close>)
    then have "?ids a = ?ids b"
      using op_merkle.merkle_binding [OF len, of "?ids a" "?ids b"] False
        operations_root_tree [OF _ root(1)] operations_root_tree [OF _ root(2)] by simp
    moreover have "inj_on H ((\<lambda>p. PROTOCOL_OP_ID @ ProtocolOperationV1_encode p) ` (set a \<union> set b))"
      by (rule inj_on_subset [OF inj]) (auto simp: ops_root_inputs_def)
    ultimately show ?thesis
      using operation_ids_inj [OF wf] by blast
  qed
qed

lemma ops_ascending_distinct: "ops_ascending H ops \<Longrightarrow> distinct ops"
proof -
  let ?lt = "\<lambda>a b. op_op_type a < op_op_type b \<or> op_op_type a = op_op_type b \<and> operation_id H a < operation_id H b"
  have "ops_ascending H ops \<Longrightarrow> sorted_wrt ?lt ops"
  proof (induction H ops rule: ops_ascending.induct)
    case (1 H a b ops)
    then show ?case
      by (auto intro: less_trans)
  qed simp_all
  moreover have "sorted_wrt ?lt xs \<Longrightarrow> distinct xs" for xs
    by (induction xs) auto
  ultimately show "ops_ascending H ops \<Longrightarrow> distinct ops"
    by blast
qed

section \<open>Licence ids of a manifest\<close>

definition license_id_message :: "u32 \<Rightarrow> u8 \<Rightarrow> bytes \<Rightarrow> u32 \<Rightarrow> bytes \<Rightarrow> bytes" where
  "license_id_message network_id purchase_method purchase_id i owner =
     LICENSE_ID @ to_be_bytes network_id @ [purchase_method] @ purchase_id @ to_be_bytes i @ owner"

lemma manifest_license_ids_nth:
  "i < length licenses \<Longrightarrow>
   manifest_license_ids H n pm pay licenses ! i =
     H (license_id_message n pm pay (of_nat i) (ent_owner_public_key (licenses ! i)))"
  by (simp add: manifest_license_ids_def nth_enumerate_eq derive_license_id_def license_id_message_def sha256_domain_def)

lemma manifest_license_ids_distinct:
  assumes "length licenses \<le> 1024"
    and "inj_on H ((\<lambda>i. license_id_message n pm pay (of_nat i) (ent_owner_public_key (licenses ! i))) ` {..<length licenses})"
  shows "distinct (manifest_license_ids H n pm pay licenses)"
proof -
  have len: "length (manifest_license_ids H n pm pay licenses) = length licenses"
    by (simp add: manifest_license_ids_def)
  have "i = j" if "i < length licenses" "j < length licenses"
    and eq: "manifest_license_ids H n pm pay licenses ! i = manifest_license_ids H n pm pay licenses ! j" for i j
  proof -
    have "license_id_message n pm pay (of_nat i) (ent_owner_public_key (licenses ! i)) =
        license_id_message n pm pay (of_nat j) (ent_owner_public_key (licenses ! j))"
      using eq unfolding manifest_license_ids_nth [OF that(1)] manifest_license_ids_nth [OF that(2)]
      by (rule inj_onD [OF assms(2)]) (use that in auto)
    then have "to_be_bytes (of_nat i :: u32) @ ent_owner_public_key (licenses ! i) =
        to_be_bytes (of_nat j :: u32) @ ent_owner_public_key (licenses ! j)"
      by (simp only: license_id_message_def same_append_eq)
    then have "(of_nat i :: u32) = of_nat j"
      using u32_codec.enc_prefix_free [OF TrueI TrueI] by blast
    then show ?thesis
      using count32 [of i "of_nat i"] count32 [of j "of_nat i"] that assms(1) by auto
  qed
  then show ?thesis
    unfolding distinct_conv_nth len by blast
qed

section \<open>Properties\<close>

text \<open>The hand-written varuint reader of the Bitcoin header operation is equivalent to the consensus
  codec's: it accepts the same inputs and returns the same value and number of bytes.\<close>

theorem pack_m_varuint_agrees:
  "(pack_m_read_varuint input = Inr (v, n)) =
     (n = length (encode_varuint v) \<and> read_varuint input = Inr (v, drop n input)) \<and>
   pack_m_write_varuint v out = write_varuint out v"
  by (simp add: pack_m_read_varuint_iff pack_m_write_varuint_eq)

text \<open>Manifest decoding is exact, for Bitcoin purchases and for the bootstrap: a byte string decodes to
  a manifest if and only if the manifest is well formed and encodes to that string.\<close>

theorem manifest_decode_exact:
  "(BtcLicenseManifestV1_decode input = Inr m) = (wf_btc_manifest m \<and> BtcLicenseManifestV1_encode m = Inr input) \<and>
   (BootstrapManifestV1_decode input' = Inr b) = (wf_bootstrap b \<and> BootstrapManifestV1_encode b = Inr input')"
  by (simp add: BtcLicenseManifestV1_decode_iff BootstrapManifestV1_decode_iff)

text \<open>Bitcoin header imports round-trip: an operation decodes to a header batch if and only if the batch
  is well formed (80-byte headers, between 1 and 256 of them) and the operation is the one it
  encodes to.\<close>

theorem bitcoin_headers_operation_exact:
  "(BitcoinHeadersV1_from_operation op = Inr h) = (wf_headers h \<and> BitcoinHeadersV1_to_operation h = Inr op)"
  using BitcoinHeadersV1_decode_encode [of h "op_payload op"] BitcoinHeadersV1_decode_sound [of "op_payload op" h]
  by (cases op) (auto simp: BitcoinHeadersV1_from_operation_def BitcoinHeadersV1_to_operation_def)

text \<open>The operations root exists only for strictly ordered, hence distinct, operations and commits to
  the whole list: two lists of operations with the same root are equal, the empty list included.\<close>

theorem operations_root_commits:
  assumes "\<forall>x. length (H x) = 32"
    and "list_all (\<lambda>p. len64 (op_payload p)) a" and "list_all (\<lambda>p. len64 (op_payload p)) b"
    and "inj_on H (ops_root_inputs H a \<union> ops_root_inputs H b)"
    and "protocol_operations_root H a = Inr r" and "protocol_operations_root H b = Inr r"
  shows "a = b \<and> distinct a"
proof
  show "a = b"
    using assms by (rule operations_root_inj)
  show "distinct a"
    using assms(5) by (cases "a = []") (auto simp: protocol_operations_root_def Let_def intro: ops_ascending_distinct)
qed

definition sample_op :: "u16 \<Rightarrow> ProtocolOperationV1" where
  "sample_op t = \<lparr>op_op_type = t, op_op_version = 1, op_payload = []\<rparr>"

theorem operations_root_commits_witness:
  "protocol_operations_root tail_hash [sample_op 1] \<noteq> protocol_operations_root tail_hash [sample_op 2] \<and>
   protocol_operations_root tail_hash [sample_op 1] \<noteq> Inl PrInvalidManifest"
proof -
  have "ops_root_inputs tail_hash [sample_op 1] \<union> ops_root_inputs tail_hash [sample_op 2] =
      {PROTOCOL_OPS_EMPTY,
       PROTOCOL_OP_ID @ ProtocolOperationV1_encode (sample_op 1), PROTOCOL_OP_LEAF @ operation_id tail_hash (sample_op 1),
       PROTOCOL_OP_ID @ ProtocolOperationV1_encode (sample_op 2), PROTOCOL_OP_LEAF @ operation_id tail_hash (sample_op 2)}"
    by (auto simp: ops_root_inputs_def merkle_inputs_def merkle_tree_def merkle_loop.simps)
  then have inj: "inj_on tail_hash (ops_root_inputs tail_hash [sample_op 1] \<union> ops_root_inputs tail_hash [sample_op 2])"
    by (simp add: operation_id_def sha256_domain_def ProtocolOperationV1_encode_eq sample_op_def encode_varuint_0
        to_be_bytes_def nat_be_numeral tail_hash_def PROTOCOL_OP_ID_def PROTOCOL_OPS_EMPTY_def PROTOCOL_OP_LEAF_def
        ascii_def)
  obtain r where r: "protocol_operations_root tail_hash [sample_op 1] = Inr r"
    by (simp add: protocol_operations_root_def)
  have "protocol_operations_root tail_hash [sample_op 2] \<noteq> Inr r"
  proof
    assume "protocol_operations_root tail_hash [sample_op 2] = Inr r"
    from operations_root_commits [OF _ _ _ inj r this] show False
      by (simp add: length_tail_hash sample_op_def len64_def)
  qed
  then show ?thesis
    using r by auto
qed

text \<open>The licences of one purchase get distinct ids: the ids derived for a manifest of at most 1024
  entries are pairwise distinct even when entries repeat a key, unless SHA-256 collides on the
  strings hashed.\<close>

theorem purchase_license_ids_distinct:
  assumes "MutLicenseManifestV1_validate (pm_manifest p) = Inr ()"
    and "inj_on H ((\<lambda>i. license_id_message (mm_network_id (pm_manifest p)) PURCHASE_METHOD_MUT
           (native_payment_id H (pm_payment_txid p) (pm_payment_output_index p)) (of_nat i)
           (ent_owner_public_key (mm_licenses (pm_manifest p) ! i))) ` {..<length (mm_licenses (pm_manifest p))})"
  shows "\<exists>ids. LicensePurchaseMutV1_license_ids H p = Inr ids \<and> distinct ids \<and>
    length ids = length (mm_licenses (pm_manifest p)) \<and> ids \<noteq> []"
proof -
  have "length (mm_licenses (pm_manifest p)) \<le> 1024" and "mm_licenses (pm_manifest p) \<noteq> []"
    using assms(1) by (auto simp: MutLicenseManifestV1_validate_def not_less)
  moreover have "length (manifest_license_ids H n pm pay es) = length es" for n pm pay es
    by (simp add: manifest_license_ids_def)
  ultimately show ?thesis
    using manifest_license_ids_distinct [OF _ assms(2)]
    unfolding LicensePurchaseMutV1_license_ids_def Let_def by (metis length_0_conv)
qed

definition sample_purchase :: LicensePurchaseMutV1 where
  "sample_purchase = \<lparr>pm_payment_txid = replicate 32 1, pm_payment_output_index = 0,
     pm_manifest = \<lparr>mm_version = 1, mm_network_id = DEVNET_NETWORK_ID, mm_purchase_nonce = replicate 32 2,
       mm_licenses = [\<lparr>ent_owner_public_key = [7], ent_mining_public_key = [8]\<rparr>,
                      \<lparr>ent_owner_public_key = [7], ent_mining_public_key = [9]\<rparr>]\<rparr>\<rparr>"

theorem purchase_license_ids_distinct_witness:
  "\<exists>ids. LicensePurchaseMutV1_license_ids tail_hash sample_purchase = Inr ids \<and> distinct ids \<and> length ids = 2"
proof -
  have v: "MutLicenseManifestV1_validate (pm_manifest sample_purchase) = Inr ()"
    by (simp add: MutLicenseManifestV1_validate_def sample_purchase_def)
  have "{..<length (mm_licenses (pm_manifest sample_purchase))} = {0, 1}"
    by (auto simp: sample_purchase_def)
  then have "inj_on tail_hash ((\<lambda>i. license_id_message (mm_network_id (pm_manifest sample_purchase)) PURCHASE_METHOD_MUT
      (native_payment_id tail_hash (pm_payment_txid sample_purchase) (pm_payment_output_index sample_purchase)) (of_nat i)
      (ent_owner_public_key (mm_licenses (pm_manifest sample_purchase) ! i))) `
      {..<length (mm_licenses (pm_manifest sample_purchase))})"
    by (simp add: license_id_message_def sample_purchase_def to_be_bytes_def nat_be_numeral tail_hash_def)
  from purchase_license_ids_distinct [OF v this] show ?thesis
    by (auto simp: sample_purchase_def)
qed

end
