(* ===== verification/License.thy ===== *)
theory License
  imports Operations
begin

text \<open>
  Licence state transitions (crates/mutiny-protocol/src/lib.rs): transfer, mining-key rotation, mining
  presence, punishment with strike weights and revocation, dividend awards and dividend claims. A
  function that takes \<open>&mut\<close> arguments returns their final values together with its result, so that
  what an error path has already written is visible. The theory shows authorisation and replay
  protection of owner operations, the invariant of licence records and its consequences (revocation
  is absorbing and reached after at most sixteen offences), and conservation of dividends.
\<close>

section \<open>Model\<close>

definition OFFENSE_INVALID_SIGNED_WORK :: u16 where "OFFENSE_INVALID_SIGNED_WORK = 0x0001"
definition OFFENSE_LICENSE_STATE_EQUIVOCATION :: u16 where "OFFENSE_LICENSE_STATE_EQUIVOCATION = 0x0002"
definition OFFENSE_SAME_TICKET_EQUIVOCATION :: u16 where "OFFENSE_SAME_TICKET_EQUIVOCATION = 0x0003"

definition STRIKE_DECAY_EPOCHS :: u64 where "STRIKE_DECAY_EPOCHS = push_bit 21 1"
definition REVOCATION_THRESHOLD :: u8 where "REVOCATION_THRESHOLD = 16"
definition ACTIVATION_DELAY_EPOCHS :: u64 where "ACTIVATION_DELAY_EPOCHS = push_bit 6 1"
definition DIVIDEND_CLAIM_WINDOW :: u64 where "DIVIDEND_CLAIM_WINDOW = push_bit 16 1"
definition DIVIDEND_AWARD_INTERVAL :: u64 where "DIVIDEND_AWARD_INTERVAL = push_bit 17 1"
definition DIVIDEND_FRACTION_NUMERATOR :: u64 where "DIVIDEND_FRACTION_NUMERATOR = 1"
definition DIVIDEND_FRACTION_DENOMINATOR :: u64 where "DIVIDEND_FRACTION_DENOMINATOR = 2"

record LicenseTransferV1 =
  tr_license_id :: bytes
  tr_expected_owner_sequence :: u32
  tr_expected_mining_sequence :: u32
  tr_new_owner_public_key :: bytes
  tr_new_mining_public_key :: bytes
  tr_owner_signature :: bytes

definition LicenseTransferV1_unsigned_payload :: "LicenseTransferV1 \<Rightarrow> bytes" where
  "LicenseTransferV1_unsigned_payload s =
     (let out = tr_license_id s;
          out = write_u32_be out (tr_expected_owner_sequence s);
          out = write_u32_be out (tr_expected_mining_sequence s);
          out = out @ tr_new_owner_public_key s
      in out @ tr_new_mining_public_key s)"

definition LicenseTransferV1_signing_digest :: "(bytes \<Rightarrow> bytes) \<Rightarrow> LicenseTransferV1 \<Rightarrow> bytes" where
  "LicenseTransferV1_signing_digest H s =
     operation_signing_digest H OP_LICENSE_TRANSFER 1 (LicenseTransferV1_unsigned_payload s)"

definition LicenseTransferV1_operation :: "LicenseTransferV1 \<Rightarrow> ProtocolOperationV1" where
  "LicenseTransferV1_operation s =
     (let payload = LicenseTransferV1_unsigned_payload s @ tr_owner_signature s
      in \<lparr>op_op_type = OP_LICENSE_TRANSFER, op_op_version = 1, op_payload = payload\<rparr>)"

record HistoricalLicenseKeysV1 =
  hist_owner_public_key :: bytes
  hist_owner_key_sequence :: u32
  hist_mining_public_key :: bytes
  hist_mining_key_sequence :: u32

definition historical_keys :: "LicenseRecordV1 \<Rightarrow> HistoricalLicenseKeysV1" where
  "historical_keys record =
     \<lparr>hist_owner_public_key = lic_owner_public_key record,
      hist_owner_key_sequence = lic_owner_key_sequence record,
      hist_mining_public_key = lic_mining_public_key record,
      hist_mining_key_sequence = lic_mining_key_sequence record\<rparr>"

definition apply_license_transfer ::
    "(bytes \<Rightarrow> bytes) \<Rightarrow> 'k ed25519_lib \<Rightarrow> LicenseRecordV1 \<Rightarrow> LicenseTransferV1 \<Rightarrow>
     LicenseRecordV1 \<times> (ProtocolError + HistoricalLicenseKeysV1)" where
  "apply_license_transfer H E record transfer =
     (if lic_status record = LICENSE_STATUS_REVOKED then (record, Inl PrRevoked)
      else if lic_owner_key_sequence record \<noteq> tr_expected_owner_sequence transfer
      then (record, Inl PrStaleOwnerSequence)
      else if lic_mining_key_sequence record \<noteq> tr_expected_mining_sequence transfer
      then (record, Inl PrStaleMiningSequence)
      else case verify_owner_signature E (lic_owner_public_key record)
                  (LicenseTransferV1_signing_digest H transfer) (tr_owner_signature transfer) of
        Inl e \<Rightarrow> (record, Inl e)
      | Inr _ \<Rightarrow>
          let historical = historical_keys record;
              record = record\<lparr>lic_owner_public_key := tr_new_owner_public_key transfer\<rparr>;
              record = record\<lparr>lic_mining_public_key := tr_new_mining_public_key transfer\<rparr>
          in case checked_add (lic_owner_key_sequence record) 1 of
               None \<Rightarrow> (record, Inl PrOverflow)
             | Some s \<Rightarrow>
                 let record = record\<lparr>lic_owner_key_sequence := s\<rparr>
                 in case checked_add (lic_mining_key_sequence record) 1 of
                      None \<Rightarrow> (record, Inl PrOverflow)
                    | Some m \<Rightarrow> (record\<lparr>lic_mining_key_sequence := m\<rparr>, Inr historical))"

record MiningKeyRotateV1 =
  rot_license_id :: bytes
  rot_expected_owner_sequence :: u32
  rot_expected_mining_sequence :: u32
  rot_new_mining_public_key :: bytes
  rot_owner_signature :: bytes

definition MiningKeyRotateV1_unsigned_payload :: "MiningKeyRotateV1 \<Rightarrow> bytes" where
  "MiningKeyRotateV1_unsigned_payload s =
     (let out = rot_license_id s;
          out = write_u32_be out (rot_expected_owner_sequence s);
          out = write_u32_be out (rot_expected_mining_sequence s)
      in out @ rot_new_mining_public_key s)"

definition MiningKeyRotateV1_signing_digest :: "(bytes \<Rightarrow> bytes) \<Rightarrow> MiningKeyRotateV1 \<Rightarrow> bytes" where
  "MiningKeyRotateV1_signing_digest H s =
     operation_signing_digest H OP_LICENSE_MINING_KEY_ROTATE 1 (MiningKeyRotateV1_unsigned_payload s)"

definition MiningKeyRotateV1_operation :: "MiningKeyRotateV1 \<Rightarrow> ProtocolOperationV1" where
  "MiningKeyRotateV1_operation s =
     (let payload = MiningKeyRotateV1_unsigned_payload s @ rot_owner_signature s
      in \<lparr>op_op_type = OP_LICENSE_MINING_KEY_ROTATE, op_op_version = 1, op_payload = payload\<rparr>)"

definition apply_mining_key_rotation ::
    "(bytes \<Rightarrow> bytes) \<Rightarrow> 'k ed25519_lib \<Rightarrow> LicenseRecordV1 \<Rightarrow> MiningKeyRotateV1 \<Rightarrow>
     LicenseRecordV1 \<times> (ProtocolError + HistoricalLicenseKeysV1)" where
  "apply_mining_key_rotation H E record rotation =
     (if lic_status record = LICENSE_STATUS_REVOKED then (record, Inl PrRevoked)
      else if lic_owner_key_sequence record \<noteq> rot_expected_owner_sequence rotation
      then (record, Inl PrStaleOwnerSequence)
      else if lic_mining_key_sequence record \<noteq> rot_expected_mining_sequence rotation
      then (record, Inl PrStaleMiningSequence)
      else case verify_owner_signature E (lic_owner_public_key record)
                  (MiningKeyRotateV1_signing_digest H rotation) (rot_owner_signature rotation) of
        Inl e \<Rightarrow> (record, Inl e)
      | Inr _ \<Rightarrow>
          let historical = historical_keys record;
              record = record\<lparr>lic_mining_public_key := rot_new_mining_public_key rotation\<rparr>
          in case checked_add (lic_mining_key_sequence record) 1 of
               None \<Rightarrow> (record, Inl PrOverflow)
             | Some m \<Rightarrow> (record\<lparr>lic_mining_key_sequence := m\<rparr>, Inr historical))"

record MiningPresenceV1 =
  mp_network_id :: u32
  mp_genesis_id :: bytes
  mp_license_id :: bytes
  mp_expected_mining_sequence :: u32
  mp_presence_epoch :: u64
  mp_mining_signature :: bytes

definition MiningPresenceV1_unsigned_payload :: "MiningPresenceV1 \<Rightarrow> bytes" where
  "MiningPresenceV1_unsigned_payload s =
     (let out = write_u32_be [] (mp_network_id s);
          out = out @ mp_genesis_id s;
          out = out @ mp_license_id s;
          out = write_u32_be out (mp_expected_mining_sequence s)
      in write_u64_be out (mp_presence_epoch s))"

definition MiningPresenceV1_signing_digest :: "(bytes \<Rightarrow> bytes) \<Rightarrow> MiningPresenceV1 \<Rightarrow> bytes" where
  "MiningPresenceV1_signing_digest H s =
     operation_signing_digest H OP_MINING_PRESENCE 1 (MiningPresenceV1_unsigned_payload s)"

definition MiningPresenceV1_operation :: "MiningPresenceV1 \<Rightarrow> ProtocolOperationV1" where
  "MiningPresenceV1_operation s =
     (let payload = MiningPresenceV1_unsigned_payload s @ mp_mining_signature s
      in \<lparr>op_op_type = OP_MINING_PRESENCE, op_op_version = 1, op_payload = payload\<rparr>)"

definition MiningPresenceV1_decode_operation :: "ProtocolOperationV1 \<Rightarrow> ProtocolError + MiningPresenceV1" where
  "MiningPresenceV1_decode_operation op =
     (if op_op_type op \<noteq> OP_MINING_PRESENCE \<or> op_op_version op \<noteq> 1
         \<or> length (op_payload op) \<noteq> MINING_PRESENCE_FULL_LEN
      then Inl PrInvalidMiningPresence
      else
        let p = op_payload op
        in Inr \<lparr>mp_network_id = from_be_bytes (take 4 p),
               mp_genesis_id = take 32 (drop 4 p),
               mp_license_id = take 32 (drop 36 p),
               mp_expected_mining_sequence = from_be_bytes (take 4 (drop 68 p)),
               mp_presence_epoch = from_be_bytes (take 8 (drop 72 p)),
               mp_mining_signature = take 64 (drop 80 p)\<rparr>)"

definition MiningPresenceV1_verify_against ::
    "(bytes \<Rightarrow> bytes) \<Rightarrow> 'k ed25519_lib \<Rightarrow> MiningPresenceV1 \<Rightarrow> LicenseRecordV1 \<Rightarrow> u32 \<Rightarrow> bytes \<Rightarrow> u64 \<Rightarrow>
     ProtocolError + unit" where
  "MiningPresenceV1_verify_against H E s record expected_network_id expected_genesis_id block_epoch =
     (if \<not> pack_k_active expected_network_id expected_genesis_id block_epoch
      then Inl PrMiningPresenceInactive
      else if mp_network_id s \<noteq> expected_network_id then Inl PrMiningPresenceNetwork
      else if mp_genesis_id s \<noteq> expected_genesis_id then Inl PrMiningPresenceGenesis
      else if mp_presence_epoch s \<noteq> block_epoch then Inl PrMiningPresenceEpoch
      else if lic_status record = LICENSE_STATUS_REVOKED then Inl PrRevoked
      else if lic_mining_key_sequence record \<noteq> mp_expected_mining_sequence s
      then Inl PrStaleMiningSequence
      else verify_owner_signature E (lic_mining_public_key record)
             (MiningPresenceV1_signing_digest H s) (mp_mining_signature s))"

record PunishmentEvidenceV1 =
  pe_offense_type :: u16
  pe_accused_license_id :: bytes
  pe_evidence :: bytes

definition canonical_evidence :: "PunishmentEvidenceV1 \<Rightarrow> bytes" where
  "canonical_evidence s =
     (let out = write_u16_be [] (pe_offense_type s);
          out = out @ pe_accused_license_id s;
          out = write_varuint out (of_nat (length (pe_evidence s)))
      in out @ pe_evidence s)"

definition evidence_id :: "(bytes \<Rightarrow> bytes) \<Rightarrow> PunishmentEvidenceV1 \<Rightarrow> bytes" where
  "evidence_id H s = sha256_domain H PUNISHMENT_EVIDENCE_ID [canonical_evidence s]"

definition PunishmentEvidenceV1_operation :: "PunishmentEvidenceV1 \<Rightarrow> ProtocolOperationV1" where
  "PunishmentEvidenceV1_operation s =
     \<lparr>op_op_type = OP_PUNISHMENT_EVIDENCE, op_op_version = 1, op_payload = canonical_evidence s\<rparr>"

record OffenseApplicationV1 =
  oa_new_strike_weight :: u8
  oa_suspended_until_epoch :: u64
  oa_offense_expiry_epoch :: u64
  oa_revoked :: bool

definition offense_weight :: "u16 \<Rightarrow> ProtocolError + u8" where
  "offense_weight offense_type =
     (if offense_type = OFFENSE_INVALID_SIGNED_WORK then Inr 1
      else if offense_type = OFFENSE_LICENSE_STATE_EQUIVOCATION then Inr 2
      else if offense_type = OFFENSE_SAME_TICKET_EQUIVOCATION then Inr 4
      else Inl PrBadOffenseWeight)"

text \<open>Every error of \<open>apply_offense\<close> is returned before the record is written.\<close>

definition apply_offense ::
    "LicenseRecordV1 \<Rightarrow> u16 \<Rightarrow> u64 \<Rightarrow> LicenseRecordV1 \<times> (ProtocolError + OffenseApplicationV1)" where
  "apply_offense record offense_type applied_epoch =
     (if lic_status record = LICENSE_STATUS_REVOKED then (record, Inl PrRevoked)
      else case offense_weight offense_type of
        Inl e \<Rightarrow> (record, Inl e)
      | Inr weight \<Rightarrow>
        (case checked_add (lic_strike_weight record) weight of
           None \<Rightarrow> (record, Inl PrOverflow)
         | Some new_weight \<Rightarrow>
        (case checked_add applied_epoch STRIKE_DECAY_EPOCHS of
           None \<Rightarrow> (record, Inl PrOverflow)
         | Some expiry \<Rightarrow>
             if new_weight \<ge> REVOCATION_THRESHOLD then
               (record\<lparr>lic_strike_weight := REVOCATION_THRESHOLD, lic_status := LICENSE_STATUS_REVOKED,
                       lic_revocation_epoch := applied_epoch\<rparr>,
                Inr \<lparr>oa_new_strike_weight = REVOCATION_THRESHOLD,
                     oa_suspended_until_epoch = lic_suspended_until_epoch record,
                     oa_offense_expiry_epoch = expiry, oa_revoked = True\<rparr>)
             else
               let exponent = 5 + unat new_weight
               in case checked_shl (1 :: u64) exponent of
                    None \<Rightarrow> (record, Inl PrOverflow)
                  | Some timeout \<Rightarrow>
                      let base = max (lic_suspended_until_epoch record) applied_epoch
                      in case checked_add base timeout of
                           None \<Rightarrow> (record, Inl PrOverflow)
                         | Some suspended_until \<Rightarrow>
                             (record\<lparr>lic_strike_weight := new_weight,
                                     lic_suspended_until_epoch := suspended_until\<rparr>,
                              Inr \<lparr>oa_new_strike_weight = new_weight,
                                   oa_suspended_until_epoch = suspended_until,
                                   oa_offense_expiry_epoch = expiry, oa_revoked = False\<rparr>))))"

record DividendAwardCalculationV1 =
  dac_available_before :: u64
  dac_dividend_pool :: u64
  dac_eligible_licenses :: u64
  dac_per_license_strikes :: u64
  dac_total_reserved_strikes :: u64
  dac_undistributed_remainder_strikes :: u64

definition calculate_dividend_award :: "u64 \<Rightarrow> u64 \<Rightarrow> ProtocolError + DividendAwardCalculationV1" where
  "calculate_dividend_award available_strikes eligible_licenses =
     rbind (ok_or PrOverflow (checked_mul available_strikes DIVIDEND_FRACTION_NUMERATOR)) (\<lambda>product.
     let dividend_pool = product div DIVIDEND_FRACTION_DENOMINATOR;
         per_license_strikes = (if eligible_licenses = 0 then 0 else dividend_pool div eligible_licenses)
     in rbind (ok_or PrOverflow (checked_mul per_license_strikes eligible_licenses)) (\<lambda>total_reserved_strikes.
        rbind (ok_or PrOverflow (checked_sub dividend_pool total_reserved_strikes)) (\<lambda>remainder.
          Inr \<lparr>dac_available_before = available_strikes, dac_dividend_pool = dividend_pool,
               dac_eligible_licenses = eligible_licenses, dac_per_license_strikes = per_license_strikes,
               dac_total_reserved_strikes = total_reserved_strikes,
               dac_undistributed_remainder_strikes = remainder\<rparr>)))"

record DividendClaimV1 =
  dc_license_id :: bytes
  dc_expected_owner_sequence :: u32
  dc_amount_strikes :: u64
  dc_destination_address_id :: bytes
  dc_payment_txid :: bytes
  dc_owner_signature :: bytes

definition DividendClaimV1_unsigned_payload :: "DividendClaimV1 \<Rightarrow> bytes" where
  "DividendClaimV1_unsigned_payload s =
     (let out = dc_license_id s;
          out = write_u32_be out (dc_expected_owner_sequence s);
          out = write_u64_be out (dc_amount_strikes s);
          out = out @ dc_destination_address_id s
      in out @ dc_payment_txid s)"

definition DividendClaimV1_signing_digest :: "(bytes \<Rightarrow> bytes) \<Rightarrow> DividendClaimV1 \<Rightarrow> bytes" where
  "DividendClaimV1_signing_digest H s =
     operation_signing_digest H OP_DIVIDEND_CLAIM 1 (DividendClaimV1_unsigned_payload s)"

definition DividendClaimV1_operation :: "DividendClaimV1 \<Rightarrow> ProtocolOperationV1" where
  "DividendClaimV1_operation s =
     (let payload = DividendClaimV1_unsigned_payload s @ dc_owner_signature s
      in \<lparr>op_op_type = OP_DIVIDEND_CLAIM, op_op_version = 1, op_payload = payload\<rparr>)"

definition apply_dividend_claim ::
    "(bytes \<Rightarrow> bytes) \<Rightarrow> 'k ed25519_lib \<Rightarrow> LicenseRecordV1 \<Rightarrow> LicenseDividendAccountV1 \<Rightarrow> TreasuryStateV1 \<Rightarrow>
     DividendClaimV1 \<Rightarrow> u64 \<Rightarrow> (LicenseDividendAccountV1 \<times> TreasuryStateV1) \<times> (ProtocolError + unit)" where
  "apply_dividend_claim H E record account treasury claim block_epoch =
     (if lic_status record = LICENSE_STATUS_REVOKED then ((account, treasury), Inl PrRevoked)
      else if lic_owner_key_sequence record \<noteq> dc_expected_owner_sequence claim
      then ((account, treasury), Inl PrStaleOwnerSequence)
      else if div_license_id account \<noteq> dc_license_id claim
              \<or> block_epoch < div_award_epoch account
              \<or> block_epoch \<ge> div_claim_deadline_epoch account
      then ((account, treasury), Inl PrDividendExpired)
      else if dc_amount_strikes claim = 0 \<or> dc_amount_strikes claim > div_claimable_strikes account
      then ((account, treasury), Inl PrDividendOverdraw)
      else case verify_owner_signature E (lic_owner_public_key record)
                  (DividendClaimV1_signing_digest H claim) (dc_owner_signature claim) of
        Inl e \<Rightarrow> ((account, treasury), Inl e)
      | Inr _ \<Rightarrow>
          let account = account\<lparr>div_claimable_strikes := div_claimable_strikes account - dc_amount_strikes claim\<rparr>
          in case checked_sub (tre_reserved_dividend_strikes treasury) (dc_amount_strikes claim) of
               None \<Rightarrow> ((account, treasury), Inl PrTreasuryUnderflow)
             | Some r \<Rightarrow> ((account, treasury\<lparr>tre_reserved_dividend_strikes := r\<rparr>), Inr ()))"

section \<open>Owner operations\<close>

lemmas license_status_defs = LICENSE_STATUS_PENDING_def LICENSE_STATUS_ACTIVE_def LICENSE_STATUS_REVOKED_def

definition signed_by :: "'k ed25519_lib \<Rightarrow> bytes \<Rightarrow> bytes \<Rightarrow> bytes \<Rightarrow> bool" where
  "signed_by E pk digest sig \<longleftrightarrow> (\<exists>k. vk_from_bytes E pk = Some k \<and> vk_verify E k digest sig)"

lemma verify_owner_signature_iff [simp]:
  "verify_owner_signature E pk d s = Inr u \<longleftrightarrow> signed_by E pk d s"
  by (auto simp: verify_owner_signature_def signed_by_def)

lemma verify_owner_signature_cases:
  "verify_owner_signature E pk d s = (if signed_by E pk d s then Inr () else Inl PrInvalidSignature)"
  by (cases "vk_from_bytes E pk") (auto simp: verify_owner_signature_def signed_by_def)

definition u32_max :: u32 where "u32_max = 0xFFFFFFFF"

lemma checked_inc32:
  "checked_add (w :: u32) 1 = (if w = u32_max then None else Some (w + 1))"
proof -
  have "unat w + 1 < 2 ^ 32 \<longleftrightarrow> w \<noteq> u32_max"
  proof
    show "unat w + 1 < 2 ^ 32 \<Longrightarrow> w \<noteq> u32_max"
      by (auto simp: u32_max_def)
    show "w \<noteq> u32_max \<Longrightarrow> unat w + 1 < 2 ^ 32"
      using unat_less_2p [of w] by (auto simp: word_unat_eq_iff u32_max_def)
  qed
  then show ?thesis
    by (simp add: checked_add_def)
qed

lemma unat_inc32: "(w :: u32) \<noteq> u32_max \<Longrightarrow> unat (w + 1) = unat w + 1"
  using checked_inc32 [of w] checked_add_Some_iff [of w 1 "w + 1"] by simp

lemma apply_license_transfer_iff:
  "apply_license_transfer H E r t = (r', Inr h) \<longleftrightarrow>
     lic_status r \<noteq> LICENSE_STATUS_REVOKED \<and>
     lic_owner_key_sequence r = tr_expected_owner_sequence t \<and>
     lic_mining_key_sequence r = tr_expected_mining_sequence t \<and>
     signed_by E (lic_owner_public_key r) (LicenseTransferV1_signing_digest H t) (tr_owner_signature t) \<and>
     lic_owner_key_sequence r \<noteq> u32_max \<and> lic_mining_key_sequence r \<noteq> u32_max \<and>
     r' = r\<lparr>lic_owner_public_key := tr_new_owner_public_key t,
            lic_mining_public_key := tr_new_mining_public_key t,
            lic_owner_key_sequence := lic_owner_key_sequence r + 1,
            lic_mining_key_sequence := lic_mining_key_sequence r + 1\<rparr> \<and>
     h = historical_keys r"
  by (auto simp: apply_license_transfer_def verify_owner_signature_cases Let_def checked_inc32 split: if_splits)

lemma apply_mining_key_rotation_iff:
  "apply_mining_key_rotation H E r t = (r', Inr h) \<longleftrightarrow>
     lic_status r \<noteq> LICENSE_STATUS_REVOKED \<and>
     lic_owner_key_sequence r = rot_expected_owner_sequence t \<and>
     lic_mining_key_sequence r = rot_expected_mining_sequence t \<and>
     signed_by E (lic_owner_public_key r) (MiningKeyRotateV1_signing_digest H t) (rot_owner_signature t) \<and>
     lic_mining_key_sequence r \<noteq> u32_max \<and>
     r' = r\<lparr>lic_mining_public_key := rot_new_mining_public_key t,
            lic_mining_key_sequence := lic_mining_key_sequence r + 1\<rparr> \<and>
     h = historical_keys r"
  by (auto simp: apply_mining_key_rotation_def verify_owner_signature_cases Let_def checked_inc32 split: if_splits)

lemma apply_license_transfer_stale:
  "lic_mining_key_sequence r \<noteq> tr_expected_mining_sequence t \<Longrightarrow>
     \<exists>e. apply_license_transfer H E r t = (r, Inl e)"
  by (auto simp: apply_license_transfer_def)

lemma apply_mining_key_rotation_stale:
  "lic_mining_key_sequence r \<noteq> rot_expected_mining_sequence t \<Longrightarrow>
     \<exists>e. apply_mining_key_rotation H E r t = (r, Inl e)"
  by (auto simp: apply_mining_key_rotation_def)

section \<open>Offences\<close>

lemma offense_weight_iff:
  "offense_weight ty = Inr w \<longleftrightarrow>
     ty = OFFENSE_INVALID_SIGNED_WORK \<and> w = 1 \<or>
     ty = OFFENSE_LICENSE_STATE_EQUIVOCATION \<and> w = 2 \<or>
     ty = OFFENSE_SAME_TICKET_EQUIVOCATION \<and> w = 4"
  by (auto simp: offense_weight_def OFFENSE_INVALID_SIGNED_WORK_def OFFENSE_LICENSE_STATE_EQUIVOCATION_def
      OFFENSE_SAME_TICKET_EQUIVOCATION_def)

lemma apply_offense_cases:
  assumes "apply_offense r ty ep = (r', Inr a)"
  obtains (revoked) w where "lic_status r \<noteq> LICENSE_STATUS_REVOKED" and "offense_weight ty = Inr w"
      and "16 \<le> unat (lic_strike_weight r) + unat w"
      and "r' = r\<lparr>lic_strike_weight := 16, lic_status := LICENSE_STATUS_REVOKED, lic_revocation_epoch := ep\<rparr>"
  | (suspended) w u where "lic_status r \<noteq> LICENSE_STATUS_REVOKED" and "offense_weight ty = Inr w"
      and "unat (lic_strike_weight r) + unat w < 16"
      and "unat u = unat (max (lic_suspended_until_epoch r) ep) + 2 ^ (5 + unat (lic_strike_weight r) + unat w)"
      and "r' = r\<lparr>lic_strike_weight := lic_strike_weight r + w, lic_suspended_until_epoch := u\<rparr>"
proof -
  obtain w nw x where nr: "lic_status r \<noteq> LICENSE_STATUS_REVOKED" and w: "offense_weight ty = Inr w"
    and nw: "checked_add (lic_strike_weight r) w = Some nw" and x: "checked_add ep STRIKE_DECAY_EPOCHS = Some x"
    using assms by (auto simp: apply_offense_def split: if_splits sum.splits option.splits)
  have nw': "nw = lic_strike_weight r + w" "unat nw = unat (lic_strike_weight r) + unat w"
    using nw by (auto simp: checked_add_def checked_add_Some_iff unat_word_ariths split: if_splits)
  show thesis
  proof (cases "nw \<ge> REVOCATION_THRESHOLD")
    case True
    show thesis
    proof (rule revoked [OF nr w])
      show "16 \<le> unat (lic_strike_weight r) + unat w"
        using True nw'(2) by (simp add: REVOCATION_THRESHOLD_def word_le_nat_alt)
      show "r' = r\<lparr>lic_strike_weight := 16, lic_status := LICENSE_STATUS_REVOKED, lic_revocation_epoch := ep\<rparr>"
        using assms nr w nw x True by (simp add: apply_offense_def REVOCATION_THRESHOLD_def)
    qed
  next
    case False
    then have small: "unat nw < 16"
      by (simp add: REVOCATION_THRESHOLD_def word_le_nat_alt)
    then have shl: "checked_shl (1 :: u64) (5 + unat nw) = Some (push_bit (5 + unat nw) 1)"
      by (simp add: checked_shl_def)
    have "push_bit (5 + unat nw) (1 :: u64) = word_of_nat (2 ^ (5 + unat nw))"
      by (simp add: push_bit_eq_mult)
    moreover have "(2 :: nat) ^ (5 + unat nw) < 2 ^ 64"
      using small by (intro power_strict_increasing) simp_all
    ultimately have "unat (push_bit (5 + unat nw) (1 :: u64)) = 2 ^ (5 + unat nw)"
      by (simp only: unat_of_nat) simp
    then show thesis
      using assms nr w nw x False shl small
      by (auto simp: apply_offense_def Let_def checked_add_Some_iff nw' add.assoc split: option.splits if_splits
          intro!: suspended [OF nr w])
  qed
qed

lemma apply_offense_error_unchanged: "apply_offense r ty ep = (r', Inl e) \<Longrightarrow> r' = r"
  by (auto simp: apply_offense_def Let_def split: if_splits sum.splits option.splits)

section \<open>The life of a licence\<close>

text \<open>
  One step of a licence record is a successful transfer, a successful mining-key rotation or an
  applied offence, with arbitrary messages.
\<close>

inductive license_step ::
    "(bytes \<Rightarrow> bytes) \<Rightarrow> 'k ed25519_lib \<Rightarrow> LicenseRecordV1 \<Rightarrow> LicenseRecordV1 \<Rightarrow> bool"
  for H :: "bytes \<Rightarrow> bytes" and E :: "'k ed25519_lib" where
  transfer: "apply_license_transfer H E r t = (r', Inr h) \<Longrightarrow> license_step H E r r'"
| rotate: "apply_mining_key_rotation H E r k = (r', Inr h) \<Longrightarrow> license_step H E r r'"
| offense: "apply_offense r ty ep = (r', Inr a) \<Longrightarrow> license_step H E r r'"

inductive offense_step :: "LicenseRecordV1 \<Rightarrow> LicenseRecordV1 \<Rightarrow> bool" where
  "apply_offense r ty ep = (r', Inr a) \<Longrightarrow> offense_step r r'"

text \<open>
  The record invariant: the record is one that the state accepts, and it is revoked exactly when
  its strike weight has reached the threshold.
\<close>

definition license_ok :: "LicenseRecordV1 \<Rightarrow> bool" where
  "license_ok r \<longleftrightarrow> LicenseRecordV1_validate r = Inr () \<and>
     (lic_status r = LICENSE_STATUS_REVOKED \<longleftrightarrow> lic_strike_weight r = REVOCATION_THRESHOLD)"

lemma license_ok_weight: "license_ok r \<Longrightarrow> lic_status r \<noteq> LICENSE_STATUS_REVOKED \<Longrightarrow> unat (lic_strike_weight r) < 16"
  by (auto simp: license_ok_def LicenseRecordV1_validate_def REVOCATION_THRESHOLD_def word_unat_eq_iff word_le_nat_alt
      word_less_nat_alt split: if_splits)

lemma offense_weight_bounds: "offense_weight ty = Inr w \<Longrightarrow> 1 \<le> unat w \<and> unat w \<le> 4"
  by (auto simp: offense_weight_iff)

lemma unat_add_weight: "unat (a :: u8) + unat b < 16 \<Longrightarrow> unat (a + b) = unat a + unat b"
  by (simp add: unat_word_ariths)

lemma apply_offense_ok: "apply_offense r ty ep = (r', Inr a) \<Longrightarrow> license_ok r \<Longrightarrow> license_ok r'"
proof (erule apply_offense_cases)
  fix w assume "license_ok r" and "r' = r\<lparr>lic_strike_weight := 16, lic_status := LICENSE_STATUS_REVOKED, lic_revocation_epoch := ep\<rparr>"
  then show "license_ok r'"
    by (auto simp: license_ok_def LicenseRecordV1_validate_def REVOCATION_THRESHOLD_def split: if_splits)
next
  fix w u assume "license_ok r" "lic_status r \<noteq> LICENSE_STATUS_REVOKED"
    and w: "unat (lic_strike_weight r) + unat w < 16"
    and "r' = r\<lparr>lic_strike_weight := lic_strike_weight r + w, lic_suspended_until_epoch := u\<rparr>"
  then show "license_ok r'"
    by (auto simp: license_ok_def LicenseRecordV1_validate_def REVOCATION_THRESHOLD_def word_unat_eq_iff word_le_nat_alt
        word_less_nat_alt unat_add_weight [OF w] split: if_splits)
qed

lemma license_step_ok: "license_step H E r r' \<Longrightarrow> license_ok r \<Longrightarrow> license_ok r'"
proof (induction rule: license_step.induct)
  case (offense r ty ep r' a)
  then show ?case
    by (rule apply_offense_ok)
qed (simp_all add: apply_license_transfer_iff apply_mining_key_rotation_iff license_ok_def LicenseRecordV1_validate_def)

definition strikes_left :: "LicenseRecordV1 \<Rightarrow> nat" where
  "strikes_left r = 16 - unat (lic_strike_weight r)"

lemma apply_offense_rank:
  "apply_offense r ty ep = (r', Inr a) \<Longrightarrow> license_ok r \<Longrightarrow> strikes_left r' < strikes_left r"
proof (erule apply_offense_cases)
  assume "license_ok r" "lic_status r \<noteq> LICENSE_STATUS_REVOKED"
    and "r' = r\<lparr>lic_strike_weight := 16, lic_status := LICENSE_STATUS_REVOKED, lic_revocation_epoch := ep\<rparr>"
  then show "strikes_left r' < strikes_left r"
    using license_ok_weight [of r] by (simp add: strikes_left_def)
next
  fix w u assume "offense_weight ty = Inr w" "unat (lic_strike_weight r) + unat w < 16"
    and "r' = r\<lparr>lic_strike_weight := lic_strike_weight r + w, lic_suspended_until_epoch := u\<rparr>"
  then show "strikes_left r' < strikes_left r"
    using offense_weight_bounds [of ty w] by (auto simp: strikes_left_def unat_add_weight)
qed

interpretation lic: step_invariant "license_step H E" license_ok
  by unfold_locales (rule license_step_ok)

interpretation off: ranked_steps offense_step license_ok strikes_left
  by unfold_locales (auto elim: offense_step.cases intro: apply_offense_ok apply_offense_rank)

text \<open>Key sequences only grow, and what a licence was issued with never changes.\<close>

definition issued_as :: "LicenseRecordV1 \<Rightarrow> u16 \<times> u8 \<times> bytes \<times> u64 \<times> u64" where
  "issued_as r = (lic_version r, lic_purchase_method r, lic_purchase_id r, lic_issued_epoch r, lic_activation_epoch r)"

lemma license_step_seq:
  "license_step H E r r' \<Longrightarrow>
     unat (lic_owner_key_sequence r) \<le> unat (lic_owner_key_sequence r') \<and>
     unat (lic_mining_key_sequence r) \<le> unat (lic_mining_key_sequence r') \<and>
     issued_as r' = issued_as r"
  by (erule license_step.cases)
    (auto simp: apply_license_transfer_iff apply_mining_key_rotation_iff unat_inc32 issued_as_def
      elim: apply_offense_cases)

lemma license_run_seq:
  "(license_step H E)\<^sup>*\<^sup>* r r' \<Longrightarrow>
     unat (lic_owner_key_sequence r) \<le> unat (lic_owner_key_sequence r') \<and>
     unat (lic_mining_key_sequence r) \<le> unat (lic_mining_key_sequence r') \<and>
     issued_as r' = issued_as r"
  by (induction rule: rtranclp_induct) (auto dest: license_step_seq)

lemma revoked_no_step: "license_step H E r r' \<Longrightarrow> lic_status r \<noteq> LICENSE_STATUS_REVOKED"
  by (erule license_step.cases)
    (auto simp: apply_license_transfer_iff apply_mining_key_rotation_iff elim: apply_offense_cases)

section \<open>Dividends\<close>

lemma calculate_dividend_award_total:
  "\<exists>c. calculate_dividend_award a n = Inr c \<and>
     unat (dac_dividend_pool c) = unat a div 2 \<and>
     unat (dac_per_license_strikes c) = (if n = 0 then 0 else unat a div 2 div unat n) \<and>
     unat (dac_total_reserved_strikes c) = unat (dac_per_license_strikes c) * unat n \<and>
     unat (dac_total_reserved_strikes c) + unat (dac_undistributed_remainder_strikes c) = unat a div 2"
proof -
  define p where "p = a div 2"
  have up: "unat p = unat a div 2"
    by (simp add: p_def unat_div)
  define q where "q = (if n = 0 then 0 else p div n)"
  have uq: "unat q = (if n = 0 then 0 else unat p div unat n)"
    by (simp add: q_def unat_div)
  have le: "unat q * unat n \<le> unat p"
    by (simp add: uq)
  then have "unat q * unat n < 2 ^ 64"
    using unat_less_2p [of p] by simp
  then obtain t where t: "checked_mul q n = Some t" "unat t = unat q * unat n"
    by (auto simp: checked_mul_def unat_word_ariths)
  have m: "checked_mul a 1 = Some a"
    using unat_less_2p [of a] by (simp add: checked_mul_def)
  have "t \<le> p"
    using le t(2) by (simp add: word_le_nat_alt)
  then have s: "checked_sub p t = Some (p - t)" and us: "unat (p - t) = unat p - unat t"
    by (simp_all add: checked_sub_def unat_sub)
  have "calculate_dividend_award a n =
      Inr \<lparr>dac_available_before = a, dac_dividend_pool = p, dac_eligible_licenses = n,
           dac_per_license_strikes = q, dac_total_reserved_strikes = t, dac_undistributed_remainder_strikes = p - t\<rparr>"
    by (simp only: calculate_dividend_award_def DIVIDEND_FRACTION_NUMERATOR_def DIVIDEND_FRACTION_DENOMINATOR_def
        Let_def m ok_or_simps rbind_simps p_def [symmetric] q_def [symmetric] t s)
  then show ?thesis
    using t us le up uq by simp
qed

lemma apply_dividend_claim_iff:
  "apply_dividend_claim H E r acc tre c ep = ((acc', tre'), Inr u) \<longleftrightarrow>
     lic_status r \<noteq> LICENSE_STATUS_REVOKED \<and> lic_owner_key_sequence r = dc_expected_owner_sequence c \<and>
     div_license_id acc = dc_license_id c \<and> div_award_epoch acc \<le> ep \<and> ep < div_claim_deadline_epoch acc \<and>
     0 < dc_amount_strikes c \<and> dc_amount_strikes c \<le> div_claimable_strikes acc \<and>
     signed_by E (lic_owner_public_key r) (DividendClaimV1_signing_digest H c) (dc_owner_signature c) \<and>
     dc_amount_strikes c \<le> tre_reserved_dividend_strikes tre \<and>
     acc' = acc\<lparr>div_claimable_strikes := div_claimable_strikes acc - dc_amount_strikes c\<rparr> \<and>
     tre' = tre\<lparr>tre_reserved_dividend_strikes := tre_reserved_dividend_strikes tre - dc_amount_strikes c\<rparr>"
  by (auto simp: apply_dividend_claim_def verify_owner_signature_cases Let_def checked_sub_def word_neq_0_conv
      not_le not_less split: if_splits)

section \<open>Mining presence\<close>

definition wf_presence :: "MiningPresenceV1 \<Rightarrow> bool" where
  "wf_presence p \<longleftrightarrow> arr 32 (mp_genesis_id p) \<and> arr 32 (mp_license_id p) \<and> arr 64 (mp_mining_signature p)"

lemma MiningPresenceV1_decode_iff:
  "MiningPresenceV1_decode_operation op = Inr p \<longleftrightarrow> wf_presence p \<and> op = MiningPresenceV1_operation p"
proof
  assume d: "MiningPresenceV1_decode_operation op = Inr p"
  let ?p = "op_payload op"
  have len: "length ?p = 144" and ty: "op_op_type op = OP_MINING_PRESENCE" "op_op_version op = 1"
    and p: "p = \<lparr>mp_network_id = from_be_bytes (take 4 ?p), mp_genesis_id = take 32 (drop 4 ?p),
               mp_license_id = take 32 (drop 36 ?p), mp_expected_mining_sequence = from_be_bytes (take 4 (drop 68 ?p)),
               mp_presence_epoch = from_be_bytes (take 8 (drop 72 ?p)), mp_mining_signature = take 64 (drop 80 ?p)\<rparr>"
    using d by (auto simp: MiningPresenceV1_decode_operation_def MINING_PRESENCE_FULL_LEN_def Let_def split: if_splits)
  have cut: "take n xs @ take k (drop n xs) = take (n + k) xs" for n k :: nat and xs :: bytes
    by (simp add: take_add)
  have "take 4 ?p @ take 32 (drop 4 ?p) @ take 32 (drop 36 ?p) @ take 4 (drop 68 ?p) @ take 8 (drop 72 ?p) @ take 64 (drop 80 ?p) = ?p"
    using len by (simp add: append_assoc [symmetric] cut del: append_assoc)
  then have "MiningPresenceV1_unsigned_payload p @ mp_mining_signature p = ?p"
    using len by (simp add: p MiningPresenceV1_unsigned_payload_def Let_def to_from_be_bytes)
  then show "wf_presence p \<and> op = MiningPresenceV1_operation p"
    using ty len by (simp add: MiningPresenceV1_operation_def wf_presence_def p)
next
  assume a: "wf_presence p \<and> op = MiningPresenceV1_operation p"
  then show "MiningPresenceV1_decode_operation op = Inr p"
    by (cases p) (simp add: MiningPresenceV1_decode_operation_def MiningPresenceV1_operation_def Let_def wf_presence_def
        MiningPresenceV1_unsigned_payload_def MINING_PRESENCE_FULL_LEN_def from_to_be_bytes)
qed

section \<open>Properties\<close>

text \<open>C21. A licence transfer is exact: it succeeds if and only if the licence is not revoked, both
  expected sequences are current and below the maximum, and the current owner has signed; then both
  keys are replaced, both sequences advance by one, nothing else changes and the previous keys are
  returned.\<close>

theorem license_transfer_exact:
  "apply_license_transfer H E r t = (r', Inr h) \<longleftrightarrow>
     lic_status r \<noteq> LICENSE_STATUS_REVOKED \<and>
     lic_owner_key_sequence r = tr_expected_owner_sequence t \<and>
     lic_mining_key_sequence r = tr_expected_mining_sequence t \<and>
     signed_by E (lic_owner_public_key r) (LicenseTransferV1_signing_digest H t) (tr_owner_signature t) \<and>
     lic_owner_key_sequence r \<noteq> u32_max \<and> lic_mining_key_sequence r \<noteq> u32_max \<and>
     r' = r\<lparr>lic_owner_public_key := tr_new_owner_public_key t,
            lic_mining_public_key := tr_new_mining_public_key t,
            lic_owner_key_sequence := lic_owner_key_sequence r + 1,
            lic_mining_key_sequence := lic_mining_key_sequence r + 1\<rparr> \<and>
     h = historical_keys r"
  by (rule apply_license_transfer_iff)

text \<open>C11. Owner operations cannot be replayed: once a transfer or a rotation has been applied, the
  same message is refused, and changes nothing, on every later state of the licence, whatever
  transfers, rotations and offences happened in between.\<close>

theorem owner_operations_never_replay:
  assumes "(license_step H E)\<^sup>*\<^sup>* r' s"
  shows "(apply_license_transfer H E r t = (r', Inr h) \<longrightarrow> (\<exists>e. apply_license_transfer H E s t = (s, Inl e))) \<and>
    (apply_mining_key_rotation H E r k = (r', Inr h) \<longrightarrow> (\<exists>e. apply_mining_key_rotation H E s k = (s, Inl e)))"
  using license_run_seq [OF assms]
  by (auto simp: apply_license_transfer_iff apply_mining_key_rotation_iff unat_inc32
      intro!: apply_license_transfer_stale apply_mining_key_rotation_stale)

definition sample_transfer :: LicenseTransferV1 where
  "sample_transfer = \<lparr>tr_license_id = replicate 32 7, tr_expected_owner_sequence = 0, tr_expected_mining_sequence = 0,
     tr_new_owner_public_key = replicate 32 4, tr_new_mining_public_key = replicate 32 5,
     tr_owner_signature = replicate 32 2 @ LicenseTransferV1_signing_digest tail_hash
       \<lparr>tr_license_id = replicate 32 7, tr_expected_owner_sequence = 0, tr_expected_mining_sequence = 0,
        tr_new_owner_public_key = replicate 32 4, tr_new_mining_public_key = replicate 32 5, tr_owner_signature = []\<rparr>\<rparr>"

lemma sample_transfer_signed:
  "signed_by toy_ed25519 (lic_owner_public_key (sample_license w))
     (LicenseTransferV1_signing_digest tail_hash sample_transfer) (tr_owner_signature sample_transfer)"
  by (simp add: signed_by_def toy_ed25519_def sample_license_def sample_transfer_def
      LicenseTransferV1_signing_digest_def LicenseTransferV1_unsigned_payload_def)

lemma sample_transfer_applies:
  "\<exists>r' h. apply_license_transfer tail_hash toy_ed25519 (sample_license w) sample_transfer = (r', Inr h) \<and>
     lic_owner_public_key r' = replicate 32 4"
  unfolding apply_license_transfer_iff using sample_transfer_signed [of w]
  by (simp add: u32_max_def) (simp add: sample_license_def sample_transfer_def LICENSE_STATUS_REVOKED_def)

theorem owner_operations_never_replay_witness:
  "\<exists>r' h. apply_license_transfer tail_hash toy_ed25519 (sample_license 0) sample_transfer = (r', Inr h) \<and>
     (\<exists>e. apply_license_transfer tail_hash toy_ed25519 r' sample_transfer = (r', Inl e))"
  using sample_transfer_applies [of 0] owner_operations_never_replay [OF rtranclp.rtrancl_refl] by blast

text \<open>C5. A licence record stays valid for its whole life: after any run of transfers, rotations and
  offences it is one the state accepts, it is revoked exactly when its strike weight is at the
  threshold, and what it was issued with has not changed; a revoked licence admits no step.\<close>

theorem license_life_invariant:
  assumes "(license_step H E)\<^sup>*\<^sup>* r s" and "license_ok r"
  shows "license_ok s \<and> issued_as s = issued_as r \<and>
    (lic_status s = LICENSE_STATUS_REVOKED \<longrightarrow> (\<nexists>s'. license_step H E s s'))"
  using lic.inv_run [OF assms] license_run_seq [OF assms(1)] revoked_no_step by metis

text \<open>Punishment reaches revocation: at most sixteen offences can be applied to a valid licence, and
  as many as its strikes left only if the licence is revoked at the end.\<close>

theorem offenses_reach_revocation:
  assumes "(offense_step ^^ n) r s" and "license_ok r"
  shows "n \<le> 16 - unat (lic_strike_weight r) \<and>
    (n = 16 - unat (lic_strike_weight r) \<longrightarrow> lic_status s = LICENSE_STATUS_REVOKED)"
proof -
  have b: "n + strikes_left s \<le> strikes_left r" and ok: "license_ok s"
    using off.run_bounded [OF assms] off.inv_run [OF relpowp_imp_rtranclp [OF assms(1)] assms(2)] by simp_all
  have "lic_status s = LICENSE_STATUS_REVOKED" if "n = strikes_left r"
  proof (rule ccontr)
    assume "lic_status s \<noteq> LICENSE_STATUS_REVOKED"
    then have "0 < strikes_left s"
      using license_ok_weight [OF ok] by (simp add: strikes_left_def)
    then show False
      using b that by simp
  qed
  then show ?thesis
    using b unfolding strikes_left_def by linarith
qed

lemma sample_license_ok: "license_ok (sample_license 13)"
  by (simp add: license_ok_def sample_license_def LicenseRecordV1_validate_def license_status_defs PURCHASE_METHOD_BTC_def
      REVOCATION_THRESHOLD_def)

lemma sample_offense:
  "offense_step (sample_license 13)
     ((sample_license 13)\<lparr>lic_strike_weight := 16, lic_status := LICENSE_STATUS_REVOKED, lic_revocation_epoch := 70\<rparr>)"
  by (rule offense_step.intros [of _ OFFENSE_SAME_TICKET_EQUIVOCATION 70])
    (simp add: apply_offense_def offense_weight_def sample_license_def license_status_defs REVOCATION_THRESHOLD_def
      OFFENSE_INVALID_SIGNED_WORK_def OFFENSE_LICENSE_STATE_EQUIVOCATION_def OFFENSE_SAME_TICKET_EQUIVOCATION_def
      checked_add_def STRIKE_DECAY_EPOCHS_def)

theorem license_life_invariant_witness:
  "\<exists>s. (license_step tail_hash toy_ed25519)\<^sup>*\<^sup>* (sample_license 13) s \<and> license_ok s \<and>
     lic_status s = LICENSE_STATUS_REVOKED \<and> (\<nexists>s'. license_step tail_hash toy_ed25519 s s')"
proof -
  let ?s = "(sample_license 13)\<lparr>lic_strike_weight := 16, lic_status := LICENSE_STATUS_REVOKED, lic_revocation_epoch := 70\<rparr>"
  have run: "(license_step tail_hash toy_ed25519)\<^sup>*\<^sup>* (sample_license 13) ?s"
    using sample_offense by (auto elim!: offense_step.cases intro: license_step.offense)
  show ?thesis
    using license_life_invariant [OF run sample_license_ok] run by (intro exI [of _ ?s]) simp
qed

theorem offenses_reach_revocation_witness:
  "\<exists>s. (offense_step ^^ 1) (sample_license 13) s \<and> lic_status s = LICENSE_STATUS_REVOKED \<and>
     1 \<le> 16 - unat (lic_strike_weight (sample_license 13))"
proof -
  have run: "(offense_step ^^ 1) (sample_license 13)
      ((sample_license 13)\<lparr>lic_strike_weight := 16, lic_status := LICENSE_STATUS_REVOKED, lic_revocation_epoch := 70\<rparr>)"
    using sample_offense by (simp only: relpowp_1)
  show ?thesis
    using conjunct1 [OF offenses_reach_revocation [OF run sample_license_ok]] run by (intro exI conjI) (assumption, simp, assumption)
qed

text \<open>A dividend award never fails and never pays out more than half of the treasury: the pool is the
  rounded half, each eligible licence gets the same rounded share, and reserved shares and
  remainder add up to the pool exactly.\<close>

theorem dividend_award_conserves:
  "\<exists>c. calculate_dividend_award a n = Inr c \<and>
     unat (dac_dividend_pool c) = unat a div 2 \<and>
     unat (dac_per_license_strikes c) = (if n = 0 then 0 else unat a div 2 div unat n) \<and>
     unat (dac_total_reserved_strikes c) = unat (dac_per_license_strikes c) * unat n \<and>
     unat (dac_total_reserved_strikes c) + unat (dac_undistributed_remainder_strikes c) = unat a div 2"
  by (rule calculate_dividend_award_total)

text \<open>A dividend claim moves value and creates none: a successful claim takes the same positive
  amount from the account and from the reserve, within the claim window, with the signature of the
  current owner; the account plus what was paid is what it held before.\<close>

theorem dividend_claim_conserves:
  assumes "apply_dividend_claim H E r acc tre c ep = ((acc', tre'), Inr u)"
  shows "0 < unat (dc_amount_strikes c) \<and>
    unat (div_claimable_strikes acc') + unat (dc_amount_strikes c) = unat (div_claimable_strikes acc) \<and>
    unat (tre_reserved_dividend_strikes tre') + unat (dc_amount_strikes c) = unat (tre_reserved_dividend_strikes tre) \<and>
    tre_available_strikes tre' = tre_available_strikes tre \<and>
    div_award_epoch acc \<le> ep \<and> ep < div_claim_deadline_epoch acc \<and>
    signed_by E (lic_owner_public_key r) (DividendClaimV1_signing_digest H c) (dc_owner_signature c)"
  using assms by (auto simp: apply_dividend_claim_iff unat_sub word_le_nat_alt unat_gt_0 word_neq_0_conv)

definition sample_account :: LicenseDividendAccountV1 where
  "sample_account = \<lparr>div_license_id = [7], div_award_epoch = 10, div_claim_deadline_epoch = 20, div_claimable_strikes = 50\<rparr>"

definition sample_claim :: "bytes \<Rightarrow> DividendClaimV1" where
  "sample_claim sig = \<lparr>dc_license_id = [7], dc_expected_owner_sequence = 0, dc_amount_strikes = 30,
     dc_destination_address_id = [1], dc_payment_txid = [2], dc_owner_signature = sig\<rparr>"

theorem dividend_claim_conserves_witness:
  "\<exists>sig acc' tre'. apply_dividend_claim tail_hash toy_ed25519 (sample_license 0) sample_account
     \<lparr>tre_available_strikes = 5, tre_reserved_dividend_strikes = 100\<rparr> (sample_claim sig) 15 = ((acc', tre'), Inr ()) \<and>
     unat (div_claimable_strikes acc') + 30 = 50 \<and> unat (tre_reserved_dividend_strikes tre') + 30 = 100"
proof -
  let ?d = "DividendClaimV1_signing_digest tail_hash (sample_claim [])" and ?pk = "replicate 32 (2 :: u8)"
  have d: "DividendClaimV1_signing_digest tail_hash (sample_claim s) = ?d" for s
    by (simp add: DividendClaimV1_signing_digest_def DividendClaimV1_unsigned_payload_def sample_claim_def)
  have ok: "apply_dividend_claim tail_hash toy_ed25519 (sample_license 0) sample_account
     \<lparr>tre_available_strikes = 5, tre_reserved_dividend_strikes = 100\<rparr> (sample_claim (?pk @ ?d)) 15 =
     ((sample_account\<lparr>div_claimable_strikes := 20\<rparr>, \<lparr>tre_available_strikes = 5, tre_reserved_dividend_strikes = 70\<rparr>), Inr ())"
    unfolding apply_dividend_claim_iff d [of "?pk @ ?d"]
    by (simp add: sample_claim_def sample_account_def sample_license_def license_status_defs signed_by_def toy_ed25519_def)
  have "unat (div_claimable_strikes (sample_account\<lparr>div_claimable_strikes := 20\<rparr>)) + 30 = 50 \<and> unat (70 :: u64) + 30 = 100"
    using conjunct1 [OF conjunct2 [OF dividend_claim_conserves [OF ok]]] by (simp add: sample_claim_def sample_account_def)
  then show ?thesis
    using ok by (intro exI conjI) auto
qed

text \<open>Presence operations decode exactly: an operation is accepted if and only if it is the encoding
  of a presence statement with fields of the right sizes, which is then returned.\<close>

theorem presence_decode_exact:
  "(MiningPresenceV1_decode_operation op = Inr p) = (wf_presence p \<and> op = MiningPresenceV1_operation p)"
  by (rule MiningPresenceV1_decode_iff)

text \<open>C31. What a refused operation leaves behind: every error of a transfer, a rotation or a claim leaves
  its arguments as they were, with one exception each. A transfer or rotation refused because a
  sequence is exhausted has already replaced the keys, and a claim refused because it exceeds the
  reserve has already debited the account.\<close>

theorem refused_operations:
  "(apply_license_transfer H E r t = (r', Inl e) \<longrightarrow>
      (if e = PrOverflow
       then lic_owner_public_key r' = tr_new_owner_public_key t \<and> lic_mining_public_key r' = tr_new_mining_public_key t
       else r' = r)) \<and>
   (apply_mining_key_rotation H E r k = (r', Inl e) \<longrightarrow>
      (if e = PrOverflow then r' = r\<lparr>lic_mining_public_key := rot_new_mining_public_key k\<rparr> else r' = r)) \<and>
   (apply_dividend_claim H E r acc tre c ep = ((acc', tre'), Inl e) \<longrightarrow>
      (if e = PrTreasuryUnderflow
       then acc' = acc\<lparr>div_claimable_strikes := div_claimable_strikes acc - dc_amount_strikes c\<rparr> \<and> tre' = tre
       else acc' = acc \<and> tre' = tre))"
proof (intro conjI impI)
  show "if e = PrOverflow
       then lic_owner_public_key r' = tr_new_owner_public_key t \<and> lic_mining_public_key r' = tr_new_mining_public_key t
       else r' = r" if "apply_license_transfer H E r t = (r', Inl e)"
    using that by (auto simp: apply_license_transfer_def verify_owner_signature_cases Let_def checked_inc32 split: if_splits)
  show "if e = PrOverflow then r' = r\<lparr>lic_mining_public_key := rot_new_mining_public_key k\<rparr> else r' = r"
    if "apply_mining_key_rotation H E r k = (r', Inl e)"
    using that by (auto simp: apply_mining_key_rotation_def verify_owner_signature_cases Let_def checked_inc32 split: if_splits)
  show "if e = PrTreasuryUnderflow
       then acc' = acc\<lparr>div_claimable_strikes := div_claimable_strikes acc - dc_amount_strikes c\<rparr> \<and> tre' = tre
       else acc' = acc \<and> tre' = tre"
    if "apply_dividend_claim H E r acc tre c ep = ((acc', tre'), Inl e)"
    using that by (auto simp: apply_dividend_claim_def verify_owner_signature_cases Let_def checked_sub_def split: if_splits)
qed

theorem refused_operations_witness:
  "\<exists>r'. apply_license_transfer tail_hash (toy_ed25519\<lparr>vk_verify := \<lambda>k d s. True\<rparr>)
     ((sample_license 0)\<lparr>lic_owner_key_sequence := u32_max\<rparr>)
     (sample_transfer\<lparr>tr_expected_owner_sequence := u32_max\<rparr>) = (r', Inl PrOverflow) \<and>
   lic_owner_public_key r' = replicate 32 4"
proof -
  let ?E = "toy_ed25519\<lparr>vk_verify := \<lambda>k d s. True\<rparr>" and ?r = "(sample_license 0)\<lparr>lic_owner_key_sequence := u32_max\<rparr>"
    and ?t = "sample_transfer\<lparr>tr_expected_owner_sequence := u32_max\<rparr>"
  have v: "verify_owner_signature ?E pk d s = Inr ()" for pk d s
    by (simp add: verify_owner_signature_def toy_ed25519_def)
  obtain r' where "apply_license_transfer tail_hash ?E ?r ?t = (r', Inl PrOverflow)"
    by (simp add: apply_license_transfer_def v Let_def checked_inc32 sample_license_def LICENSE_STATUS_REVOKED_def
        sample_transfer_def)
  then show ?thesis
    using refused_operations [of tail_hash ?E ?r ?t r' PrOverflow] by (auto simp: sample_transfer_def)
qed

end
