(* ===== verification/Bitcoin_Rules.thy ===== *)
theory Bitcoin_Rules
  imports Bitcoin
begin

text \<open>
  Proofs about the header rules and the payment validation of the theory Bitcoin
  (crates/mutiny-bitcoin/src/lib.rs): the numbers that compact bits denote and the canonical ones
  among them, retargeting, the median of the preceding timestamps, credited work, header chains,
  payments and the nonce search.
\<close>

unbundle bit_operations_syntax

section \<open>Compact targets\<close>

text \<open>The fields of compact bits as numbers, and the target they denote.\<close>

definition bits_exponent :: "u32 \<Rightarrow> nat" where "bits_exponent b = unat b div 2 ^ 24"
definition bits_mantissa :: "u32 \<Rightarrow> nat" where "bits_mantissa b = unat b mod 2 ^ 23"
definition bits_negative :: "u32 \<Rightarrow> bool" where "bits_negative b \<longleftrightarrow> odd (unat b div 2 ^ 23)"
definition bits_value :: "u32 \<Rightarrow> nat" where "bits_value b = bits_mantissa b * 256 ^ bits_exponent b div 256 ^ 3"

lemma and_mask23: "unat (x AND 0x007fffff) = unat x mod 2 ^ 23" for x :: u32
proof -
  have *: "x AND 0x007fffff = take_bit 23 x"
    by (simp add: take_bit_eq_mask mask_eq_exp_minus_1)
  show ?thesis
    unfolding * unsigned_take_bit_eq by (simp add: take_bit_eq_mod)
qed

lemma and_bit23: "x AND 0x00800000 = 0 \<longleftrightarrow> \<not> odd (unat x div 2 ^ 23)" for x :: u32
proof -
  have "(0x00800000 :: u32) = push_bit 23 1"
    by (simp add: push_bit_eq_mult)
  then have "x AND 0x00800000 = 0 \<longleftrightarrow> \<not> bit x 23"
    by (metis and_exp_eq_0_iff_not_bit push_bit_of_1)
  then show ?thesis
    using bit_iff_odd [of "unat x" 23] by (simp add: bit_unsigned_iff)
qed

lemma unat_drop_bit: "unat (drop_bit n x) = unat x div 2 ^ n" for x :: "'a::len word"
  by (simp only: unat_drop_bit_eq drop_bit_eq_div [of n "unat x"])

lemma be_nat_zeros: "be_nat (replicate n 0) = 0"
  using be_nat_replicate_0 [of n "[]"] by simp

lemma unat_ucast_u8: "unat (ucast (x :: u32) :: u8) = unat x mod 256"
  by (simp add: unsigned_ucast_eq take_bit_eq_mod)

lemma be_nat_mant:
  assumes "unat (m :: u32) < 2 ^ 24"
  shows "be_nat [ucast (drop_bit 16 m), ucast (drop_bit 8 m), ucast m] = unat m"
proof -
  have "be_nat [ucast (drop_bit 16 m), ucast (drop_bit 8 m), ucast m] =
      unat m div 65536 mod 256 * 65536 + unat m div 256 mod 256 * 256 + unat m mod 256"
    by (simp add: be_nat_Cons unat_ucast_u8 unat_drop_bit)
  also have "\<dots> = unat m"
  proof -
    have "unat m div 65536 = unat m div 256 div 256" and "unat m div 65536 < 256"
      using assms by (simp_all add: div_mult2_eq [of "unat m" 256 256, simplified])
    then have "unat m div 65536 mod 256 = unat m div 256 div 256"
      by simp
    then show ?thesis
      using div_mult_mod_eq [of "unat m" 256] div_mult_mod_eq [of "unat m div 256" 256] by linarith
  qed
  finally show ?thesis .
qed

lemma be_nat_append_zeros: "be_nat (bs @ replicate n 0) = be_nat bs * 256 ^ n"
  by (simp add: be_nat_append be_nat_zeros)

lemma be_nat_Inr_iff:
  "length u = 32 \<Longrightarrow> be_nat u = v \<Longrightarrow> (Inr u :: 'e + bytes) = Inr t \<longleftrightarrow> length t = 32 \<and> be_nat t = v"
  by (metis be_nat_inj sum.inject(2))

lemma compact_target_be_iff:
  "compact_target_be b = Inr t \<longleftrightarrow>
     0 < bits_mantissa b \<and> \<not> bits_negative b \<and> 0 < bits_exponent b \<and> bits_exponent b \<le> 32 \<and>
     length t = 32 \<and> be_nat t = bits_value b"
proof -
  define M where "M = b AND 0x007fffff"
  let ?e = "bits_exponent b"
  have e: "unat (drop_bit 24 b) = ?e"
    by (simp add: unat_drop_bit bits_exponent_def)
  have m: "unat M = bits_mantissa b" and mz: "M = 0 \<longleftrightarrow> bits_mantissa b = 0"
    by (simp_all add: M_def and_mask23 bits_mantissa_def word_unat_eq_iff)
  have small: "unat M < 2 ^ 24"
    by (simp add: m bits_mantissa_def)
  have neg: "b AND 0x00800000 = 0 \<longleftrightarrow> \<not> bits_negative b"
    by (simp add: and_bit23 bits_negative_def)
  let ?ok = "0 < bits_mantissa b \<and> \<not> bits_negative b \<and> 0 < ?e \<and> ?e \<le> 32"
  have "compact_target_be b = Inr t \<longleftrightarrow> length t = 32 \<and> be_nat t = bits_value b" if ok: ?ok
  proof (cases "?e \<le> 3")
    case True
    define u where "u = replicate 28 0 @ to_be_bytes (drop_bit (8 * (3 - ?e)) M)"
    have "be_nat u = bits_mantissa b div 256 ^ (3 - ?e)"
      by (simp add: u_def be_nat_to_be_bytes unat_drop_bit m power_mult)
    also have "\<dots> = bits_value b"
    proof -
      have *: "(256 :: nat) ^ 3 = 256 ^ (3 - ?e) * 256 ^ ?e"
        using True by (simp flip: power_add)
      show ?thesis
        unfolding bits_value_def * by (rule div_mult_mult2 [symmetric]) simp
    qed
    finally have v: "be_nat u = bits_value b" .
    have "length u = 32"
      by (simp add: u_def)
    moreover have "compact_target_be b = Inr u"
      using ok True unfolding compact_target_be_def Let_def e M_def [symmetric] mz neg u_def by simp
    ultimately show ?thesis
      using v by (simp only: be_nat_Inr_iff)
  next
    case False
    define u :: bytes where "u = replicate (32 - ?e) 0 @ [ucast (drop_bit 16 M), ucast (drop_bit 8 M), ucast M] @ replicate (?e - 3) 0"
    have "be_nat u = bits_mantissa b * 256 ^ (?e - 3)"
      using small by (simp only: u_def be_nat_replicate_0 be_nat_append_zeros be_nat_mant m)
    also have "\<dots> = bits_value b"
    proof -
      have *: "(256 :: nat) ^ ?e = 256 ^ (?e - 3) * 256 ^ 3"
        unfolding power_add [symmetric] using False by simp
      show ?thesis
        unfolding bits_value_def * mult.assoc [symmetric] by (rule nonzero_mult_div_cancel_right [symmetric]) simp
    qed
    finally have v: "be_nat u = bits_value b" .
    have l: "length u = 32"
      using ok False by (simp add: u_def)
    have c: "min (32 - (32 - ?e)) 3 = 3" "32 - (32 - ?e + 3) = ?e - 3" "take 3 [x, y, z] = [x, y, z]" for x y z :: u8
      using ok False by simp_all
    have "compact_target_be b = Inr u"
      using ok False unfolding compact_target_be_def Let_def e M_def [symmetric] mz neg u_def c by simp
    then show ?thesis
      using v l by (simp only: be_nat_Inr_iff)
  qed
  moreover have "compact_target_be b \<noteq> Inr t" if "\<not> ?ok"
    using that unfolding compact_target_be_def Let_def e M_def [symmetric] mz neg by auto
  ultimately show ?thesis
    by blast
qed

lemma length_to_bytes_be_bounds:
  "0 < k \<Longrightarrow> 256 ^ (length (to_bytes_be k) - 1) \<le> k \<and> k < 256 ^ length (to_bytes_be k)"
proof (induction k rule: to_bytes_be.induct)
  case (1 k)
  show ?case
  proof (cases "k < 256")
    case True
    then show ?thesis
      using 1 by (simp add: to_bytes_be.simps [of k])
  next
    case False
    let ?n = "length (to_bytes_be (k div 256))"
    have IH: "256 ^ (?n - 1) \<le> k div 256" "k div 256 < 256 ^ ?n"
      using "1.IH" [OF False] False by auto
    have n: "0 < ?n"
      by (simp add: to_bytes_be.simps [of "k div 256"])
    have l: "length (to_bytes_be k) = Suc ?n"
      using False by (simp add: to_bytes_be.simps [of k])
    have "256 ^ ?n = 256 * (256 :: nat) ^ (?n - 1)"
      using n by (cases ?n) simp_all
    also have "\<dots> \<le> 256 * (k div 256)"
      using IH(1) by simp
    also have "\<dots> \<le> k"
      by simp
    finally have "256 ^ ?n \<le> k" .
    moreover have "k < 256 * 256 ^ ?n"
      using IH(2) by (simp add: div_less_iff_less_mult mult.commute)
    ultimately show ?thesis
      by (simp add: l)
  qed
qed

lemma or_plus: "unat a < 2 ^ n \<Longrightarrow> push_bit n b OR a = push_bit n b + a" for a b :: "'a::len word"
  using or_eq_plus [of a n b] by (simp add: or.commute add.commute)

lemma unat_push_bit: "unat x * 2 ^ n < 2 ^ LENGTH('a) \<Longrightarrow> unat (push_bit n x) = unat x * 2 ^ n" for x :: "'a::len word"
proof -
  assume a: "unat x * 2 ^ n < 2 ^ LENGTH('a)"
  have "push_bit n x = word_of_nat (unat x * 2 ^ n)"
    by (simp add: push_bit_eq_mult)
  then show ?thesis
    using a by (simp only: unat_of_nat) (simp add: take_bit_nat_eq_self_iff)
qed

lemma unat_shift_or:
  assumes "unat (a :: u32) < 2 ^ n" and "unat b * 2 ^ n + unat a < 2 ^ 32"
  shows "unat (push_bit n b OR a) = unat b * 2 ^ n + unat a"
proof -
  have "unat (push_bit n b) = unat b * 2 ^ n"
    using assms(2) by (intro unat_push_bit) simp
  then show ?thesis
    using assms by (simp add: or_plus unat_word_ariths)
qed

lemma mantissa_fold:
  "length bs \<le> 3 \<Longrightarrow> unat (fold (\<lambda>byte v. push_bit 8 v OR ucast byte) bs (0 :: u32)) = be_nat bs"
proof (induction bs rule: rev_induct)
  case (snoc b bs)
  let ?v = "fold (\<lambda>byte v. push_bit 8 v OR ucast byte) bs (0 :: u32)"
  have v: "unat ?v = be_nat bs"
    using snoc by simp
  have "be_nat bs < 256 ^ length bs"
    by (rule be_nat_less)
  also have "\<dots> \<le> 256 ^ 2"
    using snoc.prems by (intro power_increasing) simp_all
  finally have small: "be_nat bs < 256 ^ 2" .
  have b: "unat (ucast b :: u32) = unat b"
    by (simp add: unat_ucast_up)
  have "unat (push_bit 8 ?v OR ucast b) = unat ?v * 2 ^ 8 + unat (ucast b :: u32)"
  proof (rule unat_shift_or)
    show "unat ?v * 2 ^ 8 + unat (ucast b :: u32) < 2 ^ 32"
      using small unat_u8_less [of b] unfolding v b by (simp del: unat_u8_less)
  qed (simp add: b)
  then show ?case
    by (simp add: v b)
qed simp

lemma be_nat_take3:
  assumes "3 < length bs"
  shows "unat (push_bit 16 (ucast (bs ! 0)) OR push_bit 8 (ucast (bs ! 1)) OR ucast (bs ! 2) :: u32) = be_nat bs div 256 ^ (length bs - 3)"
proof -
  obtain a b c r where bs: "bs = a # b # c # r"
    using assms by (metis One_nat_def Suc_le_length_iff less_imp_le_nat numeral_3_eq_3)
  have u: "unat (ucast x :: u32) = unat x" for x :: u8
    by (simp add: unat_ucast_up)
  have bounds: "unat b * 256 + unat c < 65536" "unat a * 65536 + (unat b * 256 + unat c) < 16777216"
    using unat_u8_less [of a] unat_u8_less [of b] unat_u8_less [of c] by linarith+
  have l1: "unat (push_bit 8 (ucast b) OR ucast c :: u32) = unat b * 2 ^ 8 + unat c"
    using bounds unat_shift_or [of "ucast c" 8 "ucast b"] by (simp add: u)
  have "unat (push_bit 16 (ucast a) OR (push_bit 8 (ucast b) OR ucast c) :: u32) =
      unat a * 2 ^ 16 + (unat b * 2 ^ 8 + unat c)"
    using bounds unat_shift_or [of "push_bit 8 (ucast b) OR ucast c" 16 "ucast a"]
    by (simp add: l1 u)
  moreover have "be_nat bs div 256 ^ length r = unat a * 2 ^ 16 + (unat b * 2 ^ 8 + unat c)"
  proof -
    have "be_nat bs = (unat a * 2 ^ 16 + (unat b * 2 ^ 8 + unat c)) * 256 ^ length r + be_nat r"
      by (simp add: bs be_nat_Cons algebra_simps)
    then show ?thesis
      using be_nat_less [of r] by (simp add: div_mult_self3)
  qed
  ultimately show ?thesis
    by (simp add: bs or.assoc)
qed

text \<open>What compact bits say of the number they encode: the exponent is the least one for which the
  mantissa has its sign bit clear.\<close>

definition compact_of :: "nat \<Rightarrow> u32 \<Rightarrow> bool" where
  "compact_of k b \<longleftrightarrow> \<not> bits_negative b \<and>
     2 ^ 23 * 256 ^ bits_exponent b \<le> k * 256 ^ 4 \<and> k * 256 ^ 3 < 2 ^ 23 * 256 ^ bits_exponent b \<and>
     bits_mantissa b = k * 256 ^ 3 div 256 ^ bits_exponent b"

lemma unat_bits: "unat b = bits_exponent b * 2 ^ 24 + (if bits_negative b then 2 ^ 23 else 0) + bits_mantissa b"
proof -
  define q where "q = unat b div 2 ^ 23"
  have x: "unat b = q * 2 ^ 23 + bits_mantissa b"
    by (simp add: q_def bits_mantissa_def)
  have e: "bits_exponent b = q div 2"
    by (simp add: q_def bits_exponent_def flip: div_mult2_eq)
  have "q = q div 2 * 2 + (if odd q then 1 else 0)"
    by presburger
  then have "q * 2 ^ 23 = q div 2 * 2 ^ 24 + (if odd q then 2 ^ 23 else 0)"
    by (cases "odd q") simp_all
  then have "q * 2 ^ 23 = bits_exponent b * 2 ^ 24 + (if bits_negative b then 2 ^ 23 else 0)"
    by (simp only: e bits_negative_def q_def [symmetric])
  then show ?thesis
    using x by linarith
qed

lemma compact_of_unique: "compact_of k b \<Longrightarrow> compact_of k c \<Longrightarrow> b = c"
proof -
  assume b: "compact_of k b" and c: "compact_of k c"
  have le: "bits_exponent x \<le> bits_exponent y" if "compact_of k x" "compact_of k y" for x y
  proof -
    have "2 ^ 23 * 256 ^ bits_exponent x \<le> k * 256 ^ 4" "k * 256 ^ 3 < 2 ^ 23 * (256 :: nat) ^ bits_exponent y"
      using that by (simp_all add: compact_of_def)
    then have "(256 :: nat) ^ bits_exponent x < 256 ^ Suc (bits_exponent y)"
      by simp
    then show ?thesis
      using power_strict_increasing_iff [of "256 :: nat"] by (metis less_Suc_eq_le numeral_One numeral_less_iff semiring_norm(76))
  qed
  have "bits_exponent b = bits_exponent c"
    using le [OF b c] le [OF c b] by simp
  then show "b = c"
    using b c unat_bits [of b] unat_bits [of c] by (simp add: compact_of_def word_unat_eq_iff)
qed

lemma bits_of_fields:
  assumes "m < 2 ^ 23" and "e < 256" and "unat w = m"
  shows "bits_exponent (push_bit 24 (word_of_nat e) OR (w AND 0x007fffff)) = e \<and>
    bits_mantissa (push_bit 24 (word_of_nat e) OR (w AND 0x007fffff)) = m \<and>
    \<not> bits_negative (push_bit 24 (word_of_nat e) OR (w AND 0x007fffff))"
proof -
  have w: "unat (w AND 0x007fffff) = m"
    using assms by (simp add: and_mask23)
  have e: "unat (word_of_nat e :: u32) = e"
    using assms(2) by (simp add: unat_of_nat)
  have x: "unat (push_bit 24 (word_of_nat e) OR (w AND 0x007fffff)) = e * 2 ^ 24 + m"
    using assms(1,2) unat_shift_or [of "w AND 0x007fffff" 24 "word_of_nat e"] unfolding w e by simp
  have "(e * 2 ^ 24 + m) div 2 ^ 24 = e + m div 2 ^ 24"
    by (rule div_mult_self3) simp
  moreover have "e * 2 ^ 24 + m = (2 * e) * 2 ^ 23 + m"
    by simp
  moreover have "((2 * e) * 2 ^ 23 + m) div 2 ^ 23 = 2 * e + m div 2 ^ 23"
    by (rule div_mult_self3) simp
  moreover have "((2 * e) * 2 ^ 23 + m) mod 2 ^ 23 = m mod 2 ^ 23"
    by (rule mod_mult_self3)
  moreover have "m div 2 ^ 24 = 0" "m div 2 ^ 23 = 0" "m mod 2 ^ 23 = m"
    using assms(1) by simp_all
  ultimately show ?thesis
    unfolding bits_exponent_def bits_mantissa_def bits_negative_def x by (metis add.right_neutral even_mult_iff even_numeral)
qed

lemma compact_mantissa_eq:
  assumes "0 < k"
  shows "unat (compact_mantissa (to_bytes_be k)) = k * 256 ^ 3 div 256 ^ length (to_bytes_be k)"
proof -
  define bs where "bs = to_bytes_be k"
  have k: "be_nat bs = k" and less: "k < 256 ^ length bs"
    using length_to_bytes_be_bounds [OF assms] by (simp_all add: bs_def)
  show ?thesis
  proof (cases "length bs \<le> 3")
    case True
    let ?v = "fold (\<lambda>byte v. push_bit 8 v OR ucast byte) bs (0 :: u32)"
    have v: "unat ?v = k"
      using mantissa_fold [OF True] k by simp
    have p: "(256 :: nat) ^ 3 = 256 ^ (3 - length bs) * 256 ^ length bs"
      unfolding power_add [symmetric] using True by simp
    have "k * 256 ^ (3 - length bs) < 256 ^ length bs * 256 ^ (3 - length bs)"
      using less by simp
    also have "\<dots> = 256 ^ 3"
      unfolding p by (rule mult.commute)
    finally have "k * 2 ^ (8 * (3 - length bs)) < 2 ^ 32"
      by (simp add: power_mult)
    then have "unat (push_bit (8 * (3 - length bs)) ?v) = k * 256 ^ (3 - length bs)"
      using unat_push_bit [of ?v "8 * (3 - length bs)"] by (simp add: v power_mult)
    then show ?thesis
      unfolding bs_def [symmetric] p mult.assoc [symmetric] using True by (simp add: compact_mantissa_def)
  next
    case False
    have p: "(256 :: nat) ^ length bs = 256 ^ 3 * 256 ^ (length bs - 3)"
      unfolding power_add [symmetric] using False by simp
    have "unat (compact_mantissa bs) = k div 256 ^ (length bs - 3)"
      using be_nat_take3 [of bs] False by (simp add: compact_mantissa_def k)
    also have "\<dots> = k * 256 ^ 3 div 256 ^ length bs"
      unfolding p mult.commute [of k] by (rule div_mult_mult1 [symmetric]) simp
    finally show ?thesis
      by (simp add: bs_def)
  qed
qed

lemma compact_bits_exists:
  assumes "0 < k" and "k < 2 ^ 256"
  shows "\<exists>b. compact_bits_from_biguint k = Inr b \<and> compact_of k b \<and> bits_exponent b \<le> 33"
proof -
  define n where "n = length (to_bytes_be k)"
  define M where "M = compact_mantissa (to_bytes_be k)"
  have M: "unat M = k * 256 ^ 3 div 256 ^ n"
    using compact_mantissa_eq [OF assms(1)] by (simp add: M_def n_def)
  have lo: "256 ^ (n - 1) \<le> k" and hi: "k < 256 ^ n"
    using length_to_bytes_be_bounds [OF assms(1)] by (simp_all add: n_def)
  have n: "0 < n" "n \<le> 32"
    using length_to_bytes_be_iff [of k] assms(2) by (simp_all add: n_def to_bytes_be.simps [of k])
  have lo': "256 ^ n \<le> k * 256"
    using lo n(1) by (cases n) simp_all
  have Mhi: "unat M < 2 ^ 24"
    unfolding M using hi by (simp add: div_less_iff_less_mult)
  have neg: "M AND 0x00800000 \<noteq> 0 \<longleftrightarrow> 2 ^ 23 \<le> unat M"
  proof -
    have "unat M div 2 ^ 23 < 2"
      using Mhi by (simp add: div_less_iff_less_mult)
    then have "odd (unat M div 2 ^ 23) \<longleftrightarrow> 0 < unat M div 2 ^ 23"
      by (auto simp: less_2_cases_iff)
    then show ?thesis
      unfolding and_bit23 by (simp add: div_greater_zero_iff)
  qed
  show ?thesis
  proof (cases "2 ^ 23 \<le> unat M")
    case False
    define b where "b = push_bit 24 (word_of_nat n) OR (M AND 0x007fffff)"
    have ng: "(M AND 0x00800000 \<noteq> 0) = False"
      using neg False by simp
    have r: "compact_bits_from_biguint k = Inr b"
      unfolding compact_bits_from_biguint_def Let_def n_def [symmetric] M_def [symmetric] ng b_def
      using assms(1) n by simp
    have f: "bits_exponent b = n" "bits_mantissa b = unat M" "\<not> bits_negative b"
      unfolding b_def using bits_of_fields [of "unat M" n M] False n by simp_all
    have up: "k * 256 ^ 3 < 2 ^ 23 * 256 ^ n"
      using False unfolding M not_le by (simp add: div_less_iff_less_mult)
    have "2 ^ 23 * 256 ^ n \<le> 2 ^ 23 * (k * 256)"
      using lo' by (rule mult_le_mono2)
    also have "\<dots> \<le> k * 256 ^ 4"
      by simp
    finally have "compact_of k b"
      unfolding compact_of_def f using f(3) up M by blast
    then show ?thesis
      using r f(1) n(2) by (intro exI [of _ b]) simp
  next
    case True
    define W where "W = drop_bit 8 M"
    define b where "b = push_bit 24 (word_of_nat (n + 1)) OR (W AND 0x007fffff)"
    have ng: "(M AND 0x00800000 \<noteq> 0) = True"
      using neg True by simp
    have W: "unat W = k * 256 ^ 3 div 256 ^ (n + 1)"
      unfolding W_def unat_drop_bit M by (simp add: mult.commute flip: div_mult2_eq)
    have n1: "\<not> 255 < n + 1"
      using n(2) by simp
    have r: "compact_bits_from_biguint k = Inr b"
      unfolding compact_bits_from_biguint_def Let_def n_def [symmetric] M_def [symmetric] ng b_def W_def
      using assms(1) n1 by (simp del: of_nat_add)
    have small: "unat W < 2 ^ 23"
      unfolding W_def using Mhi by (simp add: unat_drop_bit div_less_iff_less_mult)
    have f: "bits_exponent b = n + 1" "bits_mantissa b = unat W" "\<not> bits_negative b"
      unfolding b_def using bits_of_fields [OF small _ refl, of "n + 1"] n by (simp_all del: of_nat_add)
    have low: "2 ^ 23 * 256 ^ n \<le> k * 256 ^ 3"
      using True unfolding M by (simp add: less_eq_div_iff_mult_less_eq)
    have "2 ^ 23 * 256 ^ (n + 1) = 2 ^ 23 * 256 ^ n * (256 :: nat)"
      by simp
    also have "\<dots> \<le> k * 256 ^ 3 * 256"
      using low by (rule mult_le_mono1)
    finally have l: "2 ^ 23 * 256 ^ (n + 1) \<le> k * 256 ^ 4"
      by simp
    have "k * 256 ^ 3 < 256 ^ n * 256 ^ 3"
      using hi by simp
    also have "\<dots> \<le> 2 ^ 23 * 256 ^ (n + 1)"
      by simp
    finally have "compact_of k b"
      unfolding compact_of_def f using f(3) l W by blast
    then show ?thesis
      using r f(1) n(2) by (intro exI [of _ b]) simp
  qed
qed

lemma compact_bits_iff:
  "0 < k \<Longrightarrow> k < 2 ^ 256 \<Longrightarrow> compact_bits_from_biguint k = Inr b \<longleftrightarrow> compact_of k b"
  using compact_bits_exists [of k] compact_of_unique [of k] by (metis sum.inject(2))

lemma compact_value:
  assumes "compact_of k b"
  shows "0 < bits_value b \<and> bits_value b \<le> k \<and> compact_of (bits_value b) b \<and> k * 2 ^ 15 < bits_value b * (2 ^ 15 + 1)"
proof -
  let ?e = "bits_exponent b" and ?m = "bits_mantissa b"
  have lo: "2 ^ 23 * 256 ^ ?e \<le> k * 256 ^ 4" and hi: "k * 256 ^ 3 < 2 ^ 23 * 256 ^ ?e"
    and m: "?m = k * 256 ^ 3 div 256 ^ ?e" and neg: "\<not> bits_negative b"
    using assms by (simp_all add: compact_of_def)
  have "2 ^ 15 * 256 ^ ?e \<le> k * 256 ^ 3"
    using lo by simp
  then have m15: "2 ^ 15 \<le> ?m"
    unfolding m by (simp add: less_eq_div_iff_mult_less_eq)
  have k: "0 < k"
    using lo by (cases k) auto
  show ?thesis
  proof (cases "3 \<le> ?e")
    case True
    define P :: nat where "P = 256 ^ (?e - 3)"
    have P: "0 < P" "256 ^ ?e = 256 ^ 3 * P"
      unfolding P_def power_add [symmetric] using True by simp_all
    have mP: "?m = k div P"
      unfolding m P(2) mult.commute [of k] by (rule div_mult_mult1) simp
    have v: "bits_value b = ?m * P"
      unfolding bits_value_def P(2) by simp
    have "k = ?m * P + k mod P" "k mod P < P"
      using P(1) by (simp_all add: mP)
    then have near: "?m * P \<le> k" "k < ?m * P + P"
      by linarith+
    have big: "2 ^ 15 * P \<le> ?m * P"
      using m15 by (rule mult_le_mono1)
    have "bits_value b * 256 ^ 3 = ?m * 256 ^ ?e"
      unfolding v P(2) by simp
    moreover have "?m < 2 ^ 23"
      by (simp add: bits_mantissa_def)
    ultimately have "bits_value b * 256 ^ 3 < 2 ^ 23 * 256 ^ ?e" "?m = bits_value b * 256 ^ 3 div 256 ^ ?e"
      "2 ^ 15 * 256 ^ ?e \<le> bits_value b * 256 ^ 3"
      using m15 by simp_all
    then have "compact_of (bits_value b) b"
      unfolding compact_of_def using neg by simp
    moreover have "k * 2 ^ 15 < bits_value b * (2 ^ 15 + 1)"
    proof -
      have "k * 2 ^ 15 < (?m * P + P) * 2 ^ 15"
        using near(2) by simp
      also have "\<dots> = ?m * P * 2 ^ 15 + 2 ^ 15 * P"
        by (simp add: algebra_simps)
      also have "\<dots> \<le> ?m * P * 2 ^ 15 + ?m * P"
        using big by (rule add_left_mono)
      finally show ?thesis
        unfolding v by (simp add: algebra_simps)
    qed
    moreover have "0 < bits_value b"
      unfolding v using m15 P(1) by simp
    ultimately show ?thesis
      using near(1) v by simp
  next
    case False
    define Q :: nat where "Q = 256 ^ (3 - ?e)"
    have Q: "0 < Q" "256 ^ 3 = Q * 256 ^ ?e"
      unfolding Q_def power_add [symmetric] using False by simp_all
    have "?m = k * Q"
      unfolding m Q(2) mult.assoc [symmetric] by simp
    then have "bits_value b = k"
      unfolding bits_value_def Q(2) mult.assoc using Q(1) by simp
    then show ?thesis
      using assms k by simp
  qed
qed

lemma bits_value_less: "bits_exponent b \<le> 32 \<Longrightarrow> bits_value b < 2 ^ 256"
proof -
  assume e: "bits_exponent b \<le> 32"
  have "bits_mantissa b < 256 ^ 3"
    by (simp add: bits_mantissa_def less_trans [of _ "2 ^ 23"])
  then have "bits_mantissa b * 256 ^ bits_exponent b < 256 ^ bits_exponent b * 256 ^ 3"
    by simp
  then have "bits_value b < 256 ^ bits_exponent b"
    unfolding bits_value_def by (simp add: div_less_iff_less_mult)
  also have "\<dots> \<le> (256 :: nat) ^ 32"
    using e by (intro power_increasing) simp_all
  finally show ?thesis
    by simp
qed

lemma canonical_compact_target_be_iff:
  "canonical_compact_target_be b = Inr t \<longleftrightarrow>
     bits_exponent b \<le> 32 \<and> compact_of (bits_value b) b \<and> length t = 32 \<and> be_nat t = bits_value b"
proof
  assume "canonical_compact_target_be b = Inr t"
  then have t: "compact_target_be b = Inr t" and c: "compact_bits_from_biguint (be_nat t) = Inr b"
    by (auto simp: canonical_compact_target_be_def compact_bits_from_target_be_def)
  then have e: "bits_exponent b \<le> 32" and l: "length t = 32" "be_nat t = bits_value b"
    by (simp_all add: compact_target_be_iff)
  have "0 < be_nat t"
    using c by (cases "be_nat t = 0") (simp_all add: compact_bits_from_biguint_def)
  then have "compact_of (bits_value b) b"
    using c bits_value_less [OF e] by (simp only: l compact_bits_iff)
  then show "bits_exponent b \<le> 32 \<and> compact_of (bits_value b) b \<and> length t = 32 \<and> be_nat t = bits_value b"
    using e l by simp
next
  assume a: "bits_exponent b \<le> 32 \<and> compact_of (bits_value b) b \<and> length t = 32 \<and> be_nat t = bits_value b"
  then have c: "compact_of (bits_value b) b" and v: "0 < bits_value b" "bits_value b < 2 ^ 256"
    using compact_value [of "bits_value b" b] bits_value_less [of b] by simp_all
  have "0 < bits_mantissa b"
    using v(1) by (cases "bits_mantissa b") (simp_all add: bits_value_def)
  moreover have "0 < bits_exponent b"
    using v(1) by (cases "bits_exponent b") (simp_all add: bits_value_def bits_mantissa_def)
  ultimately have "compact_target_be b = Inr t"
    using a c by (simp only: compact_target_be_iff) (simp add: compact_of_def)
  moreover have "compact_bits_from_target_be t = Inr b"
    unfolding compact_bits_from_target_be_def using a c v by (simp only: compact_bits_iff)
  ultimately show "canonical_compact_target_be b = Inr t"
    by (simp add: canonical_compact_target_be_def)
qed

definition pow_limit :: nat where "pow_limit = 65535 * 256 ^ 26"

lemma pow_limit_target: "\<exists>t. compact_target_be BITCOIN_MAINNET_POW_LIMIT_BITS = Inr t"
  "compact_target_be BITCOIN_MAINNET_POW_LIMIT_BITS = Inr t \<Longrightarrow> length t = 32 \<and> be_nat t = pow_limit"
proof -
  let ?b = "BITCOIN_MAINNET_POW_LIMIT_BITS"
  have f: "bits_exponent ?b = 29" "bits_mantissa ?b = 65535" "\<not> bits_negative ?b"
    by (simp_all add: BITCOIN_MAINNET_POW_LIMIT_BITS_def bits_exponent_def bits_mantissa_def bits_negative_def)
  have v: "bits_value ?b = pow_limit"
    unfolding bits_value_def f pow_limit_def by simp
  then show "compact_target_be ?b = Inr t \<Longrightarrow> length t = 32 \<and> be_nat t = pow_limit"
    by (simp add: compact_target_be_iff)
  have "be_nat (pad32 (to_bytes_be pow_limit)) = pow_limit" "length (pad32 (to_bytes_be pow_limit)) = 32"
    using length_to_bytes_be_iff [of pow_limit] by (simp_all add: pow_limit_def)
  then show "\<exists>t. compact_target_be ?b = Inr t"
    unfolding compact_target_be_iff v f using f(3) by auto
qed

lemma validate_mainnet_target_bits_iff:
  "validate_mainnet_target_bits b = Inr t \<longleftrightarrow>
     canonical_compact_target_be b = Inr t \<and> be_nat t \<le> pow_limit"
proof -
  obtain l where l: "compact_target_be BITCOIN_MAINNET_POW_LIMIT_BITS = Inr l" "length l = 32" "be_nat l = pow_limit"
    using pow_limit_target by blast
  have "length t = 32 \<Longrightarrow> t > l \<longleftrightarrow> be_nat t > pow_limit"
    using be_nat_less_iff [of l t] l by simp
  then show ?thesis
    unfolding validate_mainnet_target_bits_def l rbind_simps by (auto simp: canonical_compact_target_be_iff)
qed

lemma clamp_timespan:
  fixes f l :: u32
  defines "el \<equiv> nat (max (int (unat BITCOIN_MAINNET_RETARGET_MIN_TIMESPAN_SECONDS))
      (min (int (unat BITCOIN_MAINNET_RETARGET_MAX_TIMESPAN_SECONDS)) (int (unat l) - int (unat f))))"
  shows "302400 \<le> el \<and> el \<le> 4838400"
  by (simp add: el_def nat_le_iff le_nat_iff BITCOIN_MAINNET_RETARGET_MIN_TIMESPAN_SECONDS_def BITCOIN_MAINNET_RETARGET_MAX_TIMESPAN_SECONDS_def
      BITCOIN_MAINNET_TARGET_TIMESPAN_SECONDS_def)

lemma retarget_step:
  assumes "302400 \<le> el" and "el \<le> (4838400 :: nat)" and "k \<le> pow_limit"
  defines "T \<equiv> (if k * el div 1209600 > pow_limit then pow_limit else k * el div 1209600)"
  shows "k div 4 \<le> T \<and> T \<le> 4 * k \<and> T \<le> pow_limit"
proof -
  have "k * 302400 div 1209600 \<le> k * el div 1209600" "k * el div 1209600 \<le> k * 4838400 div 1209600"
    by (intro div_le_mono mult_le_mono2 assms(1,2))+
  moreover have "k * 302400 div 1209600 = k div 4" "k * 4838400 div 1209600 = 4 * k"
    using div_mult_mult2 [of 302400 k 4] by simp_all
  ultimately show ?thesis
    using assms(3) by (auto simp: T_def)
qed

lemma compact_of_exponent: "compact_of k b \<Longrightarrow> k \<le> pow_limit \<Longrightarrow> bits_exponent b \<le> 32"
proof -
  assume c: "compact_of k b" and k: "k \<le> pow_limit"
  have "2 ^ 23 * 256 ^ bits_exponent b \<le> pow_limit * 256 ^ 4"
    using c k by (simp add: compact_of_def)
  also have "\<dots> < 2 ^ 23 * 256 ^ 33"
    by (simp add: pow_limit_def)
  finally have "(256 :: nat) ^ bits_exponent b < 256 ^ 33"
    by (simp only: mult_less_cancel1)
  then show ?thesis
    using power_less_imp_less_exp [of "256 :: nat" "bits_exponent b" 33] by simp
qed

lemma retarget_valid:
  assumes "validate_mainnet_target_bits old = Inr t" and "4 \<le> be_nat t"
  shows "\<exists>b t'. bitcoin_mainnet_retarget_bits old f l = Inr b \<and> validate_mainnet_target_bits b = Inr t' \<and>
    be_nat t' \<le> 4 * be_nat t \<and> be_nat t div 4 * 2 ^ 15 < be_nat t' * (2 ^ 15 + 1)"
proof -
  obtain p where p: "compact_target_be BITCOIN_MAINNET_POW_LIMIT_BITS = Inr p" "be_nat p = pow_limit"
    using pow_limit_target by blast
  define el where "el = nat (max (int (unat BITCOIN_MAINNET_RETARGET_MIN_TIMESPAN_SECONDS))
      (min (int (unat BITCOIN_MAINNET_RETARGET_MAX_TIMESPAN_SECONDS)) (int (unat l) - int (unat f))))"
  define T where "T = (if be_nat t * el div 1209600 > pow_limit then pow_limit else be_nat t * el div 1209600)"
  have ts: "unat BITCOIN_MAINNET_TARGET_TIMESPAN_SECONDS = 1209600"
    by (simp add: BITCOIN_MAINNET_TARGET_TIMESPAN_SECONDS_def)
  have r: "bitcoin_mainnet_retarget_bits old f l = compact_bits_from_biguint T"
    unfolding bitcoin_mainnet_retarget_bits_def assms(1) p rbind_simps Let_def ts el_def [symmetric] T_def ..
  have T: "be_nat t div 4 \<le> T" "T \<le> 4 * be_nat t" "T \<le> pow_limit"
    using retarget_step [of el "be_nat t"] clamp_timespan [where f = f and l = l] assms(1)
    by (simp_all only: el_def [symmetric] T_def [symmetric] validate_mainnet_target_bits_iff)
  have T0: "0 < T"
    using T(1) assms(2) by (simp add: div_greater_zero_iff less_le_trans [of 0 "be_nat t div 4"])
  have "pow_limit < 2 ^ 256"
    by (simp add: pow_limit_def)
  then obtain b where b: "compact_bits_from_biguint T = Inr b" "compact_of T b"
    using compact_bits_exists [OF T0] T(3) by auto
  have v: "bits_value b \<le> T" "compact_of (bits_value b) b" "T * 2 ^ 15 < bits_value b * (2 ^ 15 + 1)"
    using compact_value [OF b(2)] by simp_all
  have e: "bits_exponent b \<le> 32"
    by (rule compact_of_exponent [OF b(2) T(3)])
  define t' where "t' = pad32 (to_bytes_be (bits_value b))"
  have t': "length t' = 32" "be_nat t' = bits_value b"
    using bits_value_less [OF e] length_to_bytes_be_iff [of "bits_value b"] by (simp_all add: t'_def)
  have "validate_mainnet_target_bits b = Inr t'"
    unfolding validate_mainnet_target_bits_iff canonical_compact_target_be_iff using e v t' T(3) by simp
  moreover have "be_nat t' \<le> 4 * be_nat t"
    using v T(2) unfolding t' by linarith
  moreover have "be_nat t div 4 * 2 ^ 15 < be_nat t' * (2 ^ 15 + 1)"
    unfolding t' using mult_le_mono1 [OF T(1), of "2 ^ 15"] v(3) by (rule le_less_trans)
  ultimately show ?thesis
    using r b(1) by auto
qed

section \<open>Median time and header rules\<close>

lemma length_filter_mono:
  "(\<And>x. x \<in> set xs \<Longrightarrow> P x \<Longrightarrow> Q x) \<Longrightarrow> length (filter P xs) \<le> length (filter Q xs)"
  by (induction xs) auto

lemma median_sorted:
  fixes ts :: "'a::linorder list"
  assumes "length ts = 11"
  defines "m \<equiv> sort ts ! 5"
  shows "6 \<le> length (filter (\<lambda>x. x \<le> m) ts) \<and> 6 \<le> length (filter (\<lambda>x. m \<le> x) ts)"
proof -
  have l: "length (filter P (sort ts)) = length (filter P ts)" for P
    by (simp add: filter_sort)
  have below: "list_all (\<lambda>x. x \<le> m) (take 6 (sort ts))"
    unfolding list_all_length m_def by (auto simp: assms(1) intro!: sorted_nth_mono)
  have above: "list_all (\<lambda>x. m \<le> x) (drop 5 (sort ts))"
    unfolding list_all_length m_def by (auto simp: assms(1) intro!: sorted_nth_mono)
  have "filter (\<lambda>x. x \<le> m) (take 6 (sort ts)) = take 6 (sort ts)" "filter (\<lambda>x. m \<le> x) (drop 5 (sort ts)) = drop 5 (sort ts)"
    using below above by (simp_all add: list_all_iff filter_id_conv)
  then have "6 \<le> length (filter (\<lambda>x. x \<le> m) (take 6 (sort ts) @ drop 6 (sort ts)))"
    "6 \<le> length (filter (\<lambda>x. m \<le> x) (take 5 (sort ts) @ drop 5 (sort ts)))"
    using assms(1) by (simp_all only: filter_append length_append) simp_all
  then show ?thesis
    by (simp add: l)
qed

lemma biguint_to_be32_iff: "biguint_to_be32 k = Inr w \<longleftrightarrow> length w = 32 \<and> be_nat w = k"
proof -
  have "be_nat w < 2 ^ 256" if "length w = 32"
    using be_nat_less [of w] that by simp
  moreover have "k < 2 ^ 256 \<Longrightarrow> (pad32 (to_bytes_be k) = w \<longleftrightarrow> length w = 32 \<and> be_nat w = k)"
    using be_nat_inj [of "pad32 (to_bytes_be k)" w] length_to_bytes_be_iff [of k] by auto
  ultimately show ?thesis
    using length_to_bytes_be_iff [of k] by (auto simp: biguint_to_be32_def Let_def not_less)
qed

lemma bitcoin_header_work_be_iff:
  "bitcoin_header_work_be b = Inr w \<longleftrightarrow>
     (\<exists>t. canonical_compact_target_be b = Inr t \<and> length w = 32 \<and> be_nat w = 2 ^ 256 div (be_nat t + 1))"
  by (auto simp: bitcoin_header_work_be_def biguint_to_be32_iff)

lemma header_meets_mainnet_pow_iff:
  assumes "\<forall>x. length (H x) = 32"
  shows "header_meets_mainnet_pow H h = Inr True \<longleftrightarrow>
    (\<exists>t. validate_mainnet_target_bits (header_bits h) = Inr t \<and> be_nat (rev (hash_internal H h)) \<le> be_nat t)"
proof -
  have "rev (hash_internal H h) \<le> t \<longleftrightarrow> be_nat (rev (hash_internal H h)) \<le> be_nat t" if "length t = 32" for t
    using that assms by (simp add: be_nat_le_iff hash_internal_def double_sha256_def)
  then show ?thesis
    by (auto simp: header_meets_mainnet_pow_def Let_def validate_mainnet_target_bits_iff canonical_compact_target_be_iff)
qed

lemma header_rules_iff:
  assumes "\<forall>x. length (H x) = 32"
  shows "validate_mainnet_header_rules H h n pb ft pt ts = Inr w \<longleftrightarrow>
    expected_mainnet_bits n pb ft pt = Inr (header_bits h) \<and> median_timestamp_11 ts < header_timestamp h \<and>
    (\<exists>t. validate_mainnet_target_bits (header_bits h) = Inr t \<and> be_nat (rev (hash_internal H h)) \<le> be_nat t \<and>
         length w = 32 \<and> be_nat w = 2 ^ 256 div (be_nat t + 1))"
proof -
  have "validate_mainnet_header_rules H h n pb ft pt ts = Inr w \<longleftrightarrow>
      expected_mainnet_bits n pb ft pt = Inr (header_bits h) \<and> median_timestamp_11 ts < header_timestamp h \<and>
      header_meets_mainnet_pow H h = Inr True \<and> bitcoin_header_work_be (header_bits h) = Inr w"
    by (auto simp: validate_mainnet_header_rules_def validate_mainnet_mtp_def not_le)
  then show ?thesis
    unfolding header_meets_mainnet_pow_iff [OF assms] bitcoin_header_work_be_iff
    by (auto simp: validate_mainnet_target_bits_iff)
qed

lemma header_work_bound: "be_nat t \<le> pow_limit \<Longrightarrow> 2 ^ 32 \<le> 2 ^ 256 div (be_nat t + 1)"
proof -
  assume "be_nat t \<le> pow_limit"
  then have "2 ^ 32 * (be_nat t + 1) \<le> 2 ^ 32 * (pow_limit + 1)"
    by simp
  also have "\<dots> \<le> 2 ^ 256"
    by (simp add: pow_limit_def)
  finally show ?thesis
    by (simp add: less_eq_div_iff_mult_less_eq)
qed

section \<open>Chains and payments\<close>

lemma header_meets_pow_iff:
  "header_meets_pow H h = Inr True \<longleftrightarrow> (\<exists>t. compact_target_be (header_bits h) = Inr t \<and> rev (hash_internal H h) \<le> t)"
  by (auto simp: header_meets_pow_def Let_def)

lemma all_meet_pow_iff: "all_meet_pow H hs = Inr u \<longleftrightarrow> (\<forall>h\<in>set hs. header_meets_pow H h = Inr True)"
  by (induction hs) auto

lemma contiguous_iff:
  "contiguous H hs \<longleftrightarrow> (\<forall>i. Suc i < length hs \<longrightarrow> previous_block_internal (hs ! Suc i) = hash_internal H (hs ! i))"
proof (induction H hs rule: contiguous.induct)
  case (1 H a b hs)
  let ?linked = "\<lambda>xs i. previous_block_internal (xs ! Suc i) = hash_internal H (xs ! i)"
  have "(\<forall>i. Suc i < length (a # b # hs) \<longrightarrow> ?linked (a # b # hs) i) \<longleftrightarrow>
      (\<forall>i \<le> length hs. ?linked (a # b # hs) i)"
    by (auto simp: less_Suc_eq_le)
  also have "\<dots> \<longleftrightarrow> ?linked (a # b # hs) 0 \<and> (\<forall>i < length hs. ?linked (b # hs) i)"
    using All_less_Suc2 [of "length hs" "?linked (a # b # hs)"] by (simp add: less_Suc_eq_le)
  finally show ?case
    unfolding contiguous.simps "1.IH" by simp
qed auto

lemma validate_header_chain_iff:
  "validate_header_chain H hs = Inr u \<longleftrightarrow>
     6 \<le> length hs \<and> (\<forall>h\<in>set hs. header_meets_pow H h = Inr True) \<and>
     (\<forall>i. Suc i < length hs \<longrightarrow> previous_block_internal (hs ! Suc i) = hash_internal H (hs ! i))"
  by (auto simp: validate_header_chain_def REQUIRED_CONFIRMATIONS_def all_meet_pow_iff contiguous_iff)

lemma list_get_iff: "list_get xs i = Some x \<longleftrightarrow> i < length xs \<and> xs ! i = x"
  by (simp add: list_get_def)

definition payment_ok :: "(bytes \<Rightarrow> bytes) \<Rightarrow> BitcoinSpvProofV1 \<Rightarrow> bytes \<Rightarrow> bytes \<Rightarrow> u64 \<Rightarrow> btc_tx \<Rightarrow> bool" where
  "payment_ok H pf mh script sats t \<longleftrightarrow>
     wf_btc t \<and> btc_serialisation (spv_raw_transaction pf) t \<and>
     merkle_root_from_branch H (double_sha256 H (btc_legacy t)) (spv_tx_index pf) (spv_merkle_branch pf) =
       merkle_root_internal (spv_headers pf ! 0) \<and>
     unat (spv_payment_output_index pf) < length (bt_outs t) \<and>
     bto_script_pubkey (bt_outs t ! unat (spv_payment_output_index pf)) = script \<and>
     sats \<le> bto_value_sats (bt_outs t ! unat (spv_payment_output_index pf)) \<and>
     unat (spv_manifest_output_index pf) < length (bt_outs t) \<and>
     bt_outs t ! unat (spv_manifest_output_index pf) = \<lparr>bto_value_sats = 0, bto_script_pubkey = [0x6a, 0x20] @ mh\<rparr>"

lemma validate_payment_iff:
  "validate_payment H pf mh script sats = Inr p \<longleftrightarrow>
     validate_header_chain H (spv_headers pf) = Inr () \<and>
     unat (spv_containing_block_height pf) + 5 < 2 ^ 32 \<and>
     (\<exists>t. payment_ok H pf mh script sats t \<and>
       p = \<lparr>vbp_txid_internal = double_sha256 H (btc_legacy t),
            vbp_containing_block_hash_internal = hash_internal H (spv_headers pf ! 0),
            vbp_containing_block_height = spv_containing_block_height pf,
            vbp_sixth_confirmation_hash_internal = hash_internal H (spv_headers pf ! 5),
            vbp_sixth_confirmation_height = spv_containing_block_height pf + 5,
            vbp_sixth_confirmation_timestamp = header_timestamp (spv_headers pf ! 5),
            vbp_payment_output_index = spv_payment_output_index pf,
            vbp_paid_sats = bto_value_sats (bt_outs t ! unat (spv_payment_output_index pf))\<rparr>)"
  (is "?l \<longleftrightarrow> ?c \<and> ?h \<and> (\<exists>t. payment_ok H pf mh script sats t \<and> p = ?p t)")
proof -
  have out: "bto_value_sats x = 0 \<and> bto_script_pubkey x = s \<longleftrightarrow> x = \<lparr>bto_value_sats = 0, bto_script_pubkey = s\<rparr>" for x s
    by (cases x) simp
  have h: "checked_add (spv_containing_block_height pf) 5 = Some x \<longleftrightarrow> ?h \<and> x = spv_containing_block_height pf + 5" for x
    by (auto simp: checked_add_def)
  show ?thesis
    by (auto simp: validate_payment_def parse_transaction_iff payment_ok_def Let_def list_get_iff not_less
        canonical_manifest_script_def REQUIRED_CONFIRMATIONS_def h simp flip: out)
qed

definition first_hit :: "nat \<Rightarrow> (nat \<Rightarrow> bool) \<Rightarrow> (nat \<Rightarrow> bool) \<Rightarrow> nat \<Rightarrow> nat \<Rightarrow> bool" where
  "first_hit N S F l k \<longleftrightarrow> l \<le> k \<and> k < N \<and> S k \<and> (\<forall>j. l \<le> j \<and> j < k \<longrightarrow> F j)"

lemma first_hit_step:
  assumes "l < N" and "\<And>k. \<not> (S k \<and> F k)"
  shows "first_hit N S F l k \<longleftrightarrow> (if S l then k = l else F l \<and> first_hit N S F (Suc l) k)"
proof (cases "k = l")
  case True
  then show ?thesis
    using assms by (auto simp: first_hit_def)
next
  case False
  have "(\<forall>j. l \<le> j \<and> j < k \<longrightarrow> F j) \<longleftrightarrow> F l \<and> (\<forall>j. Suc l \<le> j \<and> j < k \<longrightarrow> F j)" if "l < k"
    using that by (metis Suc_le_eq le_less order_refl)
  then show ?thesis
    using assms(2) [of l] False by (auto simp: first_hit_def Suc_le_eq le_less)
qed

lemma mine_easy_header_iff:
  "mine_easy_header H p m ts b n = Inr h \<longleftrightarrow>
     (\<exists>k. h = easy_header p m ts b (word_of_nat k) \<and>
        first_hit (2 ^ 32) (\<lambda>k. header_meets_pow H (easy_header p m ts b (word_of_nat k)) = Inr True)
          (\<lambda>k. header_meets_pow H (easy_header p m ts b (word_of_nat k)) = Inr False) (unat n) k)"
proof (induction H p m ts b n rule: mine_easy_header.induct)
  case (1 H p m ts b n)
  let ?h = "\<lambda>k. easy_header p m ts b (word_of_nat k)"
  let ?R = "\<lambda>l k. first_hit (2 ^ 32) (\<lambda>k. header_meets_pow H (?h k) = Inr True) (\<lambda>k. header_meets_pow H (?h k) = Inr False) l k"
  have n: "?h (unat n) = easy_header p m ts b n" and less: "unat n < 2 ^ 32"
    using unat_less_2p [of n] by simp_all
  have peel: "?R (unat n) k \<longleftrightarrow>
      (if header_meets_pow H (easy_header p m ts b n) = Inr True then k = unat n
       else header_meets_pow H (easy_header p m ts b n) = Inr False \<and> ?R (Suc (unat n)) k)" for k
    unfolding n [symmetric] by (rule first_hit_step [OF less]) simp
  show ?case
  proof (cases "header_meets_pow H (easy_header p m ts b n)")
    case (Inl e)
    then show ?thesis
      unfolding peel mine_easy_header.simps [of H p m ts b n] Let_def by simp
  next
    case (Inr ok)
    show ?thesis
    proof (cases "ok \<or> n = 0xFFFFFFFF")
      case True
      have "\<not> ?R (Suc (unat n)) k" if "n = 0xFFFFFFFF" for k
        unfolding that first_hit_def by simp
      then show ?thesis
        using True n unfolding peel mine_easy_header.simps [of H p m ts b n] Let_def Inr by auto
    next
      case False
      then have "unat n \<noteq> 2 ^ 32 - 1"
        by (simp add: word_unat_eq_iff)
      then have s: "unat (n + 1) = Suc (unat n)"
        using less by (simp add: unat_word_ariths)
      have "mine_easy_header H p m ts b (n + 1) = Inr h \<longleftrightarrow> (\<exists>k. h = ?h k \<and> ?R (Suc (unat n)) k)"
        unfolding s [symmetric] using False by (intro "1.IH" [OF refl Inr]) simp_all
      then show ?thesis
        using False unfolding peel mine_easy_header.simps [of H p m ts b n] Let_def Inr by simp
    qed
  qed
qed

section \<open>Properties\<close>

text \<open>Retargeting stays inside the rules: from bits that the rules accept, with a target of at least
  four, and for any two timestamps, the retarget succeeds and yields bits that the rules accept
  again (canonical and at most the limit). The new target is at most four times the old one and,
  up to the rounding of the compact form, at least a quarter of it.\<close>

theorem retarget_stays_valid:
  assumes "validate_mainnet_target_bits old = Inr t" and "4 \<le> be_nat t"
  shows "\<exists>b t'. bitcoin_mainnet_retarget_bits old t1 t2 = Inr b \<and> validate_mainnet_target_bits b = Inr t' \<and>
    be_nat t' \<le> 4 * be_nat t \<and> be_nat t div 4 * 2 ^ 15 < be_nat t' * (2 ^ 15 + 1)"
  using assms by (rule retarget_valid)

lemma limit_bits_valid:
  "\<exists>t. validate_mainnet_target_bits 0x1d00ffff = Inr t \<and> length t = 32 \<and> be_nat t = pow_limit"
proof -
  let ?b = "0x1d00ffff :: u32"
  have f: "bits_exponent ?b = 29" "bits_mantissa ?b = 65535" "\<not> bits_negative ?b"
    by (simp_all add: bits_exponent_def bits_mantissa_def bits_negative_def)
  have v: "bits_value ?b = pow_limit"
    unfolding bits_value_def f pow_limit_def by simp
  have c: "compact_of pow_limit ?b"
    unfolding compact_of_def f using f(3) by (simp add: pow_limit_def)
  have "be_nat (pad32 (to_bytes_be pow_limit)) = pow_limit" "length (pad32 (to_bytes_be pow_limit)) = 32"
    using length_to_bytes_be_iff [of pow_limit] by (simp_all add: pow_limit_def)
  then show ?thesis
    unfolding validate_mainnet_target_bits_iff canonical_compact_target_be_iff v f using c by auto
qed

theorem retarget_stays_valid_witness:
  "\<exists>t b t'. validate_mainnet_target_bits 0x1d00ffff = Inr t \<and>
     bitcoin_mainnet_retarget_bits 0x1d00ffff 1000 2000 = Inr b \<and> validate_mainnet_target_bits b = Inr t' \<and>
     be_nat t' \<le> 4 * be_nat t"
proof -
  obtain t where t: "validate_mainnet_target_bits 0x1d00ffff = Inr t" "be_nat t = pow_limit"
    using limit_bits_valid by blast
  then have "4 \<le> be_nat t"
    by (simp add: pow_limit_def)
  then show ?thesis
    using retarget_stays_valid [OF t(1), of 1000 2000] t(1) by blast
qed

text \<open>C18. A header accepted under the mainnet rules carries real work at the right difficulty: its bits are
  the expected ones, the hash read as a number is at most the target and the target at most the
  limit, its time is later than at least six of the eleven preceding ones, and the work credited is
  the exact quotient, at least 2^32; adding it to the chain work therefore strictly increases it.\<close>

theorem header_rules_sound:
  assumes "\<forall>x. length (H x) = 32" and "length ts = 11"
    and "validate_mainnet_header_rules H h n pb ft pt ts = Inr w"
  shows "expected_mainnet_bits n pb ft pt = Inr (header_bits h) \<and>
    6 \<le> length (filter (\<lambda>x. x < header_timestamp h) ts) \<and>
    (\<exists>t. compact_target_be (header_bits h) = Inr t \<and> be_nat (rev (hash_internal H h)) \<le> be_nat t \<and>
         be_nat t \<le> 65535 * 256 ^ 26 \<and> be_nat w = 2 ^ 256 div (be_nat t + 1)) \<and>
    2 ^ 32 \<le> be_nat w \<and>
    (add_chainwork_be c w = Inr c' \<longrightarrow> be_nat c' = be_nat c + be_nat w)"
proof -
  obtain t where t: "validate_mainnet_target_bits (header_bits h) = Inr t" "be_nat (rev (hash_internal H h)) \<le> be_nat t"
    and w: "be_nat w = 2 ^ 256 div (be_nat t + 1)" and e: "expected_mainnet_bits n pb ft pt = Inr (header_bits h)"
    and m: "sort ts ! 5 < header_timestamp h"
    using assms(3) unfolding header_rules_iff [OF assms(1)] median_timestamp_11_def BITCOIN_MAINNET_MTP_WINDOW_def by auto
  have "length (filter (\<lambda>x. x \<le> sort ts ! 5) ts) \<le> length (filter (\<lambda>x. x < header_timestamp h) ts)"
    using m by (intro length_filter_mono) auto
  then have "6 \<le> length (filter (\<lambda>x. x < header_timestamp h) ts)"
    using median_sorted [OF assms(2)] by linarith
  moreover have "be_nat t \<le> pow_limit" and "compact_target_be (header_bits h) = Inr t"
    using t(1) by (auto simp: validate_mainnet_target_bits_iff canonical_compact_target_be_def)
  ultimately show ?thesis
    using t(2) w e header_work_bound [of t] unfolding pow_limit_def [symmetric]
    by (auto simp: add_chainwork_be_def biguint_to_be32_iff)
qed

text \<open>A hash with documented output length under which every header has work, for the witnesses.\<close>

definition zero_hash :: "bytes \<Rightarrow> bytes" where
  "zero_hash x = replicate 32 0"

definition sample_header :: BitcoinHeader where
  "sample_header = easy_header (replicate 32 0) (replicate 32 0) 1000 0x1d00ffff 7"

lemma easy_header_fields:
  assumes "length p = 32" and "length m = 32"
  shows "previous_block_internal (easy_header p m ts b n) = p" "merkle_root_internal (easy_header p m ts b n) = m"
    "header_timestamp (easy_header p m ts b n) = ts" "header_bits (easy_header p m ts b n) = b"
  using assms by (simp_all add: easy_header_def previous_block_internal_def merkle_root_internal_def
      header_timestamp_def header_bits_def from_to_le_bytes)

lemma sample_header_fields:
  "previous_block_internal sample_header = replicate 32 0" "merkle_root_internal sample_header = replicate 32 0"
  "header_timestamp sample_header = 1000" "header_bits sample_header = 0x1d00ffff"
  "hash_internal zero_hash h = replicate 32 0"
  by (simp_all add: sample_header_def easy_header_fields hash_internal_def double_sha256_def zero_hash_def)

theorem header_rules_sound_witness:
  "\<exists>w. validate_mainnet_header_rules zero_hash sample_header 5 0x1d00ffff 0 0 (replicate 11 900) = Inr w \<and>
     2 ^ 32 \<le> be_nat w"
proof -
  obtain t where t: "validate_mainnet_target_bits 0x1d00ffff = Inr t" "be_nat t = pow_limit"
    using limit_bits_valid by blast
  define w where "w = pad32 (to_bytes_be (2 ^ 256 div (be_nat t + 1)))"
  have w: "length w = 32" "be_nat w = 2 ^ 256 div (be_nat t + 1)"
    using length_to_bytes_be_iff [of "2 ^ 256 div (be_nat t + 1)"] by (simp_all add: w_def t(2) pow_limit_def)
  have e: "expected_mainnet_bits 5 0x1d00ffff 0 0 = Inr 0x1d00ffff"
    by (simp add: expected_mainnet_bits_def t(1) BITCOIN_MAINNET_RETARGET_INTERVAL_def)
  have m: "median_timestamp_11 (replicate 11 900) < 1000"
  proof -
    have "sort (replicate 11 900) = replicate 11 (900 :: u32)"
      by (rule sort_key_id_if_sorted) simp
    then show ?thesis
      by (simp add: median_timestamp_11_def BITCOIN_MAINNET_MTP_WINDOW_def)
  qed
  have len: "\<forall>x. length (zero_hash x) = 32"
    by (simp add: zero_hash_def)
  have r: "validate_mainnet_header_rules zero_hash sample_header 5 0x1d00ffff 0 0 (replicate 11 900) = Inr w"
    unfolding header_rules_iff [OF len] sample_header_fields using t(1) w e m by (simp add: be_nat_zeros)
  show ?thesis
    using header_rules_sound [OF len _ r] r by auto
qed

text \<open>C12. What an accepted treasury payment proves: at least six linked headers, each meeting its own
  target; a well-formed transaction, of which the proof carries a serialisation, whose identifier
  reaches the Merkle root of the first header; an output of it at the stated index that pays the
  required amount or more to the treasury script; and a valueless output that commits to the
  manifest. The amount, identifier and heights reported are those of that transaction and chain.\<close>

theorem validated_payment_sound:
  assumes "validate_payment H pf mh script sats = Inr p"
  shows "6 \<le> length (spv_headers pf) \<and>
    (\<forall>h\<in>set (spv_headers pf). \<exists>t. compact_target_be (header_bits h) = Inr t \<and> rev (hash_internal H h) \<le> t) \<and>
    (\<forall>i. Suc i < length (spv_headers pf) \<longrightarrow>
       previous_block_internal (spv_headers pf ! Suc i) = hash_internal H (spv_headers pf ! i)) \<and>
    (\<exists>t. wf_btc t \<and> btc_serialisation (spv_raw_transaction pf) t \<and>
       vbp_txid_internal p = double_sha256 H (btc_legacy t) \<and>
       merkle_root_from_branch H (vbp_txid_internal p) (spv_tx_index pf) (spv_merkle_branch pf) =
         merkle_root_internal (spv_headers pf ! 0) \<and>
       unat (vbp_payment_output_index p) < length (bt_outs t) \<and>
       bt_outs t ! unat (vbp_payment_output_index p) = \<lparr>bto_value_sats = vbp_paid_sats p, bto_script_pubkey = script\<rparr> \<and>
       sats \<le> vbp_paid_sats p \<and>
       \<lparr>bto_value_sats = 0, bto_script_pubkey = [0x6a, 0x20] @ mh\<rparr> \<in> set (bt_outs t)) \<and>
    vbp_containing_block_hash_internal p = hash_internal H (spv_headers pf ! 0) \<and>
    unat (vbp_sixth_confirmation_height p) = unat (vbp_containing_block_height p) + 5"
proof -
  obtain t where chain: "validate_header_chain H (spv_headers pf) = Inr ()"
    and height: "unat (spv_containing_block_height pf) + 5 < 2 ^ 32" and ok: "payment_ok H pf mh script sats t"
    and p: "p = \<lparr>vbp_txid_internal = double_sha256 H (btc_legacy t),
            vbp_containing_block_hash_internal = hash_internal H (spv_headers pf ! 0),
            vbp_containing_block_height = spv_containing_block_height pf,
            vbp_sixth_confirmation_hash_internal = hash_internal H (spv_headers pf ! 5),
            vbp_sixth_confirmation_height = spv_containing_block_height pf + 5,
            vbp_sixth_confirmation_timestamp = header_timestamp (spv_headers pf ! 5),
            vbp_payment_output_index = spv_payment_output_index pf,
            vbp_paid_sats = bto_value_sats (bt_outs t ! unat (spv_payment_output_index pf))\<rparr>"
    using assms unfolding validate_payment_iff by blast
  have "\<lparr>bto_value_sats = 0, bto_script_pubkey = [0x6a, 0x20] @ mh\<rparr> \<in> set (bt_outs t)"
    using ok unfolding payment_ok_def by (metis nth_mem)
  moreover have "bt_outs t ! unat (spv_payment_output_index pf) =
      \<lparr>bto_value_sats = bto_value_sats (bt_outs t ! unat (spv_payment_output_index pf)), bto_script_pubkey = script\<rparr>"
    using ok out_eta [of "bt_outs t ! unat (spv_payment_output_index pf)"] by (simp add: payment_ok_def)
  moreover have "unat (spv_containing_block_height pf + 5) = unat (spv_containing_block_height pf) + 5"
    using height by (simp add: unat_word_ariths)
  ultimately show ?thesis
    using chain ok unfolding validate_header_chain_iff header_meets_pow_iff by (auto simp: p payment_ok_def)
qed

definition sample_btc :: btc_tx where
  "sample_btc = \<lparr>bt_version = [1, 0, 0, 0],
     bt_ins = [\<lparr>bi_outpoint = replicate 36 0, bi_script = [], bi_sequence = [0, 0, 0, 0]\<rparr>],
     bt_outs = [\<lparr>bto_value_sats = 60, bto_script_pubkey = [9]\<rparr>, \<lparr>bto_value_sats = 0, bto_script_pubkey = [0x6a, 0x20, 5]\<rparr>],
     bt_lock_time = [0, 0, 0, 0]\<rparr>"

definition sample_spv :: BitcoinSpvProofV1 where
  "sample_spv = \<lparr>spv_raw_transaction = btc_legacy sample_btc, spv_payment_output_index = 0, spv_manifest_output_index = 1,
     spv_tx_index = 0, spv_merkle_branch = [], spv_headers = replicate 6 sample_header, spv_containing_block_height = 100\<rparr>"

theorem validated_payment_sound_witness:
  "\<exists>p. validate_payment zero_hash sample_spv [5] [9] 50 = Inr p \<and> 50 \<le> vbp_paid_sats p \<and>
     unat (vbp_sixth_confirmation_height p) = unat (vbp_containing_block_height p) + 5"
proof -
  obtain t where "validate_mainnet_target_bits 0x1d00ffff = Inr t" "length t = 32"
    using limit_bits_valid by blast
  then have t: "compact_target_be 0x1d00ffff = Inr t" "replicate 32 0 \<le> t"
    using be_nat_le_iff [of "replicate 32 0" t]
    by (auto simp: validate_mainnet_target_bits_iff canonical_compact_target_be_def be_nat_zeros)
  have chain: "validate_header_chain zero_hash (spv_headers sample_spv) = Inr ()"
    using t unfolding validate_header_chain_iff header_meets_pow_iff sample_spv_def
    by (simp add: sample_header_fields)
  have ok: "payment_ok zero_hash sample_spv [5] [9] 50 sample_btc"
    by (simp add: payment_ok_def sample_spv_def sample_btc_def wf_btc_def wf_in_def wf_out_def len64_def
        btc_serialisation_def sample_header_fields double_sha256_def zero_hash_def)
  obtain p where p: "validate_payment zero_hash sample_spv [5] [9] 50 = Inr p"
    unfolding validate_payment_iff using chain ok by (auto simp: sample_spv_def)
  then show ?thesis
    using validated_payment_sound [OF p] by auto
qed

text \<open>The nonce search ends, and returns a header exactly when some nonce from the start on meets the
  target: then it is the header with the least such nonce, whatever the hash function is.\<close>

theorem mine_easy_header_first:
  "(mine_easy_header H p m ts b n = Inr h) =
     (\<exists>k. h = easy_header p m ts b (word_of_nat k) \<and>
        first_hit (2 ^ 32) (\<lambda>k. header_meets_pow H (easy_header p m ts b (word_of_nat k)) = Inr True)
          (\<lambda>k. header_meets_pow H (easy_header p m ts b (word_of_nat k)) = Inr False) (unat n) k)"
  by (rule mine_easy_header_iff)

end
