(* ===== verification/Purchase.thy ===== *)
theory Purchase
  imports Operations Bitcoin
begin

text \<open>
  Licence purchases paid in Bitcoin (crates/mutiny-protocol/src/lib.rs, LicensePurchaseBtcV1): the
  operation payload that carries a manifest and a payment proof, and the licence ids it issues. The
  theory shows that the payload format is exact and that the ids do not depend on how the
  transaction was serialised.
\<close>

section \<open>Model\<close>

record LicensePurchaseBtcV1 =
  pb_manifest :: BtcLicenseManifestV1
  pb_proof :: BitcoinSpvProofV1

definition LicensePurchaseBtcV1_payload :: "LicensePurchaseBtcV1 \<Rightarrow> ProtocolError + bytes" where
  "LicensePurchaseBtcV1_payload s =
     rbind (BtcLicenseManifestV1_encode (pb_manifest s)) (\<lambda>manifest.
       let pf = pb_proof s;
           out = write_varuint [] (of_nat (length manifest));
           out = out @ manifest;
           out = write_varuint out (of_nat (length (spv_raw_transaction pf)));
           out = out @ spv_raw_transaction pf;
           out = write_u32_be out (spv_payment_output_index pf);
           out = write_u32_be out (spv_manifest_output_index pf);
           out = write_u32_be out (spv_tx_index pf);
           out = write_varuint out (of_nat (length (spv_merkle_branch pf)));
           out = fold (\<lambda>sibling out. out @ sibling) (spv_merkle_branch pf) out;
           out = write_varuint out (of_nat (length (spv_headers pf)));
           out = fold (\<lambda>header out. out @ hdr_raw header) (spv_headers pf) out
       in Inr (write_u32_be out (spv_containing_block_height pf)))"

definition LicensePurchaseBtcV1_operation :: "LicensePurchaseBtcV1 \<Rightarrow> ProtocolError + ProtocolOperationV1" where
  "LicensePurchaseBtcV1_operation s =
     rbind (LicensePurchaseBtcV1_payload s) (\<lambda>payload.
       Inr \<lparr>op_op_type = OP_LICENSE_PURCHASE_BTC, op_op_version = 1, op_payload = payload\<rparr>)"

text \<open>The loops that cut \<open>n\<close> arrays of one size off the input, whose length has been checked before.\<close>

fun take_chunks :: "nat \<Rightarrow> nat \<Rightarrow> bytes \<Rightarrow> bytes list \<times> bytes" where
  "take_chunks k 0 input = ([], input)"
| "take_chunks k (Suc n) input =
     (let (chunks, rest) = take_chunks k n (drop k input) in (take k input # chunks, rest))"

definition LicensePurchaseBtcV1_decode_payload :: "bytes \<Rightarrow> ProtocolError + LicensePurchaseBtcV1" where
  "LicensePurchaseBtcV1_decode_payload input =
     rbind (map_err (\<lambda>_. PrInvalidManifest) (read_varuint input)) (\<lambda>(manifest_len, input).
     if length input < unat manifest_len then Inl PrInvalidManifest
     else rbind (BtcLicenseManifestV1_decode (take (unat manifest_len) input)) (\<lambda>manifest.
     let input = drop (unat manifest_len) input
     in rbind (map_err (\<lambda>_. PrInvalidManifest) (read_varuint input)) (\<lambda>(tx_len, input).
     if length input < unat tx_len then Inl PrInvalidManifest
     else
     let raw_transaction = take (unat tx_len) input;
         input = drop (unat tx_len) input
     in rbind (map_err (\<lambda>_. PrInvalidManifest) (read_u32_be input)) (\<lambda>(payment_output_index, input).
     rbind (map_err (\<lambda>_. PrInvalidManifest) (read_u32_be input)) (\<lambda>(manifest_output_index, input).
     rbind (map_err (\<lambda>_. PrInvalidManifest) (read_u32_be input)) (\<lambda>(tx_index, input).
     rbind (map_err (\<lambda>_. PrInvalidManifest) (read_varuint input)) (\<lambda>(branch_len, input).
     if unat branch_len > 64 \<or> length input < unat branch_len * 32 then Inl PrInvalidManifest
     else
     let (merkle_branch, input) = take_chunks 32 (unat branch_len) input
     in rbind (map_err (\<lambda>_. PrInvalidManifest) (read_varuint input)) (\<lambda>(header_len, input).
     if unat header_len > 64 \<or> length input < unat header_len * 80 + 4 then Inl PrInvalidManifest
     else
     let (raws, input) = take_chunks 80 (unat header_len) input;
         headers = map (\<lambda>raw. \<lparr>hdr_raw = raw\<rparr>) raws
     in rbind (map_err (\<lambda>_. PrInvalidManifest) (read_u32_be input)) (\<lambda>(containing_block_height, input).
     if input \<noteq> [] then Inl PrInvalidManifest
     else Inr \<lparr>pb_manifest = manifest,
       pb_proof = \<lparr>spv_raw_transaction = raw_transaction, spv_payment_output_index = payment_output_index,
         spv_manifest_output_index = manifest_output_index, spv_tx_index = tx_index,
         spv_merkle_branch = merkle_branch, spv_headers = headers,
         spv_containing_block_height = containing_block_height\<rparr>\<rparr>)))))))))"

definition LicensePurchaseBtcV1_license_ids ::
    "(bytes \<Rightarrow> bytes) \<Rightarrow> LicensePurchaseBtcV1 \<Rightarrow> ProtocolError + bytes list" where
  "LicensePurchaseBtcV1_license_ids H s =
     rbind (map_err (\<lambda>_. PrInvalidManifest) (parse_transaction H (spv_raw_transaction (pb_proof s)))) (\<lambda>parsed.
       let payment = bitcoin_payment_id H (pbt_txid_internal parsed) (spv_payment_output_index (pb_proof s))
       in Inr (map (\<lambda>(i, entry). derive_license_id H (btm_network_id (pb_manifest s)) PURCHASE_METHOD_BTC payment
                     (of_nat i) (ent_owner_public_key entry)) (enumerate 0 (btm_licenses (pb_manifest s)))))"

section \<open>The payload format\<close>

lemma take_chunks_concat:
  "list_all (arr k) cs \<Longrightarrow> take_chunks k (length cs) (concat cs @ rest) = (cs, rest)"
  by (induction cs) auto

lemma take_chunks_sound:
  "n * k \<le> length input \<Longrightarrow> take_chunks k n input = (cs, rest) \<Longrightarrow>
     length cs = n \<and> list_all (arr k) cs \<and> input = concat cs @ rest"
proof (induction n arbitrary: input cs)
  case (Suc n)
  then obtain ds where "take_chunks k n (drop k input) = (ds, rest)" and cs: "cs = take k input # ds"
    by (auto simp: Let_def split: prod.splits)
  then have "length ds = n \<and> list_all (arr k) ds \<and> drop k input = concat ds @ rest"
    using Suc.prems by (intro Suc.IH) simp_all
  then show ?case
    using Suc.prems(1) append_take_drop_id [of k input] by (simp add: cs)
qed simp

definition wf_spv :: "BitcoinSpvProofV1 \<Rightarrow> bool" where
  "wf_spv p \<longleftrightarrow> len64 (spv_raw_transaction p) \<and>
     length (spv_merkle_branch p) \<le> 64 \<and> list_all (arr 32) (spv_merkle_branch p) \<and>
     length (spv_headers p) \<le> 64 \<and> list_all (\<lambda>h. arr 80 (hdr_raw h)) (spv_headers p)"

definition spv_bytes :: "BitcoinSpvProofV1 \<Rightarrow> bytes" where
  "spv_bytes p = encode_varuint (of_nat (length (spv_raw_transaction p))) @ spv_raw_transaction p @
     to_be_bytes (spv_payment_output_index p) @ to_be_bytes (spv_manifest_output_index p) @ to_be_bytes (spv_tx_index p) @
     encode_varuint (of_nat (length (spv_merkle_branch p))) @ concat (spv_merkle_branch p) @
     encode_varuint (of_nat (length (spv_headers p))) @ concat (map hdr_raw (spv_headers p)) @
     to_be_bytes (spv_containing_block_height p)"

lemma fold_append_raw: "fold (\<lambda>x out. out @ f x) xs out = out @ concat (map f xs)"
  by (induction xs arbitrary: out) simp_all

lemma LicensePurchaseBtcV1_payload_iff:
  "LicensePurchaseBtcV1_payload s = Inr bs \<longleftrightarrow>
     (\<exists>m. BtcLicenseManifestV1_encode (pb_manifest s) = Inr m \<and>
          bs = encode_varuint (of_nat (length m)) @ m @ spv_bytes (pb_proof s))"
  by (auto simp: LicensePurchaseBtcV1_payload_def Let_def spv_bytes_def write_varuint_append fold_append_raw [of "\<lambda>x. x", simplified]
      fold_append_raw [of hdr_raw])

lemma small_len64: "length xs \<le> 64 \<Longrightarrow> len64 xs"
  by (simp add: len64_def)

lemma header_eta: "\<lparr>hdr_raw = hdr_raw h\<rparr> = h"
  by (cases h) simp

lemma len64_manifest: "wf_btc_manifest m \<Longrightarrow> BtcLicenseManifestV1_encode m = Inr bs \<Longrightarrow> len64 bs"
  using length_write_entries [of "btm_licenses m"]
  by (auto simp: BtcLicenseManifestV1_encode_iff wf_btc_manifest_def len64_def)

lemma decode_purchase_encode:
  assumes "wf_btc_manifest (pb_manifest s)" and "wf_spv (pb_proof s)" and "LicensePurchaseBtcV1_payload s = Inr bs"
  shows "LicensePurchaseBtcV1_decode_payload bs = Inr s"
proof -
  let ?p = "pb_proof s"
  obtain m where m: "BtcLicenseManifestV1_encode (pb_manifest s) = Inr m"
    and bs: "bs = encode_varuint (of_nat (length m)) @ m @ spv_bytes ?p"
    using assms(3) by (auto simp: LicensePurchaseBtcV1_payload_iff)
  have d: "BtcLicenseManifestV1_decode m = Inr (pb_manifest s)" and lm: "len64 m"
    using assms(1) m len64_manifest by (auto simp: BtcLicenseManifestV1_decode_iff)
  have l: "len64 (spv_raw_transaction ?p)" "len64 (spv_merkle_branch ?p)" "len64 (spv_headers ?p)"
    and b: "length (spv_merkle_branch ?p) \<le> 64" "length (spv_headers ?p) \<le> 64"
    using assms(2) by (auto simp: wf_spv_def small_len64)
  have hs: "list_all (arr 80) (map hdr_raw (spv_headers ?p))"
    using assms(2) by (simp add: wf_spv_def list.pred_map comp_def)
  have lb: "length (concat (spv_merkle_branch ?p)) = length (spv_merkle_branch ?p) * 32"
    and lh: "length (concat (map hdr_raw (spv_headers ?p))) = length (spv_headers ?p) * 80"
    using length_concat_arr [of 32 "spv_merkle_branch ?p"] length_concat_arr [OF hs] assms(2) by (simp_all add: wf_spv_def)
  have c: "take_chunks 32 (length (spv_merkle_branch ?p)) (concat (spv_merkle_branch ?p) @ r) = (spv_merkle_branch ?p, r)"
    "take_chunks 80 (length (spv_headers ?p)) (concat (map hdr_raw (spv_headers ?p)) @ r) = (map hdr_raw (spv_headers ?p), r)" for r
    using assms(2) hs take_chunks_concat [of 32 "spv_merkle_branch ?p" r]
      take_chunks_concat [of 80 "map hdr_raw (spv_headers ?p)" r] by (simp_all add: wf_spv_def)
  show ?thesis
    unfolding bs spv_bytes_def LicensePurchaseBtcV1_decode_payload_def
    using lm l b lb lh
    by (simp add: read_enc read_u32_be_iff unat_of_length d c Let_def header_eta comp_def)
qed

lemma case_prod_Inr: "(case p of (a, b) \<Rightarrow> f a b) = Inr y \<longleftrightarrow> (\<exists>a b. p = (a, b) \<and> f a b = Inr y)"
  by (cases p) simp

lemma decode_purchase_sound:
  assumes "LicensePurchaseBtcV1_decode_payload bs = Inr s"
  shows "wf_btc_manifest (pb_manifest s) \<and> wf_spv (pb_proof s) \<and> LicensePurchaseBtcV1_payload s = Inr bs"
proof -
  obtain ml i1 man tl i2 poi moi ti bl i3 br hl i5 rs and cbh :: u32 where
    i1: "bs = encode_varuint ml @ i1" "unat ml \<le> length i1"
    and man: "BtcLicenseManifestV1_decode (take (unat ml) i1) = Inr man"
    and i2: "drop (unat ml) i1 = encode_varuint tl @ i2" "unat tl \<le> length i2"
    and i3: "drop (unat tl) i2 = to_be_bytes (poi :: u32) @ to_be_bytes (moi :: u32) @ to_be_bytes (ti :: u32) @ encode_varuint bl @ i3"
    and br: "unat bl \<le> 64" "unat bl * 32 \<le> length i3" "take_chunks 32 (unat bl) i3 = (br, encode_varuint hl @ i5)"
    and rs: "unat hl \<le> 64" "unat hl * 80 + 4 \<le> length i5" "take_chunks 80 (unat hl) i5 = (rs, to_be_bytes cbh)"
    and s: "s = \<lparr>pb_manifest = man, pb_proof = \<lparr>spv_raw_transaction = take (unat tl) i2, spv_payment_output_index = poi,
         spv_manifest_output_index = moi, spv_tx_index = ti, spv_merkle_branch = br,
         spv_headers = map (\<lambda>raw. \<lparr>hdr_raw = raw\<rparr>) rs, spv_containing_block_height = cbh\<rparr>\<rparr>"
    using assms
    by (auto simp: LicensePurchaseBtcV1_decode_payload_def Let_def wire_simps not_less case_prod_Inr)
  have b: "length br = unat bl" "list_all (arr 32) br" "i3 = concat br @ encode_varuint hl @ i5"
    using take_chunks_sound [OF br(2,3)] by simp_all
  have r: "length rs = unat hl" "list_all (arr 80) rs" "i5 = concat rs @ to_be_bytes cbh"
    using take_chunks_sound [OF _ rs(3)] rs(2) by simp_all
  let ?m = "take (unat ml) i1" and ?tx = "take (unat tl) i2"
  have n: "ml = of_nat (length ?m)" "tl = of_nat (length ?tx)" "len64 ?tx" "bl = of_nat (length br)" "hl = of_nat (length rs)"
    using i1(2) i2(2) b(1) r(1) length_eq_unat [of ?m ml] length_eq_unat [of ?tx tl] length_eq_unat [of br bl]
      length_eq_unat [of rs hl] by auto
  have "bs = encode_varuint ml @ ?m @ encode_varuint tl @ ?tx @ drop (unat tl) i2"
    unfolding append_take_drop_id i2(1) [symmetric] by (rule i1(1))
  then have "bs = encode_varuint ml @ ?m @ encode_varuint tl @ ?tx @ to_be_bytes poi @ to_be_bytes moi @ to_be_bytes ti @
      encode_varuint bl @ concat br @ encode_varuint hl @ concat rs @ to_be_bytes cbh"
    unfolding i3 b(3) r(3) .
  then have bs: "bs = encode_varuint (of_nat (length ?m)) @ ?m @ spv_bytes (pb_proof s)"
    unfolding s spv_bytes_def using n by (simp only: LicensePurchaseBtcV1.simps BitcoinSpvProofV1.simps length_map) (simp add: comp_def)
  have "wf_btc_manifest man" "BtcLicenseManifestV1_encode man = Inr ?m"
    using man by (simp_all add: BtcLicenseManifestV1_decode_iff)
  moreover have "wf_spv (pb_proof s)"
    using b r br(1) rs(1) n(3) by (simp add: s wf_spv_def list.pred_map comp_def)
  ultimately show ?thesis
    unfolding LicensePurchaseBtcV1_payload_iff using bs by (simp add: s)
qed

section \<open>Properties\<close>

text \<open>The payload of a Bitcoin purchase round-trips exactly: a byte string decodes to a purchase if and
  only if the purchase has arrays of the right sizes, at most 64 branch entries and 64 headers, and
  encodes to that string.\<close>

theorem btc_purchase_payload_exact:
  "(LicensePurchaseBtcV1_decode_payload bs = Inr s) =
     (wf_btc_manifest (pb_manifest s) \<and> wf_spv (pb_proof s) \<and> LicensePurchaseBtcV1_payload s = Inr bs)"
  using decode_purchase_encode decode_purchase_sound by blast

end
