(* ===== verification/Effects.thy ===== *)
theory Effects
  imports Transaction
begin

text \<open>
  Effectful Rust code: programs that may return early with an error and change a state on the way,
  the TCP stream as such a state, and the signing operations of ed25519_dalek. Bytes that the peer
  will send are the unread part of the stream; a write may fail after any prefix of its bytes.
\<close>

section \<open>Programs with errors and state\<close>

type_synonym ('s, 'e, 'a) prog = "'s \<Rightarrow> ('e + 'a) \<times> 's"

definition sbind :: "('s, 'e, 'a) prog \<Rightarrow> ('a \<Rightarrow> ('s, 'e, 'b) prog) \<Rightarrow> ('s, 'e, 'b) prog" where
  "sbind m f s = (case m s of (Inl e, t) \<Rightarrow> (Inl e, t) | (Inr x, t) \<Rightarrow> f x t)"

definition slift :: "'e + 'a \<Rightarrow> ('s, 'e, 'a) prog" where
  "slift r s = (r, s)"

text \<open>An early return \<open>if b { return Err(e) }\<close>, and the conversion of the error of a callee.\<close>

definition reject_if :: "bool \<Rightarrow> 'e \<Rightarrow> ('s, 'e, unit) prog" where
  "reject_if b e s = (if b then (Inl e, s) else (Inr (), s))"

definition smap_err :: "('e \<Rightarrow> 'f) \<Rightarrow> ('s, 'e, 'a) prog \<Rightarrow> ('s, 'f, 'a) prog" where
  "smap_err g m s = (case m s of (r, t) \<Rightarrow> (map_err g r, t))"

lemma sbind_Inr [simp]: "sbind m f s = (Inr y, t) \<longleftrightarrow> (\<exists>x u. m s = (Inr x, u) \<and> f x u = (Inr y, t))"
  by (auto simp: sbind_def split: prod.splits sum.splits)

lemma sbind_eval [simp]: "m s = (Inr x, u) \<Longrightarrow> sbind m f s = f x u"
  by (simp add: sbind_def)

lemma sbind_fail [simp]: "m s = (Inl e, u) \<Longrightarrow> sbind m f s = (Inl e, u)"
  by (simp add: sbind_def)

lemma slift_Inr [simp]: "slift r s = (Inr y, t) \<longleftrightarrow> r = Inr y \<and> t = s"
  by (auto simp: slift_def)

lemma slift_eval [simp]: "slift (Inr x) s = (Inr x, s)"
  by (simp add: slift_def)

lemma reject_if_Inr [simp]: "reject_if b e s = (Inr u, t) \<longleftrightarrow> \<not> b \<and> t = s"
  by (auto simp: reject_if_def)

lemma smap_err_Inr [simp]: "smap_err g m s = (Inr y, t) \<longleftrightarrow> m s = (Inr y, t)"
  by (auto simp: smap_err_def split: prod.splits)

text \<open>What holds of the result and the final state of a program, on success and on error.\<close>

definition post :: "('s, 'e, 'a) prog \<Rightarrow> 's \<Rightarrow> ('e + 'a \<Rightarrow> 's \<Rightarrow> bool) \<Rightarrow> bool" where
  "post m s Q \<longleftrightarrow> (case m s of (x, t) \<Rightarrow> Q x t)"

named_theorems post_simps \<open>weakest preconditions\<close>

lemma post_sbind [post_simps]:
  "post (sbind m f) s Q \<longleftrightarrow> post m s (\<lambda>x t. case x of Inl e \<Rightarrow> Q (Inl e) t | Inr y \<Rightarrow> post (f y) t Q)"
  by (simp add: post_def sbind_def split: prod.splits sum.splits)

lemma post_slift [post_simps]: "post (slift r) s Q \<longleftrightarrow> Q r s"
  by (simp add: post_def slift_def)

lemma post_reject_if [post_simps]: "post (reject_if b e) s Q \<longleftrightarrow> (if b then Q (Inl e) s else Q (Inr ()) s)"
  by (simp add: post_def reject_if_def)

lemma post_any: "(\<And>x t. Q x t) \<Longrightarrow> post m s Q"
  by (simp add: post_def split: prod.splits)

lemma post_mono: "post m s P \<Longrightarrow> (\<And>x t. P x t \<Longrightarrow> Q x t) \<Longrightarrow> post m s Q"
  by (simp add: post_def split: prod.splits)

lemma postD: "post m s Q \<Longrightarrow> m s = (x, t) \<Longrightarrow> Q x t"
  by (simp add: post_def)

section \<open>TCP streams\<close>

record tcp =
  tcp_in :: bytes
  tcp_out :: bytes
  tcp_faults :: "nat option list"

definition tcp_read_exact :: "'e \<Rightarrow> nat \<Rightarrow> (tcp, 'e, bytes) prog" where
  "tcp_read_exact e n s =
     (if n \<le> length (tcp_in s) then (Inr (take n (tcp_in s)), s\<lparr>tcp_in := drop n (tcp_in s)\<rparr>)
      else (Inl e, s\<lparr>tcp_in := []\<rparr>))"

definition tcp_write_all :: "'e \<Rightarrow> bytes \<Rightarrow> (tcp, 'e, unit) prog" where
  "tcp_write_all e bs s =
     (case tcp_faults s of
        [] \<Rightarrow> (Inr (), s\<lparr>tcp_out := tcp_out s @ bs\<rparr>)
      | None # fs \<Rightarrow> (Inr (), s\<lparr>tcp_out := tcp_out s @ bs, tcp_faults := fs\<rparr>)
      | Some k # fs \<Rightarrow> (Inl e, s\<lparr>tcp_out := tcp_out s @ take k bs, tcp_faults := fs\<rparr>))"

lemma tcp_read_exact_Inr:
  "tcp_read_exact e n s = (Inr bs, t) \<longleftrightarrow>
     length bs = n \<and> tcp_in s = bs @ tcp_in t \<and> t = s\<lparr>tcp_in := tcp_in t\<rparr>"
proof
  assume "tcp_read_exact e n s = (Inr bs, t)"
  then show "length bs = n \<and> tcp_in s = bs @ tcp_in t \<and> t = s\<lparr>tcp_in := tcp_in t\<rparr>"
    by (auto simp: tcp_read_exact_def split: if_splits)
next
  assume a: "length bs = n \<and> tcp_in s = bs @ tcp_in t \<and> t = s\<lparr>tcp_in := tcp_in t\<rparr>"
  then have "tcp_read_exact e n s = (Inr bs, s\<lparr>tcp_in := tcp_in t\<rparr>)"
    by (simp add: tcp_read_exact_def)
  then show "tcp_read_exact e n s = (Inr bs, t)"
    using a by simp
qed

lemma tcp_write_all_Inr:
  "tcp_write_all e bs s = (Inr u, t) \<Longrightarrow> tcp_in t = tcp_in s \<and> tcp_out t = tcp_out s @ bs"
  by (auto simp: tcp_write_all_def split: list.splits option.splits)

section \<open>Signing keys\<close>

text \<open>The further calls made to ed25519_dalek: \<open>SigningKey::sign\<close>, \<open>SigningKey::verifying_key\<close> and
  \<open>VerifyingKey::verify_strict\<close>.\<close>

record ('k, 's) ed25519_keys = "'k ed25519_lib" +
  sk_sign :: "'s \<Rightarrow> bytes \<Rightarrow> bytes"
  sk_public :: "'s \<Rightarrow> bytes"
  vk_verify_strict :: "'k \<Rightarrow> bytes \<Rightarrow> bytes \<Rightarrow> bool"

text \<open>What is documented of them: a public key parses and has 32 bytes, a signature has 64 and is valid
  under the public key of its signer.\<close>

definition signing_sound :: "('k, 's) ed25519_keys \<Rightarrow> bool" where
  "signing_sound K \<longleftrightarrow>
     (\<forall>k. length (sk_public K k) = 32 \<and>
        (\<exists>v. vk_from_bytes K (sk_public K k) = Some v \<and>
           (\<forall>m. length (sk_sign K k m) = 64 \<and> vk_verify K v m (sk_sign K k m) \<and> vk_verify_strict K v m (sk_sign K k m))))"

end
