(* ===== verification/P2p.thy ===== *)
theory P2p
  imports Effects Codec
begin

text \<open>
  The peer-to-peer link (crates/mutiny-p2p/src/lib.rs): framing with a checksum, node ids and the
  mutual handshake of initiator and responder over a TCP stream. Nonces from the operating system
  are arguments. The theory shows that the frame reader accepts exactly the frames that the writer
  produces, that an accepted handshake carries a fresh signature over the whole transcript by the
  key that is reported, and that two honest peers complete it and agree.
\<close>

unbundle bit_operations_syntax

section \<open>Model: registry\<close>

definition P2P_VERSION :: u16 where "P2P_VERSION = 1"
definition P2P_MAGIC_MAINNET :: u32 where "P2P_MAGIC_MAINNET = 0x4D55544D"
definition P2P_MAGIC_TESTNET :: u32 where "P2P_MAGIC_TESTNET = 0x4D555454"
definition P2P_MAGIC_DEVNET :: u32 where "P2P_MAGIC_DEVNET = 0x4D555444"
definition MAX_P2P_PAYLOAD :: u32 where "MAX_P2P_PAYLOAD = push_bit 20 1"
definition MSG_CHALLENGE :: u16 where "MSG_CHALLENGE = 0x0001"
definition MSG_HELLO :: u16 where "MSG_HELLO = 0x0002"
definition MSG_HELLO_ACK :: u16 where "MSG_HELLO_ACK = 0x0003"
definition MSG_PING :: u16 where "MSG_PING = 0x0004"
definition MSG_PONG :: u16 where "MSG_PONG = 0x0005"
definition MSG_GET_ADDR :: u16 where "MSG_GET_ADDR = 0x0006"
definition MSG_ADDR :: u16 where "MSG_ADDR = 0x0007"
definition MSG_GET_HEADERS :: u16 where "MSG_GET_HEADERS = 0x0010"
definition MSG_HEADERS :: u16 where "MSG_HEADERS = 0x0011"
definition MSG_BLOCK_ANNOUNCE :: u16 where "MSG_BLOCK_ANNOUNCE = 0x0012"
definition MSG_GET_BLOCK :: u16 where "MSG_GET_BLOCK = 0x0013"
definition MSG_BLOCK :: u16 where "MSG_BLOCK = 0x0014"
definition MSG_WINNING_BLOCK :: u16 where "MSG_WINNING_BLOCK = 0x0015"
definition MSG_TX_ANNOUNCE :: u16 where "MSG_TX_ANNOUNCE = 0x0020"
definition MSG_GET_TX :: u16 where "MSG_GET_TX = 0x0021"
definition MSG_TX :: u16 where "MSG_TX = 0x0022"
definition MSG_DEVNET_TX_RESULT :: u16 where "MSG_DEVNET_TX_RESULT = 0x7F06"
definition MSG_DEVNET_BLOCK_RESULT :: u16 where "MSG_DEVNET_BLOCK_RESULT = 0x7F10"
definition CAP_FULL_NODE :: u32 where "CAP_FULL_NODE = push_bit 0 1"
definition CAP_BLOCK_RELAY :: u32 where "CAP_BLOCK_RELAY = push_bit 1 1"
definition CAP_TX_RELAY :: u32 where "CAP_TX_RELAY = push_bit 2 1"
definition CAP_STATE_PROOFS :: u32 where "CAP_STATE_PROOFS = push_bit 3 1"
definition CAP_MINER_GATEWAY :: u32 where "CAP_MINER_GATEWAY = push_bit 4 1"
definition CAP_PEER_DISCOVERY :: u32 where "CAP_PEER_DISCOVERY = push_bit 5 1"
definition CAP_BUILD4_NODE :: u32 where
  "CAP_BUILD4_NODE = CAP_FULL_NODE OR CAP_BLOCK_RELAY OR CAP_TX_RELAY OR CAP_STATE_PROOFS OR CAP_MINER_GATEWAY"
definition CAP_BUILD42_NODE :: u32 where "CAP_BUILD42_NODE = CAP_BUILD4_NODE OR CAP_PEER_DISCOVERY"
definition CAP_BUILD43_NODE :: u32 where "CAP_BUILD43_NODE = CAP_BUILD42_NODE"
definition CAP_BUILD44_NODE :: u32 where "CAP_BUILD44_NODE = CAP_BUILD43_NODE"
definition CAP_BUILD45_NODE :: u32 where "CAP_BUILD45_NODE = CAP_BUILD44_NODE"
definition CAP_BUILD451_NODE :: u32 where "CAP_BUILD451_NODE = CAP_BUILD45_NODE"
definition CAP_BUILD3_NODE :: u32 where "CAP_BUILD3_NODE = CAP_BUILD4_NODE"

datatype P2pError =
    PpIo | PpBadMagic | PpBadVersion | PpBadFlags | PpPayloadTooLarge | PpBadChecksum
  | PpUnexpectedMessage | PpNetworkMismatch | PpNonceMismatch | PpBadPublicKey | PpBadSignature
  | PpBadHandshakeLength | PpBadNodeKey

section \<open>Model: frames\<close>

record Frame =
  fr_magic :: u32
  fr_version :: u16
  fr_message_type :: u16
  fr_flags :: u16
  fr_request_id :: u64
  fr_payload :: bytes

definition Frame_new :: "u32 \<Rightarrow> u16 \<Rightarrow> u64 \<Rightarrow> bytes \<Rightarrow> P2pError + Frame" where
  "Frame_new magic message_type request_id payload =
     (if length payload > unat MAX_P2P_PAYLOAD then Inl PpPayloadTooLarge
      else Inr \<lparr>fr_magic = magic, fr_version = P2P_VERSION, fr_message_type = message_type, fr_flags = 0,
                fr_request_id = request_id, fr_payload = payload\<rparr>)"

definition checksum4 :: "(bytes \<Rightarrow> bytes) \<Rightarrow> u16 \<Rightarrow> bytes \<Rightarrow> bytes" where
  "checksum4 H message_type payload =
     (let mt = to_be_bytes message_type in take 4 (sha256_domain H P2P_CHECKSUM [mt, payload]))"

definition Frame_encode :: "(bytes \<Rightarrow> bytes) \<Rightarrow> Frame \<Rightarrow> P2pError + bytes" where
  "Frame_encode H f =
     (if length (fr_payload f) > unat MAX_P2P_PAYLOAD then Inl PpPayloadTooLarge
      else
        let c = checksum4 H (fr_message_type f) (fr_payload f);
            out = to_be_bytes (fr_magic f);
            out = out @ to_be_bytes (fr_version f);
            out = out @ to_be_bytes (fr_message_type f);
            out = out @ to_be_bytes (fr_flags f);
            out = out @ to_be_bytes (of_nat (length (fr_payload f)) :: u32);
            out = out @ to_be_bytes (fr_request_id f);
            out = out @ c
        in Inr (out @ fr_payload f))"

definition Frame_write_to :: "(bytes \<Rightarrow> bytes) \<Rightarrow> Frame \<Rightarrow> (tcp, P2pError, unit) prog" where
  "Frame_write_to H f = sbind (slift (Frame_encode H f)) (\<lambda>bs. tcp_write_all PpIo bs)"

definition Frame_read_from :: "(bytes \<Rightarrow> bytes) \<Rightarrow> u32 \<Rightarrow> (tcp, P2pError, Frame) prog" where
  "Frame_read_from H expected_magic =
     sbind (tcp_read_exact PpIo 26) (\<lambda>h.
     let magic = from_be_bytes (take 4 h)
     in sbind (reject_if (magic \<noteq> expected_magic) PpBadMagic) (\<lambda>_.
     let version = from_be_bytes (take 2 (drop 4 h))
     in sbind (reject_if (version \<noteq> P2P_VERSION) PpBadVersion) (\<lambda>_.
     let message_type = from_be_bytes (take 2 (drop 6 h));
         flags = from_be_bytes (take 2 (drop 8 h))
     in sbind (reject_if (flags \<noteq> 0) PpBadFlags) (\<lambda>_.
     let len = from_be_bytes (take 4 (drop 10 h)) :: u32
     in sbind (reject_if (len > MAX_P2P_PAYLOAD) PpPayloadTooLarge) (\<lambda>_.
     let request_id = from_be_bytes (take 8 (drop 14 h));
         expected = take 4 (drop 22 h)
     in sbind (tcp_read_exact PpIo (unat len)) (\<lambda>payload.
     sbind (reject_if (checksum4 H message_type payload \<noteq> expected) PpBadChecksum) (\<lambda>_.
     slift (Inr \<lparr>fr_magic = magic, fr_version = version, fr_message_type = message_type, fr_flags = flags,
                 fr_request_id = request_id, fr_payload = payload\<rparr>))))))))"

definition node_id :: "(bytes \<Rightarrow> bytes) \<Rightarrow> bytes \<Rightarrow> bytes" where
  "node_id H pk = sha256_domain H NODE_ID [pk]"

section \<open>Model: handshake\<close>

record PeerInfo =
  peer_node_public_key :: bytes
  peer_node_id :: bytes
  peer_capabilities :: u32
  peer_selected_version :: u16

definition transcript ::
    "(bytes \<Rightarrow> bytes) \<Rightarrow> u32 \<Rightarrow> u16 \<Rightarrow> u32 \<Rightarrow> u32 \<Rightarrow> bytes \<Rightarrow> bytes \<Rightarrow> bytes \<Rightarrow> bytes \<Rightarrow> bytes" where
  "transcript H network version ca cb pa pb na nb =
     (let n = to_be_bytes network; v = to_be_bytes version; a = to_be_bytes ca; b = to_be_bytes cb
      in sha256_domain H P2P_HANDSHAKE [n, v, a, b, pa, pb, na, nb])"

definition p2p_verify :: "('k, 's) ed25519_keys \<Rightarrow> bytes \<Rightarrow> bytes \<Rightarrow> bytes \<Rightarrow> P2pError + unit" where
  "p2p_verify K pk digest sig =
     rbind (ok_or PpBadPublicKey (vk_from_bytes K pk)) (\<lambda>vk.
       if vk_verify_strict K vk digest sig then Inr () else Inl PpBadSignature)"

definition send_new :: "(bytes \<Rightarrow> bytes) \<Rightarrow> u32 \<Rightarrow> u16 \<Rightarrow> u64 \<Rightarrow> bytes \<Rightarrow> (tcp, P2pError, unit) prog" where
  "send_new H magic message_type request_id payload =
     sbind (slift (Frame_new magic message_type request_id payload)) (\<lambda>f. Frame_write_to H f)"

definition initiator_handshake ::
    "(bytes \<Rightarrow> bytes) \<Rightarrow> ('k, 's) ed25519_keys \<Rightarrow> 's \<Rightarrow> bytes \<Rightarrow> u32 \<Rightarrow> u32 \<Rightarrow> u32 \<Rightarrow> (tcp, P2pError, PeerInfo) prog" where
  "initiator_handshake H K key na caps network magic =
     (let pa = sk_public K key;
          c = to_be_bytes network @ to_be_bytes (1 :: u16) @ to_be_bytes (1 :: u16) @ to_be_bytes caps @ pa @ na
      in sbind (send_new H magic MSG_CHALLENGE 1 c) (\<lambda>_.
      sbind (Frame_read_from H magic) (\<lambda>f.
      sbind (reject_if (fr_message_type f \<noteq> MSG_HELLO \<or> length (fr_payload f) \<noteq> 170) PpUnexpectedMessage) (\<lambda>_.
      let p = fr_payload f;
          net = from_be_bytes (take 4 p) :: u32
      in sbind (reject_if (net \<noteq> network) PpNetworkMismatch) (\<lambda>_.
      let ver = from_be_bytes (take 2 (drop 4 p)) :: u16
      in sbind (reject_if (ver \<noteq> 1) PpBadVersion) (\<lambda>_.
      let cb = from_be_bytes (take 4 (drop 6 p)) :: u32;
          pb = take 32 (drop 10 p);
          echoed = take 32 (drop 42 p)
      in sbind (reject_if (echoed \<noteq> na) PpNonceMismatch) (\<lambda>_.
      let nb = take 32 (drop 74 p);
          sig = take 64 (drop 106 p);
          t = transcript H network 1 caps cb pa pb na nb;
          hd = sha256_domain H P2P_HELLO_SIGN [t]
      in sbind (slift (p2p_verify K pb hd sig)) (\<lambda>_.
      let ad = sha256_domain H P2P_ACK_SIGN [t];
          ack = to_be_bytes network @ to_be_bytes (1 :: u16) @ nb @ sk_sign K key ad
      in sbind (send_new H magic MSG_HELLO_ACK 1 ack) (\<lambda>_.
      slift (Inr \<lparr>peer_node_public_key = pb, peer_node_id = node_id H pb, peer_capabilities = cb,
                  peer_selected_version = 1\<rparr>))))))))))"

definition responder_handshake ::
    "(bytes \<Rightarrow> bytes) \<Rightarrow> ('k, 's) ed25519_keys \<Rightarrow> 's \<Rightarrow> bytes \<Rightarrow> u32 \<Rightarrow> u32 \<Rightarrow> u32 \<Rightarrow> (tcp, P2pError, PeerInfo) prog" where
  "responder_handshake H K key nb caps network magic =
     sbind (Frame_read_from H magic) (\<lambda>f.
     sbind (reject_if (fr_message_type f \<noteq> MSG_CHALLENGE \<or> length (fr_payload f) \<noteq> 76) PpUnexpectedMessage) (\<lambda>_.
     let p = fr_payload f
     in sbind (reject_if ((from_be_bytes (take 4 p) :: u32) \<noteq> network) PpNetworkMismatch) (\<lambda>_.
     let min = from_be_bytes (take 2 (drop 4 p)) :: u16;
         max = from_be_bytes (take 2 (drop 6 p)) :: u16
     in sbind (reject_if (min > 1 \<or> max < 1) PpBadVersion) (\<lambda>_.
     let ca = from_be_bytes (take 4 (drop 8 p)) :: u32;
         pa = take 32 (drop 12 p)
     in sbind (slift (ok_or PpBadPublicKey (vk_from_bytes K pa))) (\<lambda>_.
     let na = take 32 (drop 44 p);
         pb = sk_public K key;
         t = transcript H network 1 ca caps pa pb na nb;
         hd = sha256_domain H P2P_HELLO_SIGN [t];
         hello = to_be_bytes network @ to_be_bytes (1 :: u16) @ to_be_bytes caps @ pb @ na @ nb @ sk_sign K key hd
     in sbind (send_new H magic MSG_HELLO (fr_request_id f) hello) (\<lambda>_.
     sbind (Frame_read_from H magic) (\<lambda>a.
     sbind (reject_if (fr_message_type a \<noteq> MSG_HELLO_ACK \<or> length (fr_payload a) \<noteq> 102) PpUnexpectedMessage) (\<lambda>_.
     let q = fr_payload a
     in sbind (reject_if ((from_be_bytes (take 4 q) :: u32) \<noteq> network) PpNetworkMismatch) (\<lambda>_.
     let echoed = take 32 (drop 6 q)
     in sbind (reject_if (echoed \<noteq> nb) PpNonceMismatch) (\<lambda>_.
     let sig = take 64 (drop 38 q);
         ad = sha256_domain H P2P_ACK_SIGN [t]
     in sbind (slift (p2p_verify K pa ad sig)) (\<lambda>_.
     slift (Inr \<lparr>peer_node_public_key = pa, peer_node_id = node_id H pa, peer_capabilities = ca,
                 peer_selected_version = 1\<rparr>))))))))))))"

section \<open>Frames\<close>

definition wf_frame :: "Frame \<Rightarrow> bool" where
  "wf_frame f \<longleftrightarrow> fr_version f = 1 \<and> fr_flags f = 0 \<and> length (fr_payload f) \<le> 2 ^ 20"

lemma max_payload: "unat MAX_P2P_PAYLOAD = 2 ^ 20"
  by (simp add: MAX_P2P_PAYLOAD_def)

definition frame_bytes :: "(bytes \<Rightarrow> bytes) \<Rightarrow> Frame \<Rightarrow> bytes" where
  "frame_bytes H f =
     to_be_bytes (fr_magic f) @ to_be_bytes (fr_version f) @ to_be_bytes (fr_message_type f) @ to_be_bytes (fr_flags f) @
     to_be_bytes (of_nat (length (fr_payload f)) :: u32) @ to_be_bytes (fr_request_id f) @
     checksum4 H (fr_message_type f) (fr_payload f) @ fr_payload f"

lemma Frame_encode_iff: "Frame_encode H f = Inr bs \<longleftrightarrow> length (fr_payload f) \<le> 2 ^ 20 \<and> bs = frame_bytes H f"
  by (auto simp: Frame_encode_def max_payload Let_def frame_bytes_def not_less)

definition frame_header :: "(bytes \<Rightarrow> bytes) \<Rightarrow> Frame \<Rightarrow> bytes" where
  "frame_header H f =
     to_be_bytes (fr_magic f) @ to_be_bytes (fr_version f) @ to_be_bytes (fr_message_type f) @ to_be_bytes (fr_flags f) @
     to_be_bytes (of_nat (length (fr_payload f)) :: u32) @ to_be_bytes (fr_request_id f) @
     checksum4 H (fr_message_type f) (fr_payload f)"

lemma frame_bytes_header: "frame_bytes H f = frame_header H f @ fr_payload f"
  by (simp add: frame_bytes_def frame_header_def)

lemma take_cut: "take n xs @ take k (drop n xs) = take (n + k) xs"
  by (simp add: take_add)

lemma header_cut:
  "length h = 26 \<Longrightarrow>
     take 4 h @ take 2 (drop 4 h) @ take 2 (drop 6 h) @ take 2 (drop 8 h) @ take 4 (drop 10 h) @
     take 8 (drop 14 h) @ take 4 (drop 22 h) = h"
  by (simp add: append_assoc [symmetric] take_cut del: append_assoc)

lemma Frame_read_from_sound:
  assumes "Frame_read_from H m s = (Inr f, t)"
  shows "wf_frame f \<and> fr_magic f = m \<and> tcp_in s = frame_bytes H f @ tcp_in t \<and> t = s\<lparr>tcp_in := tcp_in t\<rparr>"
proof -
  obtain h u payload where h: "tcp_read_exact PpIo 26 s = (Inr h, u)"
    and p: "tcp_read_exact PpIo (unat (from_be_bytes (take 4 (drop 10 h)) :: u32)) u = (Inr payload, t)"
    and len: "(from_be_bytes (take 4 (drop 10 h)) :: u32) \<le> MAX_P2P_PAYLOAD"
    and c: "checksum4 H (from_be_bytes (take 2 (drop 6 h))) payload = take 4 (drop 22 h)"
    and f: "f = \<lparr>fr_magic = m, fr_version = 1, fr_message_type = from_be_bytes (take 2 (drop 6 h)), fr_flags = 0,
                 fr_request_id = from_be_bytes (take 8 (drop 14 h)), fr_payload = payload\<rparr>"
    and m: "from_be_bytes (take 4 h) = m" "from_be_bytes (take 2 (drop 4 h)) = (1 :: u16)" "from_be_bytes (take 2 (drop 8 h)) = (0 :: u16)"
    using assms by (auto simp: Frame_read_from_def Let_def P2P_VERSION_def not_less)
  have l: "length h = 26" and i: "tcp_in s = h @ tcp_in u" and u: "u = s\<lparr>tcp_in := tcp_in u\<rparr>"
    using h by (simp_all only: tcp_read_exact_Inr)
  have lp: "length payload = unat (from_be_bytes (take 4 (drop 10 h)) :: u32)" and j: "tcp_in u = payload @ tcp_in t"
    and t: "t = u\<lparr>tcp_in := tcp_in t\<rparr>"
    using p by (simp_all only: tcp_read_exact_Inr)
  have n: "(of_nat (length payload) :: u32) = from_be_bytes (take 4 (drop 10 h))"
    by (simp add: lp)
  have "frame_header H f = take 4 h @ take 2 (drop 4 h) @ take 2 (drop 6 h) @ take 2 (drop 8 h) @ take 4 (drop 10 h) @
      take 8 (drop 14 h) @ take 4 (drop 22 h)"
    using l unfolding frame_header_def f by (simp add: n c to_from_be_bytes flip: m)
  then have "frame_header H f = h"
    using header_cut [OF l] by simp
  then have "tcp_in s = frame_bytes H f @ tcp_in t"
    using i j by (simp add: frame_bytes_header f)
  moreover have "length payload \<le> 2 ^ 20"
    using len lp max_payload by (simp add: word_le_nat_alt)
  moreover have "t = s\<lparr>tcp_in := tcp_in t\<rparr>"
    using t u by (metis tcp.update_convs(1) tcp.surjective tcp.select_convs)
  ultimately show ?thesis
    by (simp add: f wf_frame_def)
qed

lemma length_checksum4: "\<forall>x. length (H x) = 32 \<Longrightarrow> length (checksum4 H ty p) = 4"
  by (simp add: checksum4_def sha256_domain_def Let_def)

lemma Frame_read_from_write:
  assumes "\<forall>x. length (H x) = 32" and "wf_frame f"
  shows "Frame_read_from H (fr_magic f) (s\<lparr>tcp_in := frame_bytes H f @ rest\<rparr>) = (Inr f, s\<lparr>tcp_in := rest\<rparr>)"
proof -
  let ?h = "frame_header H f"
  have c: "length (checksum4 H (fr_message_type f) (fr_payload f)) = 4"
    by (rule length_checksum4 [OF assms(1)])
  have l: "length ?h = 26"
    by (simp add: frame_header_def c)
  have p: "length (fr_payload f) \<le> 2 ^ 20"
    using assms(2) by (simp add: wf_frame_def)
  then have n: "unat (of_nat (length (fr_payload f)) :: u32) = length (fr_payload f)"
    by (simp add: unat_of_nat take_bit_nat_eq_self_iff)
  have r1: "tcp_read_exact PpIo 26 (s\<lparr>tcp_in := ?h @ x\<rparr>) = (Inr ?h, s\<lparr>tcp_in := x\<rparr>)" for x
    using l by (simp add: tcp_read_exact_def)
  have r2: "tcp_read_exact PpIo (length (fr_payload f)) (s\<lparr>tcp_in := fr_payload f @ rest\<rparr>) = (Inr (fr_payload f), s\<lparr>tcp_in := rest\<rparr>)"
    by (simp add: tcp_read_exact_def)
  have fields: "from_be_bytes (take 4 ?h) = fr_magic f" "from_be_bytes (take 2 (drop 4 ?h)) = fr_version f"
    "from_be_bytes (take 2 (drop 6 ?h)) = fr_message_type f" "from_be_bytes (take 2 (drop 8 ?h)) = fr_flags f"
    "from_be_bytes (take 4 (drop 10 ?h)) = (of_nat (length (fr_payload f)) :: u32)"
    "from_be_bytes (take 8 (drop 14 ?h)) = fr_request_id f"
    "take 4 (drop 22 ?h) = checksum4 H (fr_message_type f) (fr_payload f)"
    by (simp_all add: frame_header_def from_to_be_bytes c)
  have ml: "(of_nat (length (fr_payload f)) :: u32) \<le> MAX_P2P_PAYLOAD"
    using p by (simp only: word_le_nat_alt n max_payload)
  have "Frame_read_from H (fr_magic f) (s\<lparr>tcp_in := ?h @ fr_payload f @ rest\<rparr>) = (Inr f, s\<lparr>tcp_in := rest\<rparr>)"
    using assms(2) ml r2 unfolding Frame_read_from_def
    by (simp add: r1 fields n Let_def reject_if_def P2P_VERSION_def wf_frame_def not_less)
  then show ?thesis
    by (simp add: frame_bytes_header)
qed

lemma Frame_read_from_iff:
  assumes "\<forall>x. length (H x) = 32"
  shows "Frame_read_from H m s = (Inr f, t) \<longleftrightarrow>
    wf_frame f \<and> fr_magic f = m \<and> tcp_in s = frame_bytes H f @ tcp_in t \<and> t = s\<lparr>tcp_in := tcp_in t\<rparr>"
proof
  assume a: "wf_frame f \<and> fr_magic f = m \<and> tcp_in s = frame_bytes H f @ tcp_in t \<and> t = s\<lparr>tcp_in := tcp_in t\<rparr>"
  then have "s = s\<lparr>tcp_in := frame_bytes H f @ tcp_in t\<rparr>"
    by (metis tcp.surjective tcp.update_convs(1))
  then show "Frame_read_from H m s = (Inr f, t)"
    using a Frame_read_from_write [OF assms, where f = f and s = s and rest = "tcp_in t"] by metis
qed (rule Frame_read_from_sound)

section \<open>Handshake runs\<close>

text \<open>A run is what one transcript fixes: network, both capability sets, both public keys and both nonces,
  the initiator first.\<close>

record run =
  run_network :: u32
  run_ca :: u32
  run_cb :: u32
  run_pa :: bytes
  run_pb :: bytes
  run_na :: bytes
  run_nb :: bytes

definition wf_run :: "run \<Rightarrow> bool" where
  "wf_run r \<longleftrightarrow> length (run_pa r) = 32 \<and> length (run_pb r) = 32 \<and> length (run_na r) = 32 \<and> length (run_nb r) = 32"

definition run_string :: "run \<Rightarrow> bytes" where
  "run_string r = P2P_HANDSHAKE @ to_be_bytes (run_network r) @ to_be_bytes (1 :: u16) @ to_be_bytes (run_ca r) @
     to_be_bytes (run_cb r) @ run_pa r @ run_pb r @ run_na r @ run_nb r"

definition run_transcript :: "(bytes \<Rightarrow> bytes) \<Rightarrow> run \<Rightarrow> bytes" where
  "run_transcript H r = transcript H (run_network r) 1 (run_ca r) (run_cb r) (run_pa r) (run_pb r) (run_na r) (run_nb r)"

definition hello_digest :: "(bytes \<Rightarrow> bytes) \<Rightarrow> run \<Rightarrow> bytes" where
  "hello_digest H r = sha256_domain H P2P_HELLO_SIGN [run_transcript H r]"

definition ack_digest :: "(bytes \<Rightarrow> bytes) \<Rightarrow> run \<Rightarrow> bytes" where
  "ack_digest H r = sha256_domain H P2P_ACK_SIGN [run_transcript H r]"

definition run_inputs :: "(bytes \<Rightarrow> bytes) \<Rightarrow> run \<Rightarrow> bytes set" where
  "run_inputs H r = {run_string r, P2P_HELLO_SIGN @ run_transcript H r, P2P_ACK_SIGN @ run_transcript H r}"

definition signs_only :: "('k, 's) ed25519_keys \<Rightarrow> bytes \<Rightarrow> bytes set \<Rightarrow> bool" where
  "signs_only K pk M \<longleftrightarrow> (\<forall>v m sig. vk_from_bytes K pk = Some v \<and> vk_verify_strict K v m sig \<longrightarrow> m \<in> M)"

lemma run_transcript_hash: "run_transcript H r = H (run_string r)"
  by (simp add: run_transcript_def transcript_def sha256_domain_def run_string_def Let_def)

lemma run_string_inj: "wf_run r \<Longrightarrow> wf_run q \<Longrightarrow> run_string r = run_string q \<Longrightarrow> r = q"
  by (cases r, cases q) (simp add: run_string_def wf_run_def)

lemma run_transcript_inj:
  assumes "wf_run r" and "wf_run q" and "inj_on H (run_inputs H r \<union> run_inputs H q)"
    and "run_transcript H r = run_transcript H q"
  shows "r = q"
  using assms(4) inj_onD [OF assms(3), of "run_string r" "run_string q"] run_string_inj [OF assms(1,2)]
  by (simp add: run_transcript_hash run_inputs_def)

lemma digest_inj:
  assumes i: "inj_on H (run_inputs H r \<union> run_inputs H q)" and w: "wf_run r" "wf_run q"
  shows "ack_digest H r = ack_digest H q \<Longrightarrow> r = q" and "hello_digest H r = hello_digest H q \<Longrightarrow> r = q"
    and "ack_digest H r \<noteq> hello_digest H q" and "hello_digest H r \<noteq> ack_digest H q"
proof -
  have sub: "inj_on H {c @ concat [run_transcript H r], d @ concat [run_transcript H q]}"
    if "c \<in> {P2P_HELLO_SIGN, P2P_ACK_SIGN}" "d \<in> {P2P_HELLO_SIGN, P2P_ACK_SIGN}" for c d
    using that by (intro inj_on_subset [OF i]) (auto simp: run_inputs_def)
  have v: "v1_tag c" if "c \<in> {P2P_HELLO_SIGN, P2P_ACK_SIGN}" for c
    using that by auto
  have bind: "c = d \<and> run_transcript H r = run_transcript H q"
    if "sha256_domain H c [run_transcript H r] = sha256_domain H d [run_transcript H q]"
      "c \<in> {P2P_HELLO_SIGN, P2P_ACK_SIGN}" "d \<in> {P2P_HELLO_SIGN, P2P_ACK_SIGN}" for c d
    using sha256_domain_binding [OF v v sub that(1)] that(2,3) by (simp only: concat.simps append_Nil2)
  show "ack_digest H r = ack_digest H q \<Longrightarrow> r = q" "hello_digest H r = hello_digest H q \<Longrightarrow> r = q"
    unfolding ack_digest_def hello_digest_def using bind run_transcript_inj [OF w i] by blast+
  have ne: "P2P_ACK_SIGN \<noteq> P2P_HELLO_SIGN" "P2P_HELLO_SIGN \<noteq> P2P_ACK_SIGN"
    by (simp_all add: domain_defs)
  show "ack_digest H r \<noteq> hello_digest H q" "hello_digest H r \<noteq> ack_digest H q"
    unfolding ack_digest_def hello_digest_def using bind ne by blast+
qed

text \<open>What each side has checked when it accepts.\<close>

lemma p2p_verify_Inr: "p2p_verify K pk m sig = Inr u \<longleftrightarrow> (\<exists>v. vk_from_bytes K pk = Some v \<and> vk_verify_strict K v m sig)"
  by (auto simp: p2p_verify_def ok_or_def rbind_def split: option.splits)

text \<open>The nonces that the two sides receive: bytes 44 to 75 of the challenge and 74 to 105 of the hello,
  each after a frame header of 26 bytes.\<close>

definition received_na :: "tcp \<Rightarrow> bytes" where
  "received_na s = take 32 (drop 70 (tcp_in s))"

definition received_nb :: "tcp \<Rightarrow> bytes" where
  "received_nb s = take 32 (drop 100 (tcp_in s))"

lemma Frame_read_from_payload:
  assumes "Frame_read_from H m s = (Inr f, t)"
  shows "fr_payload f = take (length (fr_payload f)) (drop 26 (tcp_in s))"
  using assms by (auto simp: Frame_read_from_def Let_def tcp_read_exact_Inr)

lemma received_slice:
  assumes "Frame_read_from H m s = (Inr f, t)" and "i + 32 \<le> length (fr_payload f)"
  shows "take 32 (drop i (fr_payload f)) = take 32 (drop (26 + i) (tcp_in s))"
  using assms(2) by (subst Frame_read_from_payload [OF assms(1)]) (simp add: take_drop min_def add.commute)

text \<open>The run that a responder, and the run that an initiator, has seen when it accepts.\<close>

definition responder_run :: "('k, 's) ed25519_keys \<Rightarrow> 's \<Rightarrow> bytes \<Rightarrow> u32 \<Rightarrow> u32 \<Rightarrow> PeerInfo \<Rightarrow> tcp \<Rightarrow> run" where
  "responder_run K key nonce caps network p s =
     \<lparr>run_network = network, run_ca = peer_capabilities p, run_cb = caps, run_pa = peer_node_public_key p,
      run_pb = sk_public K key, run_na = received_na s, run_nb = nonce\<rparr>"

definition initiator_run :: "('k, 's) ed25519_keys \<Rightarrow> 's \<Rightarrow> bytes \<Rightarrow> u32 \<Rightarrow> u32 \<Rightarrow> PeerInfo \<Rightarrow> tcp \<Rightarrow> run" where
  "initiator_run K key nonce caps network p s =
     \<lparr>run_network = network, run_ca = caps, run_cb = peer_capabilities p, run_pa = sk_public K key,
      run_pb = peer_node_public_key p, run_na = nonce, run_nb = received_nb s\<rparr>"

lemma send_new_in: "send_new H magic ty rid payload s = (Inr x, t) \<Longrightarrow> tcp_in t = tcp_in s"
  by (cases "tcp_faults s") (auto simp: send_new_def Frame_write_to_def tcp_write_all_def split: option.splits)

lemma responder_accepts:
  assumes "responder_handshake H K key nb caps network magic s = (Inr p, t)"
  shows "length (received_na s) = 32 \<and> length (peer_node_public_key p) = 32 \<and>
    (\<exists>v sig. vk_from_bytes K (peer_node_public_key p) = Some v \<and>
      vk_verify_strict K v (ack_digest H (responder_run K key nb caps network p s)) sig)"
proof -
  obtain f u v sig where f: "Frame_read_from H magic s = (Inr f, u)" "length (fr_payload f) = 76"
    and p: "peer_node_public_key p = take 32 (drop 12 (fr_payload f))"
      "peer_capabilities p = from_be_bytes (take 4 (drop 8 (fr_payload f)))"
    and v: "vk_from_bytes K (take 32 (drop 12 (fr_payload f))) = Some v"
      "vk_verify_strict K v (sha256_domain H P2P_ACK_SIGN [transcript H network 1 (from_be_bytes (take 4 (drop 8 (fr_payload f)))) caps
         (take 32 (drop 12 (fr_payload f))) (sk_public K key) (take 32 (drop 44 (fr_payload f))) nb]) sig"
    using assms by (auto simp: responder_handshake_def Let_def p2p_verify_Inr)
  have "received_na s = take 32 (drop 44 (fr_payload f))"
    using received_slice [OF f(1), of 44] f(2) by (simp add: received_na_def)
  then show ?thesis
    using v f(2) by (auto simp: p responder_run_def ack_digest_def run_transcript_def)
qed

lemma initiator_accepts:
  assumes "initiator_handshake H K key na caps network magic s = (Inr p, t)"
  shows "length (received_nb s) = 32 \<and> length (peer_node_public_key p) = 32 \<and>
    (\<exists>v sig. vk_from_bytes K (peer_node_public_key p) = Some v \<and>
      vk_verify_strict K v (hello_digest H (initiator_run K key na caps network p s)) sig)"
proof -
  obtain w f u v sig where w: "tcp_in w = tcp_in s" and f: "Frame_read_from H magic w = (Inr f, u)" "length (fr_payload f) = 170"
    and p: "peer_node_public_key p = take 32 (drop 10 (fr_payload f))"
      "peer_capabilities p = from_be_bytes (take 4 (drop 6 (fr_payload f)))"
    and v: "vk_from_bytes K (take 32 (drop 10 (fr_payload f))) = Some v"
      "vk_verify_strict K v (sha256_domain H P2P_HELLO_SIGN [transcript H network 1 caps (from_be_bytes (take 4 (drop 6 (fr_payload f))))
         (sk_public K key) (take 32 (drop 10 (fr_payload f))) na (take 32 (drop 74 (fr_payload f)))]) sig"
    using assms by (auto simp: initiator_handshake_def Let_def p2p_verify_Inr dest!: send_new_in)
  have "received_nb s = take 32 (drop 74 (fr_payload f))"
    using received_slice [OF f(1), of 74] f(2) by (simp add: received_nb_def w)
  then show ?thesis
    using v f(2) by (auto simp: p initiator_run_def hello_digest_def run_transcript_def)
qed

lemma signed_runs:
  assumes "wf_run r" and "\<forall>q \<in> A \<union> B. wf_run q" and "inj_on H (\<Union>q \<in> insert r (A \<union> B). run_inputs H q)"
  shows "ack_digest H r \<in> ack_digest H ` A \<union> hello_digest H ` B \<Longrightarrow> r \<in> A"
    and "hello_digest H r \<in> ack_digest H ` A \<union> hello_digest H ` B \<Longrightarrow> r \<in> B"
proof -
  have i: "inj_on H (run_inputs H r \<union> run_inputs H q)" if "q \<in> A \<union> B" for q
    using that by (intro inj_on_subset [OF assms(3)]) auto
  note d = digest_inj [OF i assms(1)]
  show "ack_digest H r \<in> ack_digest H ` A \<union> hello_digest H ` B \<Longrightarrow> r \<in> A"
    using d(1,3) assms(2) by blast
  show "hello_digest H r \<in> ack_digest H ` A \<union> hello_digest H ` B \<Longrightarrow> r \<in> B"
    using d(2,4) assms(2) by blast
qed

section \<open>Two honest peers\<close>

text \<open>The frame of a message, the streams of two connected peers, and their messages for a run.\<close>

definition new_frame :: "u32 \<Rightarrow> u16 \<Rightarrow> u64 \<Rightarrow> bytes \<Rightarrow> Frame" where
  "new_frame magic ty rid payload =
     \<lparr>fr_magic = magic, fr_version = 1, fr_message_type = ty, fr_flags = 0, fr_request_id = rid, fr_payload = payload\<rparr>"

definition link :: "bytes \<Rightarrow> bytes \<Rightarrow> tcp" where
  "link i out = \<lparr>tcp_in = i, tcp_out = out, tcp_faults = []\<rparr>"

definition challenge_payload :: "run \<Rightarrow> bytes" where
  "challenge_payload r = to_be_bytes (run_network r) @ to_be_bytes (1 :: u16) @ to_be_bytes (1 :: u16) @
     to_be_bytes (run_ca r) @ run_pa r @ run_na r"

definition hello_payload :: "run \<Rightarrow> bytes \<Rightarrow> bytes" where
  "hello_payload r sig = to_be_bytes (run_network r) @ to_be_bytes (1 :: u16) @ to_be_bytes (run_cb r) @ run_pb r @
     run_na r @ run_nb r @ sig"

definition ack_payload :: "run \<Rightarrow> bytes \<Rightarrow> bytes" where
  "ack_payload r sig = to_be_bytes (run_network r) @ to_be_bytes (1 :: u16) @ run_nb r @ sig"

definition initiator_bytes :: "(bytes \<Rightarrow> bytes) \<Rightarrow> u32 \<Rightarrow> run \<Rightarrow> bytes \<Rightarrow> bytes" where
  "initiator_bytes H magic r sig =
     frame_bytes H (new_frame magic MSG_CHALLENGE 1 (challenge_payload r)) @
     frame_bytes H (new_frame magic MSG_HELLO_ACK 1 (ack_payload r sig))"

definition responder_bytes :: "(bytes \<Rightarrow> bytes) \<Rightarrow> u32 \<Rightarrow> run \<Rightarrow> bytes \<Rightarrow> bytes" where
  "responder_bytes H magic r sig = frame_bytes H (new_frame magic MSG_HELLO 1 (hello_payload r sig))"

lemma new_frame_fields [simp]:
  "fr_message_type (new_frame magic ty rid payload) = ty" "fr_payload (new_frame magic ty rid payload) = payload"
  "fr_request_id (new_frame magic ty rid payload) = rid"
  by (simp_all add: new_frame_def)

lemma send_new_link:
  "length payload \<le> 2 ^ 20 \<Longrightarrow>
     send_new H magic ty rid payload (link i out) = (Inr (), link i (out @ frame_bytes H (new_frame magic ty rid payload)))"
  by (simp add: send_new_def Frame_new_def max_payload slift_def Frame_write_to_def Frame_encode_iff
      tcp_write_all_def link_def new_frame_def P2P_VERSION_def Frame_encode_iff [THEN iffD2])

lemma Frame_read_from_link:
  assumes "\<forall>x. length (H x) = 32" and "length payload \<le> 2 ^ 20"
  shows "Frame_read_from H magic (link (frame_bytes H (new_frame magic ty rid payload) @ i) out) =
     (Inr (new_frame magic ty rid payload), link i out)"
  using Frame_read_from_write [OF assms(1), where f = "new_frame magic ty rid payload" and s = "link i out"] assms(2)
  by (simp add: wf_frame_def new_frame_def link_def)

definition good_signature :: "('k, 's) ed25519_keys \<Rightarrow> 's \<Rightarrow> bytes \<Rightarrow> bool" where
  "good_signature K k m \<longleftrightarrow> length (sk_sign K k m) = 64 \<and> p2p_verify K (sk_public K k) m (sk_sign K k m) = Inr ()"

lemma good_signature: "signing_sound K \<Longrightarrow> good_signature K k m"
  unfolding good_signature_def p2p_verify_Inr signing_sound_def by blast

lemma initiator_completes:
  assumes h: "\<forall>x. length (H x) = 32" and k: "good_signature K ka (ack_digest H r)" "good_signature K kb (hello_digest H r)"
    and r: "wf_run r" "run_pa r = sk_public K ka" "run_pb r = sk_public K kb"
  shows "initiator_handshake H K ka (run_na r) (run_ca r) (run_network r) magic
      (link (responder_bytes H magic r (sk_sign K kb (hello_digest H r))) []) =
    (Inr \<lparr>peer_node_public_key = sk_public K kb, peer_node_id = node_id H (sk_public K kb), peer_capabilities = run_cb r,
          peer_selected_version = 1\<rparr>,
     link [] (initiator_bytes H magic r (sk_sign K ka (ack_digest H r))))"
proof -
  have w: "length (run_pa r) = 32" "length (run_pb r) = 32" "length (run_na r) = 32" "length (run_nb r) = 32"
    using r(1) by (simp_all add: wf_run_def)
  have read: "Frame_read_from H magic (link (responder_bytes H magic r sg) out) =
      (Inr (new_frame magic MSG_HELLO 1 (hello_payload r sg)), link [] out)" if "length sg = 64" for sg out
    using Frame_read_from_link [OF h, of "hello_payload r sg" magic MSG_HELLO 1 "[]" out] that w
    by (simp add: responder_bytes_def hello_payload_def)
  have send: "send_new H magic MSG_CHALLENGE 1 (challenge_payload r) (link i []) =
      (Inr (), link i (frame_bytes H (new_frame magic MSG_CHALLENGE 1 (challenge_payload r))))" for i
    using send_new_link [of "challenge_payload r"] w by (simp add: challenge_payload_def)
  have ack: "send_new H magic MSG_HELLO_ACK 1 (ack_payload r sg) (link [] out) =
      (Inr (), link [] (out @ frame_bytes H (new_frame magic MSG_HELLO_ACK 1 (ack_payload r sg))))" if "length sg = 64" for sg out
    using send_new_link [of "ack_payload r sg"] w that by (simp add: ack_payload_def)
  have fields: "from_be_bytes (take 4 (hello_payload r sg)) = run_network r"
    "from_be_bytes (take 2 (drop 4 (hello_payload r sg))) = (1 :: u16)"
    "from_be_bytes (take 4 (drop 6 (hello_payload r sg))) = run_cb r" "take 32 (drop 10 (hello_payload r sg)) = run_pb r"
    "take 32 (drop 42 (hello_payload r sg)) = run_na r" "take 32 (drop 74 (hello_payload r sg)) = run_nb r"
    "take 64 (drop 106 (hello_payload r sg)) = sg" "length (hello_payload r sg) = 170" if "length sg = 64" for sg
    using that w by (simp_all add: hello_payload_def from_to_be_bytes)
  let ?sg = "sk_sign K kb (hello_digest H r)"
  have t: "transcript H (run_network r) 1 (run_ca r) (run_cb r) (sk_public K ka) (run_pb r) (run_na r) (run_nb r) = run_transcript H r"
    by (simp add: run_transcript_def r)
  have v: "p2p_verify K (run_pb r) (hello_digest H r) ?sg = Inr ()"
    using k by (simp add: r good_signature_def)
  define sg where "sg = sk_sign K kb (hello_digest H r)"
  have sg: "length sg = 64"
    using k by (simp add: sg_def good_signature_def)
  define ad where "ad = sk_sign K ka (ack_digest H r)"
  have ad: "length ad = 64"
    using k by (simp add: ad_def good_signature_def)
  note hello = fields [OF sg] read [OF sg] ack [OF ad]
  show ?thesis
    unfolding initiator_handshake_def Let_def challenge_payload_def [symmetric, of r, unfolded r(2)] sg_def [symmetric] ad_def [symmetric]
    by (simp add: send hello reject_if_def t initiator_bytes_def v [folded sg_def] ad_def [symmetric]
        flip: hello_digest_def ack_digest_def ack_payload_def) (simp add: r)
qed

lemma responder_completes:
  assumes h: "\<forall>x. length (H x) = 32" and k: "good_signature K ka (ack_digest H r)" "good_signature K kb (hello_digest H r)"
    and r: "wf_run r" "run_pa r = sk_public K ka" "run_pb r = sk_public K kb"
  shows "responder_handshake H K kb (run_nb r) (run_cb r) (run_network r) magic
      (link (initiator_bytes H magic r (sk_sign K ka (ack_digest H r))) []) =
    (Inr \<lparr>peer_node_public_key = sk_public K ka, peer_node_id = node_id H (sk_public K ka), peer_capabilities = run_ca r,
          peer_selected_version = 1\<rparr>,
     link [] (responder_bytes H magic r (sk_sign K kb (hello_digest H r))))"
proof -
  have w: "length (run_pa r) = 32" "length (run_pb r) = 32" "length (run_na r) = 32" "length (run_nb r) = 32"
    using r(1) by (simp_all add: wf_run_def)
  define sg where "sg = sk_sign K kb (hello_digest H r)"
  define ad where "ad = sk_sign K ka (ack_digest H r)"
  have l: "length sg = 64" "length ad = 64"
    using k by (simp_all add: sg_def ad_def good_signature_def)
  have len: "length (challenge_payload r) = 76" "length (hello_payload r sg) = 170" "length (ack_payload r ad) = 102"
    using w l by (simp_all add: challenge_payload_def hello_payload_def ack_payload_def)
  have r1: "Frame_read_from H magic (link (initiator_bytes H magic r ad) []) =
      (Inr (new_frame magic MSG_CHALLENGE 1 (challenge_payload r)),
       link (frame_bytes H (new_frame magic MSG_HELLO_ACK 1 (ack_payload r ad))) [])"
    unfolding initiator_bytes_def by (rule Frame_read_from_link [OF h]) (simp add: len)
  have r2: "Frame_read_from H magic (link (frame_bytes H (new_frame magic MSG_HELLO_ACK 1 (ack_payload r ad))) out) =
      (Inr (new_frame magic MSG_HELLO_ACK 1 (ack_payload r ad)), link [] out)" for out
    using Frame_read_from_link [OF h, of "ack_payload r ad" magic MSG_HELLO_ACK 1 "[]"] len by simp
  have send: "send_new H magic MSG_HELLO 1 (hello_payload r sg) (link i []) = (Inr (), link i (responder_bytes H magic r sg))" for i
    using send_new_link [of "hello_payload r sg"] len by (simp add: responder_bytes_def)
  have c: "from_be_bytes (take 4 (challenge_payload r)) = run_network r"
    "from_be_bytes (take 2 (drop 4 (challenge_payload r))) = (1 :: u16)"
    "from_be_bytes (take 2 (drop 6 (challenge_payload r))) = (1 :: u16)"
    "from_be_bytes (take 4 (drop 8 (challenge_payload r))) = run_ca r" "take 32 (drop 12 (challenge_payload r)) = run_pa r"
    "take 32 (drop 44 (challenge_payload r)) = run_na r"
    using w by (simp_all add: challenge_payload_def from_to_be_bytes)
  have a: "from_be_bytes (take 4 (ack_payload r ad)) = run_network r" "take 32 (drop 6 (ack_payload r ad)) = run_nb r"
    "take 64 (drop 38 (ack_payload r ad)) = ad"
    using w l by (simp_all add: ack_payload_def from_to_be_bytes)
  have t: "transcript H (run_network r) 1 (run_ca r) (run_cb r) (run_pa r) (sk_public K kb) (run_na r) (run_nb r) = run_transcript H r"
    by (simp add: run_transcript_def r)
  have v: "p2p_verify K (run_pa r) (ack_digest H r) ad = Inr ()"
    using k by (simp add: r ad_def good_signature_def)
  then obtain x where pk: "vk_from_bytes K (run_pa r) = Some x"
    unfolding p2p_verify_Inr by blast
  have hp: "to_be_bytes (run_network r) @ to_be_bytes (1 :: u16) @ to_be_bytes (run_cb r) @ sk_public K kb @ run_na r @ run_nb r @ sg =
      hello_payload r sg"
    by (simp add: hello_payload_def r)
  show ?thesis
    unfolding responder_handshake_def Let_def sg_def [symmetric] ad_def [symmetric]
    by (simp add: r1 r2 c a len t v hp send reject_if_def sg_def [symmetric] pk
        flip: hello_digest_def ack_digest_def) (simp_all add: r)
qed

text \<open>A key library in which key \<open>k\<close> has the public key of 32 bytes \<open>k\<close> and every signature is of zeros.\<close>

definition zero_keys :: "bytes set \<Rightarrow> (bytes, u8) ed25519_keys" where
  "zero_keys M = \<lparr>vk_from_bytes = Some, vk_verify = (\<lambda>k d s. d \<in> M), sk_sign = (\<lambda>k d. replicate 64 0),
     sk_public = (\<lambda>k. replicate 32 k), vk_verify_strict = (\<lambda>k d s. d \<in> M)\<rparr>"

section \<open>Properties\<close>

text \<open>Frames are exact: on any stream, \<open>read_from\<close> accepts a frame if and only if the unread bytes
  start with the encoding of that frame and the frame has the expected magic, version 1, no flags
  and a payload within the limit; it then consumes exactly those bytes.\<close>

theorem frame_read_exact:
  assumes "\<forall>x. length (H x) = 32"
  shows "Frame_read_from H magic s = (Inr f, t) \<longleftrightarrow>
    (\<exists>bs. Frame_encode H f = Inr bs \<and> tcp_in s = bs @ tcp_in t) \<and>
    fr_magic f = magic \<and> fr_version f = P2P_VERSION \<and> fr_flags f = 0 \<and> t = s\<lparr>tcp_in := tcp_in t\<rparr>"
  unfolding Frame_read_from_iff [OF assms] Frame_encode_iff wf_frame_def P2P_VERSION_def by blast

theorem frame_read_exact_witness:
  "Frame_read_from tail_hash 7 (link (frame_bytes tail_hash (new_frame 7 MSG_PING 1 [1, 2]) @ [9]) []) =
     (Inr (new_frame 7 MSG_PING 1 [1, 2]), link [9] [])"
proof -
  have "\<forall>x. length (tail_hash x) = 32"
    by (simp add: length_tail_hash)
  from frame_read_exact [OF this] show ?thesis
    by (simp add: Frame_encode_iff link_def P2P_VERSION_def new_frame_def)
qed

text \<open>A hash that keeps the first bytes of its input.\<close>

definition head_hash :: "bytes \<Rightarrow> bytes" where
  "head_hash x = take 32 (x @ replicate 32 0)"

lemma length_head_hash: "length (head_hash x) = 32"
  by (simp add: head_hash_def)

lemma head_hash_run_inj: "inj_on head_hash (run_inputs head_hash r)"
proof -
  have "head_hash (P2P_HELLO_SIGN @ x) \<noteq> head_hash (P2P_ACK_SIGN @ y)" "head_hash (P2P_HANDSHAKE @ x) \<noteq> head_hash (P2P_HELLO_SIGN @ y)"
    "head_hash (P2P_HANDSHAKE @ x) \<noteq> head_hash (P2P_ACK_SIGN @ y)" for x y
    by (simp_all add: head_hash_def domain_defs) (simp_all add: ascii_def)
  note ne = this this [symmetric]
  show ?thesis
    unfolding run_inputs_def run_string_def inj_on_def by (auto simp: ne)
qed

text \<open>C10. Accepted handshakes agree. Suppose that a peer's key only ever signed the acknowledgements of the
  runs \<open>A\<close> and the hellos of the runs \<open>B\<close>, and let the hash have no collision on the strings hashed
  in those runs and in the run at hand. If a responder accepts that peer, then the run at hand, with
  this network, the capabilities and keys of both sides, the nonce received in the challenge and
  the responder's own nonce, is one of \<open>A\<close>: the peer took part in it as initiator. If an initiator accepts
  the peer, then the run with the initiator's values and the nonce received in the hello is one of \<open>B\<close>.\<close>

theorem handshake_agreement:
  assumes wf: "\<forall>r \<in> A \<union> B. wf_run r" and own: "length (sk_public K key) = 32" "length nonce = 32"
    and signed: "signs_only K (peer_node_public_key p) (ack_digest H ` A \<union> hello_digest H ` B)"
  shows "(responder_handshake H K key nonce caps network magic s = (Inr p, t) \<and>
      inj_on H (\<Union>q \<in> insert (responder_run K key nonce caps network p s) (A \<union> B). run_inputs H q) \<longrightarrow>
      responder_run K key nonce caps network p s \<in> A) \<and>
    (initiator_handshake H K key nonce caps network magic s = (Inr p, t) \<and>
      inj_on H (\<Union>q \<in> insert (initiator_run K key nonce caps network p s) (A \<union> B). run_inputs H q) \<longrightarrow>
      initiator_run K key nonce caps network p s \<in> B)"
proof (intro conjI impI; elim conjE)
  let ?r = "responder_run K key nonce caps network p s"
  assume run: "responder_handshake H K key nonce caps network magic s = (Inr p, t)"
    and inj: "inj_on H (\<Union>q \<in> insert ?r (A \<union> B). run_inputs H q)"
  have "wf_run ?r"
    using responder_accepts [OF run] own by (simp add: wf_run_def responder_run_def)
  then show "?r \<in> A"
    using signed_runs(1) [OF _ wf inj] responder_accepts [OF run] signed unfolding signs_only_def by blast
next
  let ?r = "initiator_run K key nonce caps network p s"
  assume run: "initiator_handshake H K key nonce caps network magic s = (Inr p, t)"
    and inj: "inj_on H (\<Union>q \<in> insert ?r (A \<union> B). run_inputs H q)"
  have "wf_run ?r"
    using initiator_accepts [OF run] own by (simp add: wf_run_def initiator_run_def)
  then show "?r \<in> B"
    using signed_runs(2) [OF _ wf inj] initiator_accepts [OF run] signed unfolding signs_only_def by blast
qed

theorem handshake_agreement_witness:
  "let r = \<lparr>run_network = 9, run_ca = 3, run_cb = 4, run_pa = replicate 32 1, run_pb = replicate 32 2,
         run_na = replicate 32 5, run_nb = replicate 32 6\<rparr>;
       K = zero_keys {ack_digest head_hash r, hello_digest head_hash r};
       a = \<lparr>peer_node_public_key = replicate 32 1, peer_node_id = node_id head_hash (replicate 32 1), peer_capabilities = 3,
            peer_selected_version = 1\<rparr>;
       b = \<lparr>peer_node_public_key = replicate 32 2, peer_node_id = node_id head_hash (replicate 32 2), peer_capabilities = 4,
            peer_selected_version = 1\<rparr>
   in inj_on head_hash (run_inputs head_hash r) \<and>
      (\<exists>s t. responder_handshake head_hash K 2 (replicate 32 6) 4 9 7 s = (Inr a, t) \<and>
         responder_run K 2 (replicate 32 6) 4 9 a s \<in> {r}) \<and>
      (\<exists>s t. initiator_handshake head_hash K 1 (replicate 32 5) 3 9 7 s = (Inr b, t) \<and>
         initiator_run K 1 (replicate 32 5) 3 9 b s \<in> {r})"
proof -
  define r where "r = \<lparr>run_network = 9, run_ca = 3, run_cb = 4, run_pa = replicate 32 1, run_pb = replicate 32 2,
         run_na = replicate 32 5, run_nb = replicate 32 (6 :: u8)\<rparr>"
  define K where "K = zero_keys {ack_digest head_hash r, hello_digest head_hash r}"
  define a where "a = \<lparr>peer_node_public_key = replicate 32 1, peer_node_id = node_id head_hash (replicate 32 1), peer_capabilities = 3,
            peer_selected_version = 1\<rparr>"
  define b where "b = \<lparr>peer_node_public_key = replicate 32 2, peer_node_id = node_id head_hash (replicate 32 2), peer_capabilities = 4,
            peer_selected_version = 1\<rparr>"
  define s where "s = link (initiator_bytes head_hash 7 r (sk_sign K 1 (ack_digest head_hash r))) []"
  define u where "u = link (responder_bytes head_hash 7 r (sk_sign K 2 (hello_digest head_hash r))) []"
  have K: "sk_public K k = replicate 32 k" "good_signature K k (ack_digest head_hash r)" "good_signature K k (hello_digest head_hash r)" for k
    by (simp_all add: K_def zero_keys_def good_signature_def p2p_verify_def)
  have H: "\<forall>x. length (head_hash x) = 32"
    by (simp add: length_head_hash)
  have wf: "wf_run r" "\<forall>q \<in> {r} \<union> {r}. wf_run q"
    by (simp_all add: wf_run_def r_def)
  obtain t where resp: "responder_handshake head_hash K 2 (replicate 32 6) 4 9 7 s = (Inr a, t)"
    using responder_completes [where H = head_hash and K = K and r = r and ka = 1 and kb = 2 and magic = 7, OF H K(2,3) wf(1)]
    by (simp add: K(1) s_def) (simp add: r_def a_def)
  obtain t' where init: "initiator_handshake head_hash K 1 (replicate 32 5) 3 9 7 u = (Inr b, t')"
    using initiator_completes [where H = head_hash and K = K and r = r and ka = 1 and kb = 2 and magic = 7, OF H K(2,3) wf(1)]
    by (simp add: K(1) u_def) (simp add: r_def b_def)
  have signed: "signs_only K pk (ack_digest head_hash ` {r} \<union> hello_digest head_hash ` {r})" for pk
    by (auto simp: signs_only_def K_def zero_keys_def)
  have frame: "length (frame_header head_hash f) = 26" for f
    by (simp add: frame_header_def length_checksum4 [OF H])
  have runs: "responder_run K 2 (replicate 32 6) 4 9 a s = r" "initiator_run K 1 (replicate 32 5) 3 9 b u = r"
    by (simp_all add: responder_run_def initiator_run_def K(1) received_na_def received_nb_def s_def u_def link_def initiator_bytes_def
        responder_bytes_def frame_bytes_header frame)
      (simp_all add: challenge_payload_def hello_payload_def a_def b_def r_def)
  have inj: "inj_on head_hash (run_inputs head_hash r)"
    by (rule head_hash_run_inj)
  have own: "length (sk_public K k) = 32" "length (replicate 32 (n :: u8)) = 32" for k n
    by (simp_all add: K(1))
  have "responder_run K 2 (replicate 32 6) 4 9 a s \<in> {r}"
    by (rule mp [OF conjunct1 [OF handshake_agreement [OF wf(2) own signed]] conjI [OF resp]]) (simp add: runs inj)
  moreover have "initiator_run K 1 (replicate 32 5) 3 9 b u \<in> {r}"
    by (rule mp [OF conjunct2 [OF handshake_agreement [OF wf(2) own signed]] conjI [OF init]]) (simp add: runs inj)
  ultimately show ?thesis
    using resp init inj unfolding Let_def r_def [symmetric] K_def [symmetric] a_def [symmetric] b_def [symmetric] by blast
qed

text \<open>C32. The handshake completes: two honest peers on the same network, connected to each other, both
  accept, each reports the other's key and capabilities and version 1, and no bytes stay unread.\<close>

theorem handshake_completes:
  assumes "\<forall>x. length (H x) = 32" and "signing_sound K" and "length na = 32" and "length nb = 32"
  shows "\<exists>wa wb.
    initiator_handshake H K ka na ca network magic (link wb []) =
      (Inr \<lparr>peer_node_public_key = sk_public K kb, peer_node_id = node_id H (sk_public K kb), peer_capabilities = cb,
            peer_selected_version = 1\<rparr>, link [] wa) \<and>
    responder_handshake H K kb nb cb network magic (link wa []) =
      (Inr \<lparr>peer_node_public_key = sk_public K ka, peer_node_id = node_id H (sk_public K ka), peer_capabilities = ca,
            peer_selected_version = 1\<rparr>, link [] wb)"
proof -
  let ?r = "\<lparr>run_network = network, run_ca = ca, run_cb = cb, run_pa = sk_public K ka, run_pb = sk_public K kb,
    run_na = na, run_nb = nb\<rparr>"
  have "wf_run ?r"
    using assms by (simp add: wf_run_def signing_sound_def)
  from initiator_completes [OF assms(1) good_signature good_signature this, OF assms(2,2), of ka kb magic]
    responder_completes [OF assms(1) good_signature good_signature this, OF assms(2,2), of ka kb magic]
  show ?thesis by auto
qed

lemma zero_keys_sound: "signing_sound (zero_keys UNIV)"
  by (simp add: signing_sound_def zero_keys_def)

theorem handshake_completes_witness:
  "signing_sound (zero_keys UNIV) \<and> (\<exists>wa wb.
    initiator_handshake tail_hash (zero_keys UNIV) 1 (replicate 32 5) 3 9 7 (link wb []) =
      (Inr \<lparr>peer_node_public_key = replicate 32 2, peer_node_id = node_id tail_hash (replicate 32 2), peer_capabilities = 4,
            peer_selected_version = 1\<rparr>, link [] wa) \<and>
    responder_handshake tail_hash (zero_keys UNIV) 2 (replicate 32 6) 4 9 7 (link wa []) =
      (Inr \<lparr>peer_node_public_key = replicate 32 1, peer_node_id = node_id tail_hash (replicate 32 1), peer_capabilities = 3,
            peer_selected_version = 1\<rparr>, link [] wb))"
proof -
  have "\<forall>x. length (tail_hash x) = 32"
    by (simp add: length_tail_hash)
  from handshake_completes [OF this zero_keys_sound, where ka = 1 and kb = 2 and na = "replicate 32 5" and nb = "replicate 32 6"
      and ca = 3 and cb = 4 and network = 9 and magic = 7]
  show ?thesis
    by (simp add: zero_keys_sound) (simp add: zero_keys_def)
qed

end
