(* ===== verification/Worker.thy ===== *)
theory Worker
  imports P2p Consensus
begin

text \<open>
  The worker link (crates/mutiny-worker/src/lib.rs): the fixed-size Pack-L messages between a node and
  its external workers, their signatures, the ticket key, and the budget of unique tickets. Every
  decoder is shown to accept exactly the encodings of well-formed messages, the signed strings
  determine their messages, and a budget never holds more tickets than the work allocation.
\<close>

section \<open>Model: registry\<close>

definition PACK_L_VERSION :: u16 where "PACK_L_VERSION = 1"
definition WORKER_MAGIC_MAINNET :: u32 where "WORKER_MAGIC_MAINNET = 0x4D55574D"
definition WORKER_MAGIC_TESTNET :: u32 where "WORKER_MAGIC_TESTNET = 0x4D555754"
definition WORKER_MAGIC_DEVNET :: u32 where "WORKER_MAGIC_DEVNET = 0x4D555744"
definition MSG_WORKER_HELLO :: u16 where "MSG_WORKER_HELLO = 0x0201"
definition MSG_NODE_CHALLENGE :: u16 where "MSG_NODE_CHALLENGE = 0x0202"
definition MSG_WORKER_AUTH :: u16 where "MSG_WORKER_AUTH = 0x0203"
definition MSG_NODE_ACCEPT :: u16 where "MSG_NODE_ACCEPT = 0x0204"
definition MSG_WORK_ASSIGNMENT :: u16 where "MSG_WORK_ASSIGNMENT = 0x0210"
definition MSG_WORK_RESULT :: u16 where "MSG_WORK_RESULT = 0x0211"
definition MSG_WORK_CANCEL :: u16 where "MSG_WORK_CANCEL = 0x0212"
definition MSG_WORK_REJECT :: u16 where "MSG_WORK_REJECT = 0x0213"
definition MSG_WORKER_PING :: u16 where "MSG_WORKER_PING = 0x0220"
definition MSG_WORKER_PONG :: u16 where "MSG_WORKER_PONG = 0x0221"
definition RESULT_NO_WIN :: u8 where "RESULT_NO_WIN = 0x00"
definition RESULT_WIN :: u8 where "RESULT_WIN = 0x01"
definition ALGORITHM_PACK_A_ARGON2ID :: u16 where "ALGORITHM_PACK_A_ARGON2ID = 0x0001"
definition ALGORITHM_PACK_A_ARGON2ID_V1 :: u16 where "ALGORITHM_PACK_A_ARGON2ID_V1 = 0x0001"
definition WORKER_HELLO_LEN :: nat where "WORKER_HELLO_LEN = 80"
definition NODE_CHALLENGE_LEN :: nat where "NODE_CHALLENGE_LEN = 174"
definition WORK_ASSIGNMENT_CORE_LEN :: nat where "WORK_ASSIGNMENT_CORE_LEN = 278"
definition WORK_ASSIGNMENT_LEN :: nat where "WORK_ASSIGNMENT_LEN = 406"
definition WORK_RESULT_CORE_LEN :: nat where "WORK_RESULT_CORE_LEN = 167"
definition WORK_RESULT_LEN :: nat where "WORK_RESULT_LEN = 231"
definition WORK_CANCEL_CORE_LEN :: nat where "WORK_CANCEL_CORE_LEN = 103"
definition WORK_CANCEL_LEN :: nat where "WORK_CANCEL_LEN = 167"
definition WORK_REJECT_LEN :: nat where "WORK_REJECT_LEN = 74"

definition DOMAIN_WORKER_ID :: bytes where "DOMAIN_WORKER_ID = ascii ''MUTINY-WORKER-ID-V1''"
definition DOMAIN_WORKER_AUTH :: bytes where "DOMAIN_WORKER_AUTH = ascii ''MUTINY-WORKER-AUTH-V1''"
definition DOMAIN_NODE_ACCEPT :: bytes where "DOMAIN_NODE_ACCEPT = ascii ''MUTINY-NODE-WORKER-ACCEPT-V1''"
definition DOMAIN_SESSION_ID :: bytes where "DOMAIN_SESSION_ID = ascii ''MUTINY-WORKER-SESSION-ID-V1''"
definition DOMAIN_TICKET_KEY :: bytes where "DOMAIN_TICKET_KEY = ascii ''MUTINY-WORK-TICKET-KEY-V1''"
definition DOMAIN_ASSIGNMENT_ID :: bytes where "DOMAIN_ASSIGNMENT_ID = ascii ''MUTINY-WORK-ASSIGNMENT-ID-V1''"
definition DOMAIN_ASSIGNMENT_SIGNATURE :: bytes where "DOMAIN_ASSIGNMENT_SIGNATURE = ascii ''MUTINY-WORK-ASSIGNMENT-V1''"
definition DOMAIN_RESULT_SIGNATURE :: bytes where "DOMAIN_RESULT_SIGNATURE = ascii ''MUTINY-WORK-RESULT-V1''"
definition DOMAIN_CANCEL_SIGNATURE :: bytes where "DOMAIN_CANCEL_SIGNATURE = ascii ''MUTINY-WORK-CANCEL-V1''"

datatype PackLError =
    PlInvalidLength nat nat
  | PlInvalidVersion u16
  | PlInvalidField string
  | PlInvalidSignature
  | PlReplay
  | PlOutOfBudget

definition hash_parts :: "(bytes \<Rightarrow> bytes) \<Rightarrow> bytes \<Rightarrow> bytes list \<Rightarrow> bytes" where
  "hash_parts H domain parts = H (foldl (@) domain parts)"

section \<open>Model: reader and writer\<close>

definition push_u16 :: "bytes \<Rightarrow> u16 \<Rightarrow> bytes" where "push_u16 out v = out @ to_be_bytes v"
definition push_u32 :: "bytes \<Rightarrow> u32 \<Rightarrow> bytes" where "push_u32 out v = out @ to_be_bytes v"
definition push_u64 :: "bytes \<Rightarrow> u64 \<Rightarrow> bytes" where "push_u64 out v = out @ to_be_bytes v"

record Reader =
  rd_bytes :: bytes
  rd_pos :: nat

definition Reader_new :: "bytes \<Rightarrow> Reader" where
  "Reader_new bs = \<lparr>rd_bytes = bs, rd_pos = 0\<rparr>"

definition Reader_take :: "nat \<Rightarrow> (Reader, PackLError, bytes) prog" where
  "Reader_take n r =
     (let end = rd_pos r + n
      in if end \<ge> 2 ^ 64 then (Inl (PlInvalidField ''reader overflow''), r)
         else if end > length (rd_bytes r) then (Inl (PlInvalidLength end (length (rd_bytes r))), r)
         else (Inr (take n (drop (rd_pos r) (rd_bytes r))), r\<lparr>rd_pos := end\<rparr>))"

definition Reader_u8 :: "(Reader, PackLError, u8) prog" where
  "Reader_u8 = sbind (Reader_take 1) (\<lambda>b. slift (Inr (b ! 0)))"

definition Reader_u16 :: "(Reader, PackLError, u16) prog" where
  "Reader_u16 = sbind (Reader_take 2) (\<lambda>b. slift (Inr (from_be_bytes b)))"

definition Reader_u32 :: "(Reader, PackLError, u32) prog" where
  "Reader_u32 = sbind (Reader_take 4) (\<lambda>b. slift (Inr (from_be_bytes b)))"

definition Reader_u64 :: "(Reader, PackLError, u64) prog" where
  "Reader_u64 = sbind (Reader_take 8) (\<lambda>b. slift (Inr (from_be_bytes b)))"

definition Reader_finish :: "(Reader, PackLError, unit) prog" where
  "Reader_finish r =
     (if rd_pos r = length (rd_bytes r) then Inr () else Inl (PlInvalidLength (rd_pos r) (length (rd_bytes r))), r)"

definition is_pack_l_message_type :: "u16 \<Rightarrow> bool" where
  "is_pack_l_message_type message_type \<longleftrightarrow>
     message_type = MSG_WORKER_HELLO \<or> message_type = MSG_NODE_CHALLENGE \<or> message_type = MSG_WORKER_AUTH \<or>
     message_type = MSG_NODE_ACCEPT \<or> message_type = MSG_WORK_ASSIGNMENT \<or> message_type = MSG_WORK_RESULT \<or>
     message_type = MSG_WORK_CANCEL \<or> message_type = MSG_WORK_REJECT \<or> message_type = MSG_WORKER_PING \<or>
     message_type = MSG_WORKER_PONG"

definition worker_id :: "(bytes \<Rightarrow> bytes) \<Rightarrow> u32 \<Rightarrow> bytes \<Rightarrow> bytes" where
  "worker_id H network_id worker_public_key =
     (let network = to_be_bytes network_id in hash_parts H DOMAIN_WORKER_ID [network, worker_public_key])"

section \<open>Model: session messages\<close>

record WorkerHelloV1 =
  wh_network_id :: u32
  wh_worker_public_key :: bytes
  wh_worker_nonce :: bytes
  wh_capabilities :: u64
  wh_max_parallelism :: u16

definition WorkerHelloV1_encode :: "WorkerHelloV1 \<Rightarrow> bytes" where
  "WorkerHelloV1_encode h =
     (let out = push_u16 [] PACK_L_VERSION;
          out = push_u32 out (wh_network_id h);
          out = out @ wh_worker_public_key h;
          out = out @ wh_worker_nonce h;
          out = push_u64 out (wh_capabilities h)
      in push_u16 out (wh_max_parallelism h))"

definition WorkerHelloV1_decode :: "bytes \<Rightarrow> PackLError + WorkerHelloV1" where
  "WorkerHelloV1_decode bs =
     (if length bs \<noteq> WORKER_HELLO_LEN then Inl (PlInvalidLength WORKER_HELLO_LEN (length bs))
      else fst (
        sbind Reader_u16 (\<lambda>version.
        sbind (reject_if (version \<noteq> PACK_L_VERSION) (PlInvalidVersion version)) (\<lambda>_.
        sbind Reader_u32 (\<lambda>network_id.
        sbind (Reader_take 32) (\<lambda>worker_public_key.
        sbind (Reader_take 32) (\<lambda>worker_nonce.
        sbind Reader_u64 (\<lambda>capabilities.
        sbind Reader_u16 (\<lambda>max_parallelism.
        sbind Reader_finish (\<lambda>_.
        slift (Inr \<lparr>wh_network_id = network_id, wh_worker_public_key = worker_public_key, wh_worker_nonce = worker_nonce,
          wh_capabilities = capabilities, wh_max_parallelism = max_parallelism\<rparr>)))))))))
        (Reader_new bs)))"

definition WorkerHelloV1_worker_id :: "(bytes \<Rightarrow> bytes) \<Rightarrow> WorkerHelloV1 \<Rightarrow> bytes" where
  "WorkerHelloV1_worker_id H h = worker_id H (wh_network_id h) (wh_worker_public_key h)"

record NodeChallengeV1 =
  nc_network_id :: u32
  nc_node_id :: bytes
  nc_node_public_key :: bytes
  nc_worker_id :: bytes
  nc_worker_nonce :: bytes
  nc_node_nonce :: bytes
  nc_capabilities :: u64

definition NodeChallengeV1_encode :: "NodeChallengeV1 \<Rightarrow> bytes" where
  "NodeChallengeV1_encode c =
     (let out = push_u16 [] PACK_L_VERSION;
          out = push_u32 out (nc_network_id c);
          out = out @ nc_node_id c;
          out = out @ nc_node_public_key c;
          out = out @ nc_worker_id c;
          out = out @ nc_worker_nonce c;
          out = out @ nc_node_nonce c
      in push_u64 out (nc_capabilities c))"

definition NodeChallengeV1_decode :: "bytes \<Rightarrow> PackLError + NodeChallengeV1" where
  "NodeChallengeV1_decode bs =
     (if length bs \<noteq> NODE_CHALLENGE_LEN then Inl (PlInvalidLength NODE_CHALLENGE_LEN (length bs))
      else fst (
        sbind Reader_u16 (\<lambda>version.
        sbind (reject_if (version \<noteq> PACK_L_VERSION) (PlInvalidVersion version)) (\<lambda>_.
        sbind Reader_u32 (\<lambda>network_id.
        sbind (Reader_take 32) (\<lambda>node_id.
        sbind (Reader_take 32) (\<lambda>node_public_key.
        sbind (Reader_take 32) (\<lambda>worker_id.
        sbind (Reader_take 32) (\<lambda>worker_nonce.
        sbind (Reader_take 32) (\<lambda>node_nonce.
        sbind Reader_u64 (\<lambda>capabilities.
        sbind Reader_finish (\<lambda>_.
        slift (Inr \<lparr>nc_network_id = network_id, nc_node_id = node_id, nc_node_public_key = node_public_key,
          nc_worker_id = worker_id, nc_worker_nonce = worker_nonce, nc_node_nonce = node_nonce,
          nc_capabilities = capabilities\<rparr>)))))))))))
        (Reader_new bs)))"

definition validate_for_hello :: "(bytes \<Rightarrow> bytes) \<Rightarrow> NodeChallengeV1 \<Rightarrow> WorkerHelloV1 \<Rightarrow> PackLError + unit" where
  "validate_for_hello H c h =
     (if nc_network_id c \<noteq> wh_network_id h then Inl (PlInvalidField ''challenge NetworkID mismatch'')
      else if nc_worker_id c \<noteq> WorkerHelloV1_worker_id H h then Inl (PlInvalidField ''challenge WorkerID mismatch'')
      else if nc_worker_nonce c \<noteq> wh_worker_nonce h then Inl (PlInvalidField ''challenge worker_nonce mismatch'')
      else Inr ())"

definition worker_auth_message :: "WorkerHelloV1 \<Rightarrow> NodeChallengeV1 \<Rightarrow> bytes" where
  "worker_auth_message hello challenge =
     (let hello_bytes = WorkerHelloV1_encode hello; challenge_bytes = NodeChallengeV1_encode challenge
      in DOMAIN_WORKER_AUTH @ hello_bytes @ challenge_bytes)"

definition sign_worker_auth :: "('k, 's) ed25519_keys \<Rightarrow> 's \<Rightarrow> WorkerHelloV1 \<Rightarrow> NodeChallengeV1 \<Rightarrow> bytes" where
  "sign_worker_auth K signing_key hello challenge = sk_sign K signing_key (worker_auth_message hello challenge)"

text \<open>The calls \<open>VerifyingKey::from_bytes\<close> and \<open>verify\<close> with both errors mapped to \<open>InvalidSignature\<close>.\<close>

definition pack_l_verify :: "('k, 's) ed25519_keys \<Rightarrow> bytes \<Rightarrow> bytes \<Rightarrow> bytes \<Rightarrow> PackLError + unit" where
  "pack_l_verify K public_key msg signature =
     rbind (ok_or PlInvalidSignature (vk_from_bytes K public_key)) (\<lambda>key.
       if vk_verify K key msg signature then Inr () else Inl PlInvalidSignature)"

definition verify_worker_auth ::
    "(bytes \<Rightarrow> bytes) \<Rightarrow> ('k, 's) ed25519_keys \<Rightarrow> bytes \<Rightarrow> WorkerHelloV1 \<Rightarrow> NodeChallengeV1 \<Rightarrow> bytes \<Rightarrow> PackLError + unit" where
  "verify_worker_auth H K worker_public_key hello challenge signature =
     rbind (validate_for_hello H challenge hello) (\<lambda>_.
       pack_l_verify K worker_public_key (worker_auth_message hello challenge) signature)"

definition node_accept_message :: "WorkerHelloV1 \<Rightarrow> NodeChallengeV1 \<Rightarrow> bytes \<Rightarrow> bytes" where
  "node_accept_message hello challenge worker_signature =
     (let hello_bytes = WorkerHelloV1_encode hello; challenge_bytes = NodeChallengeV1_encode challenge
      in DOMAIN_NODE_ACCEPT @ hello_bytes @ challenge_bytes @ worker_signature)"

definition sign_node_accept ::
    "('k, 's) ed25519_keys \<Rightarrow> 's \<Rightarrow> WorkerHelloV1 \<Rightarrow> NodeChallengeV1 \<Rightarrow> bytes \<Rightarrow> bytes" where
  "sign_node_accept K signing_key hello challenge worker_signature =
     sk_sign K signing_key (node_accept_message hello challenge worker_signature)"

definition verify_node_accept ::
    "('k, 's) ed25519_keys \<Rightarrow> bytes \<Rightarrow> WorkerHelloV1 \<Rightarrow> NodeChallengeV1 \<Rightarrow> bytes \<Rightarrow> bytes \<Rightarrow> PackLError + unit" where
  "verify_node_accept K node_public_key hello challenge worker_signature signature =
     pack_l_verify K node_public_key (node_accept_message hello challenge worker_signature) signature"

definition session_id :: "(bytes \<Rightarrow> bytes) \<Rightarrow> WorkerHelloV1 \<Rightarrow> NodeChallengeV1 \<Rightarrow> bytes \<Rightarrow> bytes \<Rightarrow> bytes" where
  "session_id H hello challenge worker_signature node_signature =
     (let hello_bytes = WorkerHelloV1_encode hello; challenge_bytes = NodeChallengeV1_encode challenge
      in hash_parts H DOMAIN_SESSION_ID [hello_bytes, challenge_bytes, worker_signature, node_signature])"

section \<open>Model: assignments\<close>

record WorkAssignmentCoreV1 =
  ac_network_id :: u32
  ac_session_id :: bytes
  ac_assignment_sequence :: u64
  ac_worker_id :: bytes
  ac_node_id :: bytes
  ac_parent_block_hash :: bytes
  ac_parent_height :: u64
  ac_target_epoch :: u64
  ac_license_id :: bytes
  ac_ticket_index :: u16
  ac_work_units_for_epoch :: u16
  ac_eligible_license_count :: u64
  ac_anchor_entropy :: bytes
  ac_target :: bytes
  ac_expires_epoch :: u64
  ac_algorithm_id :: u16
  ac_algorithm_version :: u16

definition WorkAssignmentCoreV1_encode :: "WorkAssignmentCoreV1 \<Rightarrow> bytes" where
  "WorkAssignmentCoreV1_encode c =
     (let out = push_u16 [] PACK_L_VERSION;
          out = push_u32 out (ac_network_id c);
          out = out @ ac_session_id c;
          out = push_u64 out (ac_assignment_sequence c);
          out = out @ ac_worker_id c;
          out = out @ ac_node_id c;
          out = out @ ac_parent_block_hash c;
          out = push_u64 out (ac_parent_height c);
          out = push_u64 out (ac_target_epoch c);
          out = out @ ac_license_id c;
          out = push_u16 out (ac_ticket_index c);
          out = push_u16 out (ac_work_units_for_epoch c);
          out = push_u64 out (ac_eligible_license_count c);
          out = out @ ac_anchor_entropy c;
          out = out @ ac_target c;
          out = push_u64 out (ac_expires_epoch c);
          out = push_u16 out (ac_algorithm_id c)
      in push_u16 out (ac_algorithm_version c))"

definition assignment_validate_shape :: "WorkAssignmentCoreV1 \<Rightarrow> PackLError + unit" where
  "assignment_validate_shape c =
     (if ac_ticket_index c \<ge> ac_work_units_for_epoch c then Inl PlOutOfBudget
      else if ac_expires_epoch c \<noteq> ac_target_epoch c then Inl (PlInvalidField ''expires_epoch must equal target_epoch'')
      else if ac_algorithm_id c \<noteq> ALGORITHM_PACK_A_ARGON2ID then Inl (PlInvalidField ''unknown algorithm_id'')
      else if ac_algorithm_version c \<noteq> ALGORITHM_PACK_A_ARGON2ID_V1 then Inl (PlInvalidField ''unknown algorithm_version'')
      else Inr ())"

definition WorkAssignmentCoreV1_decode :: "bytes \<Rightarrow> PackLError + WorkAssignmentCoreV1" where
  "WorkAssignmentCoreV1_decode bs =
     (if length bs \<noteq> WORK_ASSIGNMENT_CORE_LEN then Inl (PlInvalidLength WORK_ASSIGNMENT_CORE_LEN (length bs))
      else fst (
        sbind Reader_u16 (\<lambda>version.
        sbind (reject_if (version \<noteq> PACK_L_VERSION) (PlInvalidVersion version)) (\<lambda>_.
        sbind Reader_u32 (\<lambda>network_id.
        sbind (Reader_take 32) (\<lambda>session_id.
        sbind Reader_u64 (\<lambda>assignment_sequence.
        sbind (Reader_take 32) (\<lambda>worker_id.
        sbind (Reader_take 32) (\<lambda>node_id.
        sbind (Reader_take 32) (\<lambda>parent_block_hash.
        sbind Reader_u64 (\<lambda>parent_height.
        sbind Reader_u64 (\<lambda>target_epoch.
        sbind (Reader_take 32) (\<lambda>license_id.
        sbind Reader_u16 (\<lambda>ticket_index.
        sbind Reader_u16 (\<lambda>work_units_for_epoch.
        sbind Reader_u64 (\<lambda>eligible_license_count.
        sbind (Reader_take 32) (\<lambda>anchor_entropy.
        sbind (Reader_take 32) (\<lambda>target.
        sbind Reader_u64 (\<lambda>expires_epoch.
        sbind Reader_u16 (\<lambda>algorithm_id.
        sbind Reader_u16 (\<lambda>algorithm_version.
        let v = \<lparr>ac_network_id = network_id, ac_session_id = session_id, ac_assignment_sequence = assignment_sequence,
          ac_worker_id = worker_id, ac_node_id = node_id, ac_parent_block_hash = parent_block_hash,
          ac_parent_height = parent_height, ac_target_epoch = target_epoch, ac_license_id = license_id,
          ac_ticket_index = ticket_index, ac_work_units_for_epoch = work_units_for_epoch,
          ac_eligible_license_count = eligible_license_count, ac_anchor_entropy = anchor_entropy, ac_target = target,
          ac_expires_epoch = expires_epoch, ac_algorithm_id = algorithm_id, ac_algorithm_version = algorithm_version\<rparr>
        in sbind Reader_finish (\<lambda>_.
        sbind (slift (assignment_validate_shape v)) (\<lambda>_.
        slift (Inr v))))))))))))))))))))))
        (Reader_new bs)))"

definition ticket_key :: "(bytes \<Rightarrow> bytes) \<Rightarrow> u32 \<Rightarrow> bytes \<Rightarrow> u64 \<Rightarrow> bytes \<Rightarrow> u16 \<Rightarrow> bytes" where
  "ticket_key H network_id parent_block_hash target_epoch license_id ticket_index =
     (let network = to_be_bytes network_id; epoch = to_be_bytes target_epoch; ticket = to_be_bytes ticket_index
      in hash_parts H DOMAIN_TICKET_KEY [network, parent_block_hash, epoch, license_id, ticket])"

definition core_ticket_key :: "(bytes \<Rightarrow> bytes) \<Rightarrow> WorkAssignmentCoreV1 \<Rightarrow> bytes" where
  "core_ticket_key H c =
     ticket_key H (ac_network_id c) (ac_parent_block_hash c) (ac_target_epoch c) (ac_license_id c) (ac_ticket_index c)"

definition assignment_id :: "(bytes \<Rightarrow> bytes) \<Rightarrow> WorkAssignmentCoreV1 \<Rightarrow> bytes" where
  "assignment_id H core = (let bs = WorkAssignmentCoreV1_encode core in hash_parts H DOMAIN_ASSIGNMENT_ID [bs])"

record WorkAssignmentV1 =
  as_core :: WorkAssignmentCoreV1
  as_ticket_key :: bytes
  as_assignment_id :: bytes
  as_node_signature :: bytes

definition assignment_message :: "WorkAssignmentCoreV1 \<Rightarrow> bytes \<Rightarrow> bytes \<Rightarrow> bytes" where
  "assignment_message core key ident =
     (let core_bytes = WorkAssignmentCoreV1_encode core
      in DOMAIN_ASSIGNMENT_SIGNATURE @ core_bytes @ key @ ident)"

definition sign_assignment :: "('k, 's) ed25519_keys \<Rightarrow> 's \<Rightarrow> WorkAssignmentCoreV1 \<Rightarrow> bytes \<Rightarrow> bytes \<Rightarrow> bytes" where
  "sign_assignment K signing_key core key ident =
     sk_sign K signing_key (assignment_message core key ident)"

definition verify_assignment ::
    "('k, 's) ed25519_keys \<Rightarrow> bytes \<Rightarrow> WorkAssignmentCoreV1 \<Rightarrow> bytes \<Rightarrow> bytes \<Rightarrow> bytes \<Rightarrow> PackLError + unit" where
  "verify_assignment K node_public_key core key ident signature =
     pack_l_verify K node_public_key (assignment_message core key ident) signature"

definition WorkAssignmentV1_new_signed ::
    "(bytes \<Rightarrow> bytes) \<Rightarrow> ('k, 's) ed25519_keys \<Rightarrow> WorkAssignmentCoreV1 \<Rightarrow> 's \<Rightarrow> PackLError + WorkAssignmentV1" where
  "WorkAssignmentV1_new_signed H K core signing_key =
     rbind (assignment_validate_shape core) (\<lambda>_.
       let ticket_key = core_ticket_key H core;
           assignment_id = assignment_id H core;
           node_signature = sign_assignment K signing_key core ticket_key assignment_id
       in Inr \<lparr>as_core = core, as_ticket_key = ticket_key, as_assignment_id = assignment_id, as_node_signature = node_signature\<rparr>)"

definition WorkAssignmentV1_encode :: "WorkAssignmentV1 \<Rightarrow> bytes" where
  "WorkAssignmentV1_encode a =
     (let out = WorkAssignmentCoreV1_encode (as_core a);
          out = out @ as_ticket_key a;
          out = out @ as_assignment_id a
      in out @ as_node_signature a)"

definition validate_derived :: "(bytes \<Rightarrow> bytes) \<Rightarrow> WorkAssignmentV1 \<Rightarrow> PackLError + unit" where
  "validate_derived H a =
     rbind (assignment_validate_shape (as_core a)) (\<lambda>_.
       if as_ticket_key a \<noteq> core_ticket_key H (as_core a) then Inl (PlInvalidField ''TicketKey mismatch'')
       else if as_assignment_id a \<noteq> assignment_id H (as_core a) then Inl (PlInvalidField ''AssignmentID mismatch'')
       else Inr ())"

definition WorkAssignmentV1_decode :: "(bytes \<Rightarrow> bytes) \<Rightarrow> bytes \<Rightarrow> PackLError + WorkAssignmentV1" where
  "WorkAssignmentV1_decode H bs =
     (if length bs \<noteq> WORK_ASSIGNMENT_LEN then Inl (PlInvalidLength WORK_ASSIGNMENT_LEN (length bs))
      else rbind (WorkAssignmentCoreV1_decode (take WORK_ASSIGNMENT_CORE_LEN bs)) (\<lambda>core. fst (
        sbind (Reader_take 32) (\<lambda>ticket_key.
        sbind (Reader_take 32) (\<lambda>assignment_id.
        sbind (Reader_take 64) (\<lambda>node_signature.
        let v = \<lparr>as_core = core, as_ticket_key = ticket_key, as_assignment_id = assignment_id, as_node_signature = node_signature\<rparr>
        in sbind Reader_finish (\<lambda>_.
        sbind (slift (validate_derived H v)) (\<lambda>_.
        slift (Inr v))))))
        (Reader_new (drop WORK_ASSIGNMENT_CORE_LEN bs)))))"

definition assignment_verify_node_signature ::
    "(bytes \<Rightarrow> bytes) \<Rightarrow> ('k, 's) ed25519_keys \<Rightarrow> WorkAssignmentV1 \<Rightarrow> bytes \<Rightarrow> PackLError + unit" where
  "assignment_verify_node_signature H K a node_public_key =
     rbind (validate_derived H a) (\<lambda>_.
       verify_assignment K node_public_key (as_core a) (as_ticket_key a) (as_assignment_id a) (as_node_signature a))"

section \<open>Model: results, cancellations and rejections\<close>

record WorkResultCoreV1 =
  rc_network_id :: u32
  rc_session_id :: bytes
  rc_assignment_id :: bytes
  rc_ticket_key :: bytes
  rc_worker_id :: bytes
  rc_result_kind :: u8
  rc_argon2_proof :: bytes

definition WorkResultCoreV1_encode :: "WorkResultCoreV1 \<Rightarrow> bytes" where
  "WorkResultCoreV1_encode c =
     (let out = push_u16 [] PACK_L_VERSION;
          out = push_u32 out (rc_network_id c);
          out = out @ rc_session_id c;
          out = out @ rc_assignment_id c;
          out = out @ rc_ticket_key c;
          out = out @ rc_worker_id c;
          out = out @ [rc_result_kind c]
      in out @ rc_argon2_proof c)"

definition result_validate_shape :: "WorkResultCoreV1 \<Rightarrow> PackLError + unit" where
  "result_validate_shape c =
     (if rc_result_kind c = RESULT_NO_WIN then
        (if rc_argon2_proof c \<noteq> replicate 32 0 then Inl (PlInvalidField ''NO_WIN proof must be zero'') else Inr ())
      else if rc_result_kind c = RESULT_WIN then Inr ()
      else Inl (PlInvalidField ''unknown result_kind''))"

definition WorkResultCoreV1_decode :: "bytes \<Rightarrow> PackLError + WorkResultCoreV1" where
  "WorkResultCoreV1_decode bs =
     (if length bs \<noteq> WORK_RESULT_CORE_LEN then Inl (PlInvalidLength WORK_RESULT_CORE_LEN (length bs))
      else fst (
        sbind Reader_u16 (\<lambda>version.
        sbind (reject_if (version \<noteq> PACK_L_VERSION) (PlInvalidVersion version)) (\<lambda>_.
        sbind Reader_u32 (\<lambda>network_id.
        sbind (Reader_take 32) (\<lambda>session_id.
        sbind (Reader_take 32) (\<lambda>assignment_id.
        sbind (Reader_take 32) (\<lambda>ticket_key.
        sbind (Reader_take 32) (\<lambda>worker_id.
        sbind Reader_u8 (\<lambda>result_kind.
        sbind (Reader_take 32) (\<lambda>argon2_proof.
        let v = \<lparr>rc_network_id = network_id, rc_session_id = session_id, rc_assignment_id = assignment_id,
          rc_ticket_key = ticket_key, rc_worker_id = worker_id, rc_result_kind = result_kind, rc_argon2_proof = argon2_proof\<rparr>
        in sbind Reader_finish (\<lambda>_.
        sbind (slift (result_validate_shape v)) (\<lambda>_.
        slift (Inr v))))))))))))
        (Reader_new bs)))"

definition result_message :: "WorkResultCoreV1 \<Rightarrow> bytes" where
  "result_message core = (let core_bytes = WorkResultCoreV1_encode core in DOMAIN_RESULT_SIGNATURE @ core_bytes)"

record WorkResultV1 =
  wr_core :: WorkResultCoreV1
  wr_worker_signature :: bytes

definition WorkResultV1_new_signed :: "('k, 's) ed25519_keys \<Rightarrow> WorkResultCoreV1 \<Rightarrow> 's \<Rightarrow> PackLError + WorkResultV1" where
  "WorkResultV1_new_signed K core signing_key =
     rbind (result_validate_shape core) (\<lambda>_.
       let worker_signature = sk_sign K signing_key (result_message core)
       in Inr \<lparr>wr_core = core, wr_worker_signature = worker_signature\<rparr>)"

definition WorkResultV1_encode :: "WorkResultV1 \<Rightarrow> bytes" where
  "WorkResultV1_encode w = (let out = WorkResultCoreV1_encode (wr_core w) in out @ wr_worker_signature w)"

definition WorkResultV1_decode :: "bytes \<Rightarrow> PackLError + WorkResultV1" where
  "WorkResultV1_decode bs =
     (if length bs \<noteq> WORK_RESULT_LEN then Inl (PlInvalidLength WORK_RESULT_LEN (length bs))
      else rbind (WorkResultCoreV1_decode (take WORK_RESULT_CORE_LEN bs)) (\<lambda>core. fst (
        sbind (Reader_take 64) (\<lambda>worker_signature.
        sbind Reader_finish (\<lambda>_.
        slift (Inr \<lparr>wr_core = core, wr_worker_signature = worker_signature\<rparr>)))
        (Reader_new (drop WORK_RESULT_CORE_LEN bs)))))"

definition verify_worker_signature :: "('k, 's) ed25519_keys \<Rightarrow> WorkResultV1 \<Rightarrow> bytes \<Rightarrow> PackLError + unit" where
  "verify_worker_signature K w worker_public_key =
     rbind (result_validate_shape (wr_core w)) (\<lambda>_.
       pack_l_verify K worker_public_key (result_message (wr_core w)) (wr_worker_signature w))"

record WorkCancelCoreV1 =
  cc_network_id :: u32
  cc_session_id :: bytes
  cc_assignment_id :: bytes
  cc_ticket_key :: bytes
  cc_reason :: u8

definition WorkCancelCoreV1_encode :: "WorkCancelCoreV1 \<Rightarrow> bytes" where
  "WorkCancelCoreV1_encode c =
     (let out = push_u16 [] PACK_L_VERSION;
          out = push_u32 out (cc_network_id c);
          out = out @ cc_session_id c;
          out = out @ cc_assignment_id c;
          out = out @ cc_ticket_key c
      in out @ [cc_reason c])"

definition WorkCancelCoreV1_decode :: "bytes \<Rightarrow> PackLError + WorkCancelCoreV1" where
  "WorkCancelCoreV1_decode bs =
     (if length bs \<noteq> WORK_CANCEL_CORE_LEN then Inl (PlInvalidLength WORK_CANCEL_CORE_LEN (length bs))
      else fst (
        sbind Reader_u16 (\<lambda>version.
        sbind (reject_if (version \<noteq> PACK_L_VERSION) (PlInvalidVersion version)) (\<lambda>_.
        sbind Reader_u32 (\<lambda>network_id.
        sbind (Reader_take 32) (\<lambda>session_id.
        sbind (Reader_take 32) (\<lambda>assignment_id.
        sbind (Reader_take 32) (\<lambda>ticket_key.
        sbind Reader_u8 (\<lambda>reason.
        sbind Reader_finish (\<lambda>_.
        sbind (reject_if (\<not> (1 \<le> reason \<and> reason \<le> 7)) (PlInvalidField ''unknown cancel reason'')) (\<lambda>_.
        slift (Inr \<lparr>cc_network_id = network_id, cc_session_id = session_id, cc_assignment_id = assignment_id,
          cc_ticket_key = ticket_key, cc_reason = reason\<rparr>))))))))))
        (Reader_new bs)))"

definition cancel_message :: "WorkCancelCoreV1 \<Rightarrow> bytes" where
  "cancel_message core = (let core_bytes = WorkCancelCoreV1_encode core in DOMAIN_CANCEL_SIGNATURE @ core_bytes)"

record WorkCancelV1 =
  wc_core :: WorkCancelCoreV1
  wc_node_signature :: bytes

definition WorkCancelV1_new_signed :: "('k, 's) ed25519_keys \<Rightarrow> WorkCancelCoreV1 \<Rightarrow> 's \<Rightarrow> PackLError + WorkCancelV1" where
  "WorkCancelV1_new_signed K core signing_key =
     (if \<not> (1 \<le> cc_reason core \<and> cc_reason core \<le> 7) then Inl (PlInvalidField ''unknown cancel reason'')
      else
        let node_signature = sk_sign K signing_key (cancel_message core)
        in Inr \<lparr>wc_core = core, wc_node_signature = node_signature\<rparr>)"

definition WorkCancelV1_encode :: "WorkCancelV1 \<Rightarrow> bytes" where
  "WorkCancelV1_encode w = (let out = WorkCancelCoreV1_encode (wc_core w) in out @ wc_node_signature w)"

definition WorkCancelV1_decode :: "bytes \<Rightarrow> PackLError + WorkCancelV1" where
  "WorkCancelV1_decode bs =
     (if length bs \<noteq> WORK_CANCEL_LEN then Inl (PlInvalidLength WORK_CANCEL_LEN (length bs))
      else rbind (WorkCancelCoreV1_decode (take WORK_CANCEL_CORE_LEN bs)) (\<lambda>core. fst (
        sbind (Reader_take 64) (\<lambda>node_signature.
        sbind Reader_finish (\<lambda>_.
        slift (Inr \<lparr>wc_core = core, wc_node_signature = node_signature\<rparr>)))
        (Reader_new (drop WORK_CANCEL_CORE_LEN bs)))))"

definition cancel_verify_node_signature :: "('k, 's) ed25519_keys \<Rightarrow> WorkCancelV1 \<Rightarrow> bytes \<Rightarrow> PackLError + unit" where
  "cancel_verify_node_signature K w node_public_key =
     pack_l_verify K node_public_key (cancel_message (wc_core w)) (wc_node_signature w)"

record WorkRejectV1 =
  rj_network_id :: u32
  rj_session_id :: bytes
  rj_assignment_id :: bytes
  rj_rejected_message_type :: u16
  rj_reject_code :: u16

definition WorkRejectV1_encode :: "WorkRejectV1 \<Rightarrow> bytes" where
  "WorkRejectV1_encode r =
     (let out = push_u16 [] PACK_L_VERSION;
          out = push_u32 out (rj_network_id r);
          out = out @ rj_session_id r;
          out = out @ rj_assignment_id r;
          out = push_u16 out (rj_rejected_message_type r)
      in push_u16 out (rj_reject_code r))"

definition WorkRejectV1_decode :: "bytes \<Rightarrow> PackLError + WorkRejectV1" where
  "WorkRejectV1_decode bs =
     (if length bs \<noteq> WORK_REJECT_LEN then Inl (PlInvalidLength WORK_REJECT_LEN (length bs))
      else fst (
        sbind Reader_u16 (\<lambda>version.
        sbind (reject_if (version \<noteq> PACK_L_VERSION) (PlInvalidVersion version)) (\<lambda>_.
        sbind Reader_u32 (\<lambda>network_id.
        sbind (Reader_take 32) (\<lambda>session_id.
        sbind (Reader_take 32) (\<lambda>assignment_id.
        sbind Reader_u16 (\<lambda>rejected_message_type.
        sbind Reader_u16 (\<lambda>reject_code.
        sbind Reader_finish (\<lambda>_.
        sbind (reject_if (\<not> (1 \<le> reject_code \<and> reject_code \<le> 7)) (PlInvalidField ''unknown reject code'')) (\<lambda>_.
        slift (Inr \<lparr>rj_network_id = network_id, rj_session_id = session_id, rj_assignment_id = assignment_id,
          rj_rejected_message_type = rejected_message_type, rj_reject_code = reject_code\<rparr>))))))))))
        (Reader_new bs)))"

section \<open>Model: ticket budget\<close>

record TicketBudget =
  budget_keys :: "bytes set"

definition TicketBudget_reserve ::
    "(bytes \<Rightarrow> bytes) \<Rightarrow> u32 \<Rightarrow> bytes \<Rightarrow> u64 \<Rightarrow> bytes \<Rightarrow> u16 \<Rightarrow> u16 \<Rightarrow> (TicketBudget, PackLError, bytes \<times> bool) prog" where
  "TicketBudget_reserve H network_id parent_block_hash target_epoch license_id ticket_index work_units_for_epoch b =
     (if ticket_index \<ge> work_units_for_epoch then (Inl PlOutOfBudget, b)
      else
        let key = ticket_key H network_id parent_block_hash target_epoch license_id ticket_index;
            is_new_unique_ticket = key \<notin> budget_keys b
        in (Inr (key, is_new_unique_ticket), b\<lparr>budget_keys := insert key (budget_keys b)\<rparr>))"

definition TicketBudget_contains :: "TicketBudget \<Rightarrow> bytes \<Rightarrow> bool" where
  "TicketBudget_contains b key \<longleftrightarrow> key \<in> budget_keys b"

definition unique_ticket_count :: "TicketBudget \<Rightarrow> nat" where
  "unique_ticket_count b = card (budget_keys b)"

section \<open>Readers\<close>

definition rdr :: "bytes \<Rightarrow> bytes \<Rightarrow> Reader" where
  "rdr before rest = \<lparr>rd_bytes = before @ rest, rd_pos = length before\<rparr>"

named_theorems reader_iff \<open>when a reader succeeds, and what it has read\<close>

lemma Reader_new_rdr: "Reader_new bs = rdr [] bs"
  by (simp add: Reader_new_def rdr_def)

lemma Reader_take_iff [reader_iff]:
  "Reader_take n (rdr before rest) = (Inr b, r) \<longleftrightarrow>
     length before + n < 2 ^ 64 \<and> length b = n \<and> (\<exists>rest'. rest = b @ rest' \<and> r = rdr (before @ b) rest')"
proof
  assume "Reader_take n (rdr before rest) = (Inr b, r)"
  then have "length before + n < 2 ^ 64" "n \<le> length rest" "b = take n rest" "r = rdr (before @ take n rest) (drop n rest)"
    by (auto simp: Reader_take_def rdr_def Let_def split: if_splits)
  then show "length before + n < 2 ^ 64 \<and> length b = n \<and> (\<exists>rest'. rest = b @ rest' \<and> r = rdr (before @ b) rest')"
    by (metis append_take_drop_id length_take min.absorb2)
qed (auto simp: Reader_take_def rdr_def Let_def)

lemma Reader_finish_iff [reader_iff]: "Reader_finish (rdr before rest) = (Inr u, r) \<longleftrightarrow> rest = [] \<and> r = rdr before []"
  by (auto simp: Reader_finish_def rdr_def)

lemma Reader_u8_iff [reader_iff]:
  "Reader_u8 (rdr before rest) = (Inr v, r) \<longleftrightarrow>
     length before + 1 < 2 ^ 64 \<and> (\<exists>rest'. rest = v # rest' \<and> r = rdr (before @ [v]) rest')"
  by (auto simp: Reader_u8_def reader_iff length_Suc_conv)

lemma be_iff:
  fixes v :: "'a::len word"
  assumes "8 dvd LENGTH('a)" and "LENGTH('a) div 8 = n"
  shows "(\<exists>b r'. (length before + n < 2 ^ 64 \<and> length b = n \<and> (\<exists>rest'. rest = b @ rest' \<and> r' = rdr (before @ b) rest')) \<and>
       from_be_bytes b = v \<and> r = r') \<longleftrightarrow>
     length before + n < 2 ^ 64 \<and> (\<exists>rest'. rest = to_be_bytes v @ rest' \<and> r = rdr (before @ to_be_bytes v) rest')"
proof -
  have n: "8 * n = LENGTH('a)"
    using assms by auto
  have "length b = n \<and> from_be_bytes b = v \<longleftrightarrow> b = to_be_bytes v" for b
  proof
    show "b = to_be_bytes v" if "length b = n \<and> from_be_bytes b = v"
      using that to_from_be_bytes [of b, where 'a = 'a] n by auto
    show "length b = n \<and> from_be_bytes b = v" if "b = to_be_bytes v"
      using that assms by (simp add: from_to_be_bytes)
  qed
  note eq = this
  have "(\<exists>b r'. (length before + n < 2 ^ 64 \<and> length b = n \<and> (\<exists>rest'. rest = b @ rest' \<and> r' = rdr (before @ b) rest')) \<and>
       from_be_bytes b = v \<and> r = r') \<longleftrightarrow>
    (\<exists>b. (length b = n \<and> from_be_bytes b = v) \<and> length before + n < 2 ^ 64 \<and> (\<exists>rest'. rest = b @ rest' \<and> r = rdr (before @ b) rest'))"
    by blast
  then show ?thesis
    unfolding eq by simp
qed

lemma Reader_ints_iff [reader_iff]:
  "Reader_u16 (rdr before rest) = (Inr v, r) \<longleftrightarrow>
     length before + 2 < 2 ^ 64 \<and> (\<exists>rest'. rest = to_be_bytes v @ rest' \<and> r = rdr (before @ to_be_bytes v) rest')"
  "Reader_u32 (rdr before rest) = (Inr w, r) \<longleftrightarrow>
     length before + 4 < 2 ^ 64 \<and> (\<exists>rest'. rest = to_be_bytes w @ rest' \<and> r = rdr (before @ to_be_bytes w) rest')"
  "Reader_u64 (rdr before rest) = (Inr x, r) \<longleftrightarrow>
     length before + 8 < 2 ^ 64 \<and> (\<exists>rest'. rest = to_be_bytes x @ rest' \<and> r = rdr (before @ to_be_bytes x) rest')"
  unfolding Reader_u16_def Reader_u32_def Reader_u64_def sbind_Inr slift_Inr reader_iff sum.inject
  by (rule be_iff; simp)+

text \<open>Running a reader over what a writer has produced.\<close>

named_theorems reader_eval \<open>evaluation of readers on encodings\<close>

lemma Reader_take_eval [reader_eval]:
  "length before + n < 2 ^ 64 \<Longrightarrow> length b = n \<Longrightarrow> Reader_take n (rdr before (b @ rest)) = (Inr b, rdr (before @ b) rest)"
  "length before + n < 2 ^ 64 \<Longrightarrow> length b = n \<Longrightarrow> Reader_take n (rdr before b) = (Inr b, rdr (before @ b) [])"
  using Reader_take_iff by auto

lemma Reader_ints_eval [reader_eval]:
  "length before + 1 < 2 ^ 64 \<Longrightarrow> Reader_u8 (rdr before (w # rest)) = (Inr w, rdr (before @ [w]) rest)"
  "length before + 2 < 2 ^ 64 \<Longrightarrow> Reader_u16 (rdr before (to_be_bytes v @ rest)) = (Inr v, rdr (before @ to_be_bytes v) rest)"
  "length before + 2 < 2 ^ 64 \<Longrightarrow> Reader_u16 (rdr before (to_be_bytes v)) = (Inr v, rdr (before @ to_be_bytes v) [])"
  "length before + 4 < 2 ^ 64 \<Longrightarrow> Reader_u32 (rdr before (to_be_bytes x @ rest)) = (Inr x, rdr (before @ to_be_bytes x) rest)"
  "length before + 8 < 2 ^ 64 \<Longrightarrow> Reader_u64 (rdr before (to_be_bytes y @ rest)) = (Inr y, rdr (before @ to_be_bytes y) rest)"
  "length before + 8 < 2 ^ 64 \<Longrightarrow> Reader_u64 (rdr before (to_be_bytes y)) = (Inr y, rdr (before @ to_be_bytes y) [])"
  by (simp_all add: reader_iff)

lemma Reader_finish_eval [reader_eval]: "Reader_finish (rdr before []) = (Inr (), rdr before [])"
  by (simp add: reader_iff)

lemma fst_Inr: "fst p = Inr x \<longleftrightarrow> (\<exists>s. p = (Inr x, s))"
  by (cases p) auto

section \<open>Decoders are exact\<close>

lemmas push_defs = push_u16_def push_u32_def push_u64_def Let_def

lemmas pack_l_sizes = WORKER_HELLO_LEN_def NODE_CHALLENGE_LEN_def WORK_ASSIGNMENT_CORE_LEN_def WORK_ASSIGNMENT_LEN_def
  WORK_RESULT_CORE_LEN_def WORK_RESULT_LEN_def WORK_CANCEL_CORE_LEN_def WORK_CANCEL_LEN_def WORK_REJECT_LEN_def

definition wf_hello :: "WorkerHelloV1 \<Rightarrow> bool" where
  "wf_hello h \<longleftrightarrow> length (wh_worker_public_key h) = 32 \<and> length (wh_worker_nonce h) = 32"

lemmas decode_simps = Reader_new_rdr push_defs pack_l_sizes

lemma WorkerHelloV1_sound: "WorkerHelloV1_decode bs = Inr h \<Longrightarrow> wf_hello h \<and> bs = WorkerHelloV1_encode h"
  by (cases h) (auto simp: WorkerHelloV1_decode_def WorkerHelloV1_encode_def fst_Inr reader_iff decode_simps wf_hello_def
      split: if_splits)

lemma WorkerHelloV1_complete: "wf_hello h \<Longrightarrow> WorkerHelloV1_decode (WorkerHelloV1_encode h) = Inr h"
  by (simp add: WorkerHelloV1_decode_def WorkerHelloV1_encode_def reader_eval reject_if_def decode_simps wf_hello_def)

interpretation hello: message_codec WorkerHelloV1_encode WorkerHelloV1_decode wf_hello
  using WorkerHelloV1_sound WorkerHelloV1_complete by unfold_locales auto

definition wf_challenge :: "NodeChallengeV1 \<Rightarrow> bool" where
  "wf_challenge c \<longleftrightarrow> length (nc_node_id c) = 32 \<and> length (nc_node_public_key c) = 32 \<and> length (nc_worker_id c) = 32 \<and>
     length (nc_worker_nonce c) = 32 \<and> length (nc_node_nonce c) = 32"

lemma NodeChallengeV1_sound: "NodeChallengeV1_decode bs = Inr c \<Longrightarrow> wf_challenge c \<and> bs = NodeChallengeV1_encode c"
  by (cases c) (auto simp: NodeChallengeV1_decode_def NodeChallengeV1_encode_def fst_Inr reader_iff decode_simps
      wf_challenge_def split: if_splits)

lemma NodeChallengeV1_complete: "wf_challenge c \<Longrightarrow> NodeChallengeV1_decode (NodeChallengeV1_encode c) = Inr c"
  by (simp add: NodeChallengeV1_decode_def NodeChallengeV1_encode_def reader_eval reject_if_def decode_simps wf_challenge_def)

interpretation challenge: message_codec NodeChallengeV1_encode NodeChallengeV1_decode wf_challenge
  using NodeChallengeV1_sound NodeChallengeV1_complete by unfold_locales auto

definition wf_assignment_core :: "WorkAssignmentCoreV1 \<Rightarrow> bool" where
  "wf_assignment_core c \<longleftrightarrow> length (ac_session_id c) = 32 \<and> length (ac_worker_id c) = 32 \<and> length (ac_node_id c) = 32 \<and>
     length (ac_parent_block_hash c) = 32 \<and> length (ac_license_id c) = 32 \<and> length (ac_anchor_entropy c) = 32 \<and>
     length (ac_target c) = 32"

definition good_shape :: "WorkAssignmentCoreV1 \<Rightarrow> bool" where
  "good_shape c \<longleftrightarrow> ac_ticket_index c < ac_work_units_for_epoch c \<and> ac_expires_epoch c = ac_target_epoch c \<and>
     ac_algorithm_id c = ALGORITHM_PACK_A_ARGON2ID \<and> ac_algorithm_version c = ALGORITHM_PACK_A_ARGON2ID_V1"

lemma assignment_validate_shape_iff: "assignment_validate_shape c = Inr u \<longleftrightarrow> good_shape c"
  by (auto simp: assignment_validate_shape_def good_shape_def not_le)

lemma WorkAssignmentCoreV1_sound:
  "WorkAssignmentCoreV1_decode bs = Inr c \<Longrightarrow> (wf_assignment_core c \<and> good_shape c) \<and> bs = WorkAssignmentCoreV1_encode c"
  by (cases c) (auto simp: WorkAssignmentCoreV1_decode_def WorkAssignmentCoreV1_encode_def fst_Inr reader_iff decode_simps
      wf_assignment_core_def assignment_validate_shape_iff split: if_splits)

lemma WorkAssignmentCoreV1_complete:
  "wf_assignment_core c \<and> good_shape c \<Longrightarrow> WorkAssignmentCoreV1_decode (WorkAssignmentCoreV1_encode c) = Inr c"
  using assignment_validate_shape_iff [of c "()"]
  by (cases c) (simp add: WorkAssignmentCoreV1_decode_def WorkAssignmentCoreV1_encode_def reader_eval reject_if_def decode_simps
      wf_assignment_core_def)

interpretation assignment_core: message_codec WorkAssignmentCoreV1_encode WorkAssignmentCoreV1_decode
    "\<lambda>c. wf_assignment_core c \<and> good_shape c"
  using WorkAssignmentCoreV1_sound WorkAssignmentCoreV1_complete by unfold_locales auto

definition wf_assignment :: "(bytes \<Rightarrow> bytes) \<Rightarrow> WorkAssignmentV1 \<Rightarrow> bool" where
  "wf_assignment H a \<longleftrightarrow> (wf_assignment_core (as_core a) \<and> good_shape (as_core a)) \<and>
     as_ticket_key a = core_ticket_key H (as_core a) \<and> as_assignment_id a = assignment_id H (as_core a) \<and>
     length (as_ticket_key a) = 32 \<and> length (as_assignment_id a) = 32 \<and> length (as_node_signature a) = 64"

lemma validate_derived_iff:
  "validate_derived H a = Inr u \<longleftrightarrow>
     good_shape (as_core a) \<and> as_ticket_key a = core_ticket_key H (as_core a) \<and> as_assignment_id a = assignment_id H (as_core a)"
  by (auto simp: validate_derived_def assignment_validate_shape_iff)

lemma length_assignment_core: "wf_assignment_core c \<Longrightarrow> length (WorkAssignmentCoreV1_encode c) = 278"
  by (simp add: wf_assignment_core_def WorkAssignmentCoreV1_encode_def push_defs)

lemma cut_at: "take n bs = xs \<Longrightarrow> drop n bs = ys \<Longrightarrow> bs = xs @ ys"
  by (metis append_take_drop_id)

lemma WorkAssignmentV1_sound: "WorkAssignmentV1_decode H bs = Inr a \<Longrightarrow> wf_assignment H a \<and> bs = WorkAssignmentV1_encode a"
  by (cases a) (auto simp: WorkAssignmentV1_decode_def WorkAssignmentV1_encode_def fst_Inr reader_iff decode_simps
      wf_assignment_def validate_derived_iff assignment_core.msg_dec_iff split: if_splits, metis cut_at)

lemma WorkAssignmentV1_complete: "wf_assignment H a \<Longrightarrow> WorkAssignmentV1_decode H (WorkAssignmentV1_encode a) = Inr a"
  using validate_derived_iff [of H a "()"]
  by (cases a) (simp add: WorkAssignmentV1_decode_def WorkAssignmentV1_encode_def reader_eval decode_simps
      wf_assignment_def length_assignment_core assignment_core.msg_dec_enc)

interpretation assignment: message_codec WorkAssignmentV1_encode "WorkAssignmentV1_decode H" "wf_assignment H"
  using WorkAssignmentV1_sound WorkAssignmentV1_complete by unfold_locales auto

definition wf_result_core :: "WorkResultCoreV1 \<Rightarrow> bool" where
  "wf_result_core c \<longleftrightarrow> length (rc_session_id c) = 32 \<and> length (rc_assignment_id c) = 32 \<and> length (rc_ticket_key c) = 32 \<and>
     length (rc_worker_id c) = 32 \<and> length (rc_argon2_proof c) = 32 \<and>
     (rc_result_kind c = RESULT_WIN \<or> rc_result_kind c = RESULT_NO_WIN \<and> rc_argon2_proof c = replicate 32 0)"

lemma result_validate_shape_iff:
  "result_validate_shape c = Inr u \<longleftrightarrow>
     rc_result_kind c = RESULT_WIN \<or> rc_result_kind c = RESULT_NO_WIN \<and> rc_argon2_proof c = replicate 32 0"
  by (auto simp: result_validate_shape_def RESULT_WIN_def RESULT_NO_WIN_def)

lemma WorkResultCoreV1_sound:
  "WorkResultCoreV1_decode bs = Inr c \<Longrightarrow> wf_result_core c \<and> bs = WorkResultCoreV1_encode c"
  by (cases c) (auto simp: WorkResultCoreV1_decode_def WorkResultCoreV1_encode_def fst_Inr reader_iff decode_simps
      wf_result_core_def result_validate_shape_iff split: if_splits)

lemma WorkResultCoreV1_complete: "wf_result_core c \<Longrightarrow> WorkResultCoreV1_decode (WorkResultCoreV1_encode c) = Inr c"
  using result_validate_shape_iff [of c "()"]
  by (cases c) (simp add: WorkResultCoreV1_decode_def WorkResultCoreV1_encode_def reader_eval reject_if_def decode_simps
      wf_result_core_def)

interpretation result_core: message_codec WorkResultCoreV1_encode WorkResultCoreV1_decode wf_result_core
  using WorkResultCoreV1_sound WorkResultCoreV1_complete by unfold_locales auto

definition wf_result :: "WorkResultV1 \<Rightarrow> bool" where
  "wf_result w \<longleftrightarrow> wf_result_core (wr_core w) \<and> length (wr_worker_signature w) = 64"

lemma length_result_core: "wf_result_core c \<Longrightarrow> length (WorkResultCoreV1_encode c) = 167"
  by (simp add: wf_result_core_def WorkResultCoreV1_encode_def push_defs)

lemma WorkResultV1_sound: "WorkResultV1_decode bs = Inr w \<Longrightarrow> wf_result w \<and> bs = WorkResultV1_encode w"
  by (cases w) (auto simp: WorkResultV1_decode_def WorkResultV1_encode_def fst_Inr reader_iff decode_simps
      wf_result_def result_core.msg_dec_iff intro: cut_at split: if_splits)

lemma WorkResultV1_complete: "wf_result w \<Longrightarrow> WorkResultV1_decode (WorkResultV1_encode w) = Inr w"
  by (cases w) (simp add: WorkResultV1_decode_def WorkResultV1_encode_def reader_eval decode_simps
      wf_result_def length_result_core result_core.msg_dec_enc)

interpretation result: message_codec WorkResultV1_encode WorkResultV1_decode wf_result
  using WorkResultV1_sound WorkResultV1_complete by unfold_locales auto

definition wf_cancel_core :: "WorkCancelCoreV1 \<Rightarrow> bool" where
  "wf_cancel_core c \<longleftrightarrow> length (cc_session_id c) = 32 \<and> length (cc_assignment_id c) = 32 \<and> length (cc_ticket_key c) = 32 \<and>
     1 \<le> cc_reason c \<and> cc_reason c \<le> 7"

lemma WorkCancelCoreV1_sound:
  "WorkCancelCoreV1_decode bs = Inr c \<Longrightarrow> wf_cancel_core c \<and> bs = WorkCancelCoreV1_encode c"
  by (cases c) (auto simp: WorkCancelCoreV1_decode_def WorkCancelCoreV1_encode_def fst_Inr reader_iff decode_simps
      wf_cancel_core_def split: if_splits)

lemma WorkCancelCoreV1_complete: "wf_cancel_core c \<Longrightarrow> WorkCancelCoreV1_decode (WorkCancelCoreV1_encode c) = Inr c"
  by (simp add: WorkCancelCoreV1_decode_def WorkCancelCoreV1_encode_def reader_eval reject_if_def decode_simps
      wf_cancel_core_def)

interpretation cancel_core: message_codec WorkCancelCoreV1_encode WorkCancelCoreV1_decode wf_cancel_core
  using WorkCancelCoreV1_sound WorkCancelCoreV1_complete by unfold_locales auto

definition wf_cancel :: "WorkCancelV1 \<Rightarrow> bool" where
  "wf_cancel w \<longleftrightarrow> wf_cancel_core (wc_core w) \<and> length (wc_node_signature w) = 64"

lemma length_cancel_core: "wf_cancel_core c \<Longrightarrow> length (WorkCancelCoreV1_encode c) = 103"
  by (simp add: wf_cancel_core_def WorkCancelCoreV1_encode_def push_defs)

lemma WorkCancelV1_sound: "WorkCancelV1_decode bs = Inr w \<Longrightarrow> wf_cancel w \<and> bs = WorkCancelV1_encode w"
  by (cases w) (auto simp: WorkCancelV1_decode_def WorkCancelV1_encode_def fst_Inr reader_iff decode_simps
      wf_cancel_def cancel_core.msg_dec_iff intro: cut_at split: if_splits)

lemma WorkCancelV1_complete: "wf_cancel w \<Longrightarrow> WorkCancelV1_decode (WorkCancelV1_encode w) = Inr w"
  by (cases w) (simp add: WorkCancelV1_decode_def WorkCancelV1_encode_def reader_eval decode_simps
      wf_cancel_def length_cancel_core cancel_core.msg_dec_enc)

interpretation cancel: message_codec WorkCancelV1_encode WorkCancelV1_decode wf_cancel
  using WorkCancelV1_sound WorkCancelV1_complete by unfold_locales auto

definition wf_reject :: "WorkRejectV1 \<Rightarrow> bool" where
  "wf_reject r \<longleftrightarrow> length (rj_session_id r) = 32 \<and> length (rj_assignment_id r) = 32 \<and> 1 \<le> rj_reject_code r \<and> rj_reject_code r \<le> 7"

lemma WorkRejectV1_sound: "WorkRejectV1_decode bs = Inr r \<Longrightarrow> wf_reject r \<and> bs = WorkRejectV1_encode r"
  by (cases r) (auto simp: WorkRejectV1_decode_def WorkRejectV1_encode_def fst_Inr reader_iff decode_simps
      wf_reject_def split: if_splits)

lemma WorkRejectV1_complete: "wf_reject r \<Longrightarrow> WorkRejectV1_decode (WorkRejectV1_encode r) = Inr r"
  by (simp add: WorkRejectV1_decode_def WorkRejectV1_encode_def reader_eval reject_if_def decode_simps wf_reject_def)

interpretation reject: message_codec WorkRejectV1_encode WorkRejectV1_decode wf_reject
  using WorkRejectV1_sound WorkRejectV1_complete by unfold_locales auto

section \<open>Signed strings\<close>

text \<open>Everything that a node key or a worker key signs on this link.\<close>

datatype signed =
    Signed_auth WorkerHelloV1 NodeChallengeV1
  | Signed_accept WorkerHelloV1 NodeChallengeV1 bytes
  | Signed_assignment WorkAssignmentCoreV1 bytes bytes
  | Signed_result WorkResultCoreV1
  | Signed_cancel WorkCancelCoreV1

fun signed_domain :: "signed \<Rightarrow> bytes" where
  "signed_domain (Signed_auth h c) = DOMAIN_WORKER_AUTH"
| "signed_domain (Signed_accept h c s) = DOMAIN_NODE_ACCEPT"
| "signed_domain (Signed_assignment c k i) = DOMAIN_ASSIGNMENT_SIGNATURE"
| "signed_domain (Signed_result c) = DOMAIN_RESULT_SIGNATURE"
| "signed_domain (Signed_cancel c) = DOMAIN_CANCEL_SIGNATURE"

fun signed_string :: "signed \<Rightarrow> bytes" where
  "signed_string (Signed_auth h c) = worker_auth_message h c"
| "signed_string (Signed_accept h c s) = node_accept_message h c s"
| "signed_string (Signed_assignment c k i) = assignment_message c k i"
| "signed_string (Signed_result c) = result_message c"
| "signed_string (Signed_cancel c) = cancel_message c"

fun signed_body :: "signed \<Rightarrow> bytes" where
  "signed_body (Signed_auth h c) = WorkerHelloV1_encode h @ NodeChallengeV1_encode c"
| "signed_body (Signed_accept h c s) = WorkerHelloV1_encode h @ NodeChallengeV1_encode c @ s"
| "signed_body (Signed_assignment c k i) = WorkAssignmentCoreV1_encode c @ k @ i"
| "signed_body (Signed_result c) = WorkResultCoreV1_encode c"
| "signed_body (Signed_cancel c) = WorkCancelCoreV1_encode c"

fun wf_signed :: "signed \<Rightarrow> bool" where
  "wf_signed (Signed_auth h c) \<longleftrightarrow> wf_hello h \<and> wf_challenge c"
| "wf_signed (Signed_accept h c s) \<longleftrightarrow> wf_hello h \<and> wf_challenge c \<and> length s = 64"
| "wf_signed (Signed_assignment c k i) \<longleftrightarrow> (wf_assignment_core c \<and> good_shape c) \<and> length k = 32 \<and> length i = 32"
| "wf_signed (Signed_result c) \<longleftrightarrow> wf_result_core c"
| "wf_signed (Signed_cancel c) \<longleftrightarrow> wf_cancel_core c"

lemma signed_string_split: "signed_string x = signed_domain x @ signed_body x"
  by (cases x) (simp_all add: worker_auth_message_def node_accept_message_def assignment_message_def result_message_def
      cancel_message_def Let_def)

lemmas worker_domain_defs = DOMAIN_WORKER_AUTH_def DOMAIN_NODE_ACCEPT_def DOMAIN_ASSIGNMENT_SIGNATURE_def
  DOMAIN_RESULT_SIGNATURE_def DOMAIN_CANCEL_SIGNATURE_def DOMAIN_WORKER_ID_def DOMAIN_SESSION_ID_def
  DOMAIN_TICKET_KEY_def DOMAIN_ASSIGNMENT_ID_def

lemma length_hello: "wf_hello h \<Longrightarrow> length (WorkerHelloV1_encode h) = 80"
  by (simp add: wf_hello_def WorkerHelloV1_encode_def push_defs)

lemma length_challenge: "wf_challenge c \<Longrightarrow> length (NodeChallengeV1_encode c) = 174"
  by (simp add: wf_challenge_def NodeChallengeV1_encode_def push_defs)

lemma signed_string_inj:
  assumes "wf_signed x" and "wf_signed y" and "signed_string x = signed_string y"
  shows "x = y"
proof -
  have v: "v1_tag (signed_domain z)" for z
    by (cases z) (simp_all add: worker_domain_defs ascii_def)
  have d: "signed_domain x = signed_domain y" and b: "signed_body x = signed_body y"
    using v1_tag_separates [OF v v] assms(3) unfolding signed_string_split by blast+
  show ?thesis
    using d b assms(1,2)
    by (cases x; cases y) (simp_all add: worker_domain_defs ascii_def length_hello length_challenge length_assignment_core
        hello.msg_enc_inj challenge.msg_enc_inj assignment_core.msg_enc_inj result_core.msg_enc_inj cancel_core.msg_enc_inj)
qed

section \<open>Ticket budgets\<close>

lemma hash_parts_concat: "hash_parts H domain parts = H (domain @ concat parts)"
proof -
  have "foldl (@) domain parts = domain @ concat parts"
    by (induction parts arbitrary: domain) simp_all
  then show ?thesis
    by (simp add: hash_parts_def)
qed

definition reserve_tickets ::
    "(bytes \<Rightarrow> bytes) \<Rightarrow> u32 \<Rightarrow> bytes \<Rightarrow> u64 \<Rightarrow> bytes \<Rightarrow> u16 \<Rightarrow> u16 list \<Rightarrow> TicketBudget \<Rightarrow> TicketBudget" where
  "reserve_tickets H network_id parent epoch license_id work indices b =
     foldl (\<lambda>b i. snd (TicketBudget_reserve H network_id parent epoch license_id i work b)) b indices"

lemma reserve_tickets_keys:
  "budget_keys (reserve_tickets H n p e l w is b) = budget_keys b \<union> ticket_key H n p e l ` {i \<in> set is. i < w}"
  unfolding reserve_tickets_def
  by (induction "is" arbitrary: b) (auto simp: TicketBudget_reserve_def Let_def not_le)

section \<open>Properties\<close>

text \<open>C38. The decoders of the worker link are exact: hello, challenge, assignment, result, cancellation and
  rejection are accepted if and only if they are the encodings of well-formed messages; for an
  assignment this includes a ticket inside the work allocation and a ticket key and assignment id
  that are derived from the core.\<close>

theorem pack_l_decode_exact:
  "(WorkerHelloV1_decode bs = Inr h \<longleftrightarrow> wf_hello h \<and> bs = WorkerHelloV1_encode h) \<and>
   (NodeChallengeV1_decode bs = Inr c \<longleftrightarrow> wf_challenge c \<and> bs = NodeChallengeV1_encode c) \<and>
   (WorkAssignmentV1_decode H bs = Inr a \<longleftrightarrow> wf_assignment H a \<and> bs = WorkAssignmentV1_encode a) \<and>
   (WorkResultV1_decode bs = Inr w \<longleftrightarrow> wf_result w \<and> bs = WorkResultV1_encode w) \<and>
   (WorkCancelV1_decode bs = Inr x \<longleftrightarrow> wf_cancel x \<and> bs = WorkCancelV1_encode x) \<and>
   (WorkRejectV1_decode bs = Inr r \<longleftrightarrow> wf_reject r \<and> bs = WorkRejectV1_encode r)"
  by (intro conjI hello.msg_dec_iff challenge.msg_dec_iff assignment.msg_dec_iff result.msg_dec_iff cancel.msg_dec_iff
      reject.msg_dec_iff)

text \<open>A string signed on the worker link has one meaning: the strings for authentication, acceptance,
  assignments, results and cancellations of well-formed messages never coincide across kinds, and
  each determines its message.\<close>

theorem signed_strings_distinct: "inj_on signed_string {x. wf_signed x}"
  using signed_string_inj by (auto intro: inj_onI)

text \<open>C25. A ticket budget is bounded by the work allocation: whatever ticket indices are requested for a
  licence in an epoch, the budget grows by at most the number of work units, and by exactly the
  number of distinct indices in range if the hash has no collision on the ticket strings and none
  of the keys was held before.\<close>

theorem ticket_budget_bounded:
  assumes "finite (budget_keys b)"
  shows "unique_ticket_count (reserve_tickets H n p e l w indices b) \<le> unique_ticket_count b + unat w \<and>
    (inj_on (ticket_key H n p e l) {i \<in> set indices. i < w} \<and> budget_keys b \<inter> ticket_key H n p e l ` {i \<in> set indices. i < w} = {} \<longrightarrow>
     unique_ticket_count (reserve_tickets H n p e l w indices b) = unique_ticket_count b + card {i \<in> set indices. i < w})"
proof -
  let ?I = "{i \<in> set indices. i < w}"
  have "unat ` ?I \<subseteq> {..<unat w}"
    by (auto simp: word_less_nat_alt)
  then have "card (unat ` ?I) \<le> unat w"
    using card_mono [of "{..<unat w}"] by fastforce
  moreover have "inj_on unat ?I"
    by (simp add: inj_on_def word_unat_eq_iff)
  ultimately have I: "card ?I \<le> unat w"
    by (simp add: card_image)
  have "card (ticket_key H n p e l ` ?I) \<le> card ?I"
    by (rule card_image_le) simp
  then show ?thesis
    using I card_Un_le [of "budget_keys b" "ticket_key H n p e l ` ?I"] assms
    by (auto simp: unique_ticket_count_def reserve_tickets_keys card_image card_Un_disjoint)
qed

theorem ticket_budget_bounded_witness:
  "unique_ticket_count (reserve_tickets tail_hash 7 [1] 2 [3] 2 [0, 1, 1, 0, 5] \<lparr>budget_keys = {}\<rparr>) = 2"
proof -
  have key: "ticket_key tail_hash 7 [1] 2 [3] i = tail_hash (DOMAIN_TICKET_KEY @ [0, 0, 0, 7, 1, 0, 0, 0, 0, 0, 0, 0, 2, 3] @ to_be_bytes i)" for i
    by (simp add: ticket_key_def hash_parts_concat to_be_bytes_def nat_be_numeral)
  have "ticket_key tail_hash 7 [1] 2 [3] 0 \<noteq> ticket_key tail_hash 7 [1] 2 [3] 1"
    unfolding key by (simp add: DOMAIN_TICKET_KEY_def ascii_def tail_hash_def to_be_bytes_def nat_be_numeral)
  then have inj: "inj_on (ticket_key tail_hash 7 [1] 2 [3]) {0, 1}"
    unfolding inj_on_def by fastforce
  have S: "{i \<in> set [0, 1, 1, 0, 5]. i < 2} = {0 :: u16, 1}"
    by auto
  have "unique_ticket_count (reserve_tickets tail_hash 7 [1] 2 [3] 2 [0, 1, 1, 0, 5] \<lparr>budget_keys = {}\<rparr>) =
      unique_ticket_count \<lparr>budget_keys = {}\<rparr> + card {0 :: u16, 1}"
    using conjunct2 [OF ticket_budget_bounded [of "\<lparr>budget_keys = {}\<rparr>" tail_hash 7 "[1]" 2 "[3]" 2 "[0, 1, 1, 0, 5]"]] inj
    unfolding S by simp
  then show ?thesis
    by (simp add: unique_ticket_count_def)
qed

end
