(* ===== verification/Endpoint.thy ===== *)
theory Endpoint
  imports Worker
begin

text \<open>
  Worker sessions (crates/mutiny-worker/src/endpoint.rs) and the reference worker
  (crates/mutiny-worker/src/reference.rs): the mutual authentication of node and worker over a
  stream, the registry of active workers, and the execution of one assignment. The theory shows that
  a failed handshake leaves the registry unchanged, that an accepted one is bound to the peer's
  signature, that honest peers open the same session, and that the worker reports a win exactly when
  the consensus rule accepts the ticket.
\<close>

section \<open>Model: registry of active workers\<close>

datatype EndpointError =
    EpPackL PackLError
  | EpFrame P2pError
  | EpWrongMessageType
  | EpZeroRequestId
  | EpRequestIdMismatch
  | EpUnauthorizedWorker
  | EpWrongNode
  | EpDuplicateActiveWorker
  | EpBadPayloadLength

record AuthenticatedWorkerSession =
  ses_worker_id :: bytes
  ses_worker_public_key :: bytes
  ses_node_id :: bytes
  ses_session_id :: bytes
  ses_request_id :: u64

record ActiveWorkerRegistry =
  active :: "bytes set"

definition registry_claim :: "bytes \<Rightarrow> (ActiveWorkerRegistry, EndpointError, unit) prog" where
  "registry_claim worker r =
     (if worker \<in> active r then (Inl EpDuplicateActiveWorker, r)
      else (Inr (), r\<lparr>active := insert worker (active r)\<rparr>))"

definition registry_release :: "bytes \<Rightarrow> ActiveWorkerRegistry \<Rightarrow> ActiveWorkerRegistry" where
  "registry_release worker r = r\<lparr>active := active r - {worker}\<rparr>"

definition registry_contains :: "ActiveWorkerRegistry \<Rightarrow> bytes \<Rightarrow> bool" where
  "registry_contains r worker \<longleftrightarrow> worker \<in> active r"

definition registry_len :: "ActiveWorkerRegistry \<Rightarrow> nat" where
  "registry_len r = card (active r)"

definition registry_is_empty :: "ActiveWorkerRegistry \<Rightarrow> bool" where
  "registry_is_empty r \<longleftrightarrow> active r = {}"

definition node_id_from_public_key :: "(bytes \<Rightarrow> bytes) \<Rightarrow> bytes \<Rightarrow> bytes" where
  "node_id_from_public_key H node_public_key = H (ascii ''MUTINY-NODE-ID-V1'' @ node_public_key)"

section \<open>Model: handshakes\<close>

text \<open>The node works on the stream and on its registry; a program on one of them leaves the other alone.\<close>

definition on_stream :: "('s, 'e, 'a) prog \<Rightarrow> ('s \<times> 'r, 'e, 'a) prog" where
  "on_stream m = (\<lambda>(s, r). case m s of (x, t) \<Rightarrow> (x, (t, r)))"

definition on_registry :: "('r, 'e, 'a) prog \<Rightarrow> ('s \<times> 'r, 'e, 'a) prog" where
  "on_registry m = (\<lambda>(s, r). case m r of (x, q) \<Rightarrow> (x, (s, q)))"

definition read_exact_frame ::
    "(bytes \<Rightarrow> bytes) \<Rightarrow> u32 \<Rightarrow> u16 \<Rightarrow> u64 option \<Rightarrow> (tcp, EndpointError, Frame) prog" where
  "read_exact_frame H expected_magic expected_type expected_request_id =
     sbind (smap_err EpFrame (Frame_read_from H expected_magic)) (\<lambda>frame.
     sbind (reject_if (fr_message_type frame \<noteq> expected_type) EpWrongMessageType) (\<lambda>_.
     sbind (case expected_request_id of
              Some request_id \<Rightarrow> reject_if (fr_request_id frame \<noteq> request_id) EpRequestIdMismatch
            | None \<Rightarrow> slift (Inr ())) (\<lambda>_.
     slift (Inr frame))))"

definition write_frame ::
    "(bytes \<Rightarrow> bytes) \<Rightarrow> u32 \<Rightarrow> u16 \<Rightarrow> u64 \<Rightarrow> bytes \<Rightarrow> (tcp, EndpointError, unit) prog" where
  "write_frame H magic message_type request_id payload =
     sbind (slift (map_err EpFrame (Frame_new magic message_type request_id payload))) (\<lambda>frame.
     smap_err EpFrame (Frame_write_to H frame))"

definition accept_worker_handshake ::
    "(bytes \<Rightarrow> bytes) \<Rightarrow> ('k, 's) ed25519_keys \<Rightarrow> u32 \<Rightarrow> u32 \<Rightarrow> 's \<Rightarrow> bytes \<Rightarrow> u64 \<Rightarrow> bytes set \<Rightarrow>
     (tcp \<times> ActiveWorkerRegistry, EndpointError, AuthenticatedWorkerSession) prog" where
  "accept_worker_handshake H K worker_magic network_id node_signing_key node_nonce node_capabilities allowed_workers =
     sbind (on_stream (read_exact_frame H worker_magic MSG_WORKER_HELLO None)) (\<lambda>hello_frame.
     sbind (reject_if (fr_request_id hello_frame = 0) EpZeroRequestId) (\<lambda>_.
     sbind (slift (map_err EpPackL (WorkerHelloV1_decode (fr_payload hello_frame)))) (\<lambda>hello.
     sbind (reject_if (wh_network_id hello \<noteq> network_id) (EpPackL (PlInvalidField ''WorkerHello NetworkID mismatch''))) (\<lambda>_.
     let worker_id_value = WorkerHelloV1_worker_id H hello
     in sbind (reject_if (worker_id_value \<notin> allowed_workers) EpUnauthorizedWorker) (\<lambda>_.
     let node_public_key = sk_public K node_signing_key;
         node_id = node_id_from_public_key H node_public_key;
         challenge = \<lparr>nc_network_id = network_id, nc_node_id = node_id, nc_node_public_key = node_public_key,
           nc_worker_id = worker_id_value, nc_worker_nonce = wh_worker_nonce hello, nc_node_nonce = node_nonce,
           nc_capabilities = node_capabilities\<rparr>
     in sbind (on_stream (write_frame H worker_magic MSG_NODE_CHALLENGE (fr_request_id hello_frame)
          (NodeChallengeV1_encode challenge))) (\<lambda>_.
     sbind (on_stream (read_exact_frame H worker_magic MSG_WORKER_AUTH (Some (fr_request_id hello_frame)))) (\<lambda>auth_frame.
     sbind (reject_if (length (fr_payload auth_frame) \<noteq> 64) EpBadPayloadLength) (\<lambda>_.
     let worker_signature = fr_payload auth_frame
     in sbind (slift (map_err EpPackL
          (verify_worker_auth H K (wh_worker_public_key hello) hello challenge worker_signature))) (\<lambda>_.
     sbind (on_registry (registry_claim worker_id_value)) (\<lambda>_.
     let node_signature = sign_node_accept K node_signing_key hello challenge worker_signature;
         sid = session_id H hello challenge worker_signature node_signature
     in (\<lambda>(s, r).
          case write_frame H worker_magic MSG_NODE_ACCEPT (fr_request_id hello_frame) node_signature s of
            (Inl error, t) \<Rightarrow> (Inl error, (t, registry_release worker_id_value r))
          | (Inr _, t) \<Rightarrow>
              (Inr \<lparr>ses_worker_id = worker_id_value, ses_worker_public_key = wh_worker_public_key hello,
                 ses_node_id = node_id, ses_session_id = sid, ses_request_id = fr_request_id hello_frame\<rparr>, (t, r)))))))))))))"

definition initiate_worker_handshake ::
    "(bytes \<Rightarrow> bytes) \<Rightarrow> ('k, 's) ed25519_keys \<Rightarrow> u32 \<Rightarrow> u32 \<Rightarrow> 's \<Rightarrow> bytes \<Rightarrow> u64 \<Rightarrow> u16 \<Rightarrow> u64 \<Rightarrow> bytes \<Rightarrow>
     (tcp, EndpointError, AuthenticatedWorkerSession) prog" where
  "initiate_worker_handshake H K worker_magic network_id worker_signing_key worker_nonce worker_capabilities max_parallelism
       request_id expected_node_id =
     sbind (reject_if (request_id = 0) EpZeroRequestId) (\<lambda>_.
     let worker_public_key = sk_public K worker_signing_key;
         hello = \<lparr>wh_network_id = network_id, wh_worker_public_key = worker_public_key, wh_worker_nonce = worker_nonce,
           wh_capabilities = worker_capabilities, wh_max_parallelism = max_parallelism\<rparr>
     in sbind (write_frame H worker_magic MSG_WORKER_HELLO request_id (WorkerHelloV1_encode hello)) (\<lambda>_.
     sbind (read_exact_frame H worker_magic MSG_NODE_CHALLENGE (Some request_id)) (\<lambda>challenge_frame.
     sbind (slift (map_err EpPackL (NodeChallengeV1_decode (fr_payload challenge_frame)))) (\<lambda>challenge.
     sbind (slift (map_err EpPackL (validate_for_hello H challenge hello))) (\<lambda>_.
     let derived_node_id = node_id_from_public_key H (nc_node_public_key challenge)
     in sbind (reject_if (nc_node_id challenge \<noteq> derived_node_id \<or> nc_node_id challenge \<noteq> expected_node_id) EpWrongNode) (\<lambda>_.
     let worker_signature = sign_worker_auth K worker_signing_key hello challenge
     in sbind (write_frame H worker_magic MSG_WORKER_AUTH request_id worker_signature) (\<lambda>_.
     sbind (read_exact_frame H worker_magic MSG_NODE_ACCEPT (Some request_id)) (\<lambda>accept_frame.
     sbind (reject_if (length (fr_payload accept_frame) \<noteq> 64) EpBadPayloadLength) (\<lambda>_.
     let node_signature = fr_payload accept_frame
     in sbind (slift (map_err EpPackL
          (verify_node_accept K (nc_node_public_key challenge) hello challenge worker_signature node_signature))) (\<lambda>_.
     slift (Inr \<lparr>ses_worker_id = worker_id H network_id worker_public_key, ses_worker_public_key = worker_public_key,
       ses_node_id = nc_node_id challenge,
       ses_session_id = session_id H hello challenge worker_signature node_signature,
       ses_request_id = request_id\<rparr>)))))))))))"

section \<open>Model: reference worker\<close>

datatype ReferenceWorkerError =
    RwPackL PackLError
  | RwFrame P2pError
  | RwCrypto CryptoError
  | RwSession string

definition execute_assignment ::
    "(bytes \<Rightarrow> bytes) \<Rightarrow> 'p argon2_lib \<Rightarrow> ('k, 's) ed25519_keys \<Rightarrow> WorkAssignmentV1 \<Rightarrow> AuthenticatedWorkerSession \<Rightarrow> bytes \<Rightarrow> 's \<Rightarrow>
     ReferenceWorkerError + WorkResultV1" where
  "execute_assignment H A K assignment session expected_node_public_key worker_signing_key =
     rbind (map_err RwPackL (assignment_verify_node_signature H K assignment expected_node_public_key)) (\<lambda>_.
     if node_id_from_public_key H expected_node_public_key \<noteq> ses_node_id session then Inl (RwSession ''paired NodeID mismatch'')
     else if ac_session_id (as_core assignment) \<noteq> ses_session_id session then Inl (RwSession ''SessionID mismatch'')
     else if ac_worker_id (as_core assignment) \<noteq> ses_worker_id session then Inl (RwSession ''WorkerID mismatch'')
     else if ac_node_id (as_core assignment) \<noteq> ses_node_id session then Inl (RwSession ''NodeID mismatch'')
     else
       let worker_public_key = sk_public K worker_signing_key
       in if worker_public_key \<noteq> ses_worker_public_key session
          then Inl (RwSession ''worker signing key does not match authenticated session'')
          else if worker_id H (ac_network_id (as_core assignment)) worker_public_key \<noteq> ses_worker_id session
          then Inl (RwSession ''worker signing key does not derive authenticated WorkerID'')
          else
            let es = epoch_seed H (ac_anchor_entropy (as_core assignment)) (ac_target_epoch (as_core assignment));
                seed = ticket_seed H es (ac_license_id (as_core assignment)) (ac_ticket_index (as_core assignment));
                salt = ticket_salt H es (ac_license_id (as_core assignment)) (ac_ticket_index (as_core assignment))
            in rbind (map_err RwCrypto (mutiny_argon2id A seed salt)) (\<lambda>prf.
               let winning = proof_below_target prf (ac_target (as_core assignment));
                   core = \<lparr>rc_network_id = ac_network_id (as_core assignment), rc_session_id = ses_session_id session,
                     rc_assignment_id = as_assignment_id assignment, rc_ticket_key = as_ticket_key assignment,
                     rc_worker_id = ses_worker_id session, rc_result_kind = (if winning then RESULT_WIN else RESULT_NO_WIN),
                     rc_argon2_proof = (if winning then prf else replicate 32 0)\<rparr>
               in map_err RwPackL (WorkResultV1_new_signed K core worker_signing_key)))"

definition process_one_assignment ::
    "(bytes \<Rightarrow> bytes) \<Rightarrow> 'p argon2_lib \<Rightarrow> ('k, 's) ed25519_keys \<Rightarrow> u32 \<Rightarrow> AuthenticatedWorkerSession \<Rightarrow> bytes \<Rightarrow> 's \<Rightarrow>
     (tcp, ReferenceWorkerError, WorkResultV1) prog" where
  "process_one_assignment H A K worker_magic session expected_node_public_key worker_signing_key =
     sbind (smap_err RwFrame (Frame_read_from H worker_magic)) (\<lambda>frame.
     sbind (reject_if (fr_message_type frame \<noteq> MSG_WORK_ASSIGNMENT) (RwSession ''expected WORK_ASSIGNMENT message'')) (\<lambda>_.
     sbind (reject_if (fr_request_id frame = 0) (RwSession ''WORK_ASSIGNMENT request_id must be nonzero'')) (\<lambda>_.
     sbind (slift (map_err RwPackL (WorkAssignmentV1_decode H (fr_payload frame)))) (\<lambda>assignment.
     sbind (slift (execute_assignment H A K assignment session expected_node_public_key worker_signing_key)) (\<lambda>result.
     sbind (slift (map_err RwFrame (Frame_new worker_magic MSG_WORK_RESULT (fr_request_id frame) (WorkResultV1_encode result)))) (\<lambda>response.
     sbind (smap_err RwFrame (Frame_write_to H response)) (\<lambda>_.
     slift (Inr result))))))))"

section \<open>Registry\<close>

lemma post_on_stream [post_simps]: "post (on_stream m) (s, r) Q \<longleftrightarrow> post m s (\<lambda>x t. Q x (t, r))"
  by (simp add: post_def on_stream_def split: prod.splits)

lemma post_on_registry [post_simps]: "post (on_registry m) (s, r) Q \<longleftrightarrow> post m r (\<lambda>x q. Q x (s, q))"
  by (simp add: post_def on_registry_def split: prod.splits)

lemma post_claim [post_simps]:
  "post (registry_claim w) r Q \<longleftrightarrow>
     (if w \<in> active r then Q (Inl EpDuplicateActiveWorker) r else Q (Inr ()) (r\<lparr>active := insert w (active r)\<rparr>))"
  by (simp add: post_def registry_claim_def)

lemma release_claimed: "w \<notin> active r \<Longrightarrow> registry_release w (r\<lparr>active := insert w (active r)\<rparr>) = r"
  by (simp add: registry_release_def)

definition registry_outcome :: "ActiveWorkerRegistry \<Rightarrow> EndpointError + AuthenticatedWorkerSession \<Rightarrow> ActiveWorkerRegistry \<Rightarrow> bool" where
  "registry_outcome r x q \<longleftrightarrow>
     (case x of Inl e \<Rightarrow> q = r | Inr z \<Rightarrow> ses_worker_id z \<notin> active r \<and> q = r\<lparr>active := insert (ses_worker_id z) (active r)\<rparr>)"

lemma accept_registry_outcome:
  "post (accept_worker_handshake H K magic network key nonce caps allowed) (s, r) (\<lambda>x (t, q). registry_outcome r x q)"
  unfolding accept_worker_handshake_def Let_def post_simps
  by (intro post_any) (auto simp: post_simps registry_outcome_def release_claimed post_def
      split: sum.splits prod.splits if_splits)

section \<open>What an accepted handshake has checked\<close>

lemma on_stream_Inr [simp]: "on_stream m (s, r) = (Inr x, p) \<longleftrightarrow> (\<exists>t. m s = (Inr x, t) \<and> p = (t, r))"
  by (auto simp: on_stream_def split: prod.splits)

lemma on_registry_Inr [simp]: "on_registry m (s, r) = (Inr x, p) \<longleftrightarrow> (\<exists>q. m r = (Inr x, q) \<and> p = (s, q))"
  by (auto simp: on_registry_def split: prod.splits)

lemma pack_l_verify_iff: "pack_l_verify K pk m sig = Inr u \<longleftrightarrow> (\<exists>v. vk_from_bytes K pk = Some v \<and> vk_verify K v m sig)"
  by (auto simp: pack_l_verify_def)

lemma validate_for_hello_iff:
  "validate_for_hello H c h = Inr u \<longleftrightarrow>
     nc_network_id c = wh_network_id h \<and> nc_worker_id c = WorkerHelloV1_worker_id H h \<and> nc_worker_nonce c = wh_worker_nonce h"
  by (auto simp: validate_for_hello_def)

text \<open>The challenge that a node sends for a hello.\<close>

definition node_challenge :: "(bytes \<Rightarrow> bytes) \<Rightarrow> ('k, 's) ed25519_keys \<Rightarrow> 's \<Rightarrow> bytes \<Rightarrow> u64 \<Rightarrow> WorkerHelloV1 \<Rightarrow> NodeChallengeV1" where
  "node_challenge H K key nonce caps h = \<lparr>nc_network_id = wh_network_id h,
     nc_node_id = node_id_from_public_key H (sk_public K key), nc_node_public_key = sk_public K key,
     nc_worker_id = WorkerHelloV1_worker_id H h, nc_worker_nonce = wh_worker_nonce h, nc_node_nonce = nonce,
     nc_capabilities = caps\<rparr>"

lemma read_exact_frame_Inr:
  "read_exact_frame H magic ty rid s = (Inr f, t) \<longleftrightarrow>
     Frame_read_from H magic s = (Inr f, t) \<and> fr_message_type f = ty \<and> (\<forall>i. rid = Some i \<longrightarrow> fr_request_id f = i)"
  by (cases rid) (auto simp: read_exact_frame_def)

lemma case_write_Inr:
  "(case m of (Inl e, t) \<Rightarrow> (Inl e, g t) | (Inr u, t) \<Rightarrow> (Inr z, h t)) = (Inr y, p) \<longleftrightarrow> (\<exists>u t. m = (Inr u, t) \<and> y = z \<and> p = h t)"
  by (auto split: prod.splits sum.splits)

lemma accept_sound:
  assumes "accept_worker_handshake H K magic network key nonce caps allowed (s, r) = (Inr z, (t, q))"
  obtains hello sig v where "wf_hello hello" and "wh_network_id hello = network" and "length sig = 64"
    and "vk_from_bytes K (wh_worker_public_key hello) = Some v"
    and "vk_verify K v (worker_auth_message hello (node_challenge H K key nonce caps hello)) sig"
    and "WorkerHelloV1_worker_id H hello \<in> allowed"
    and "z = \<lparr>ses_worker_id = WorkerHelloV1_worker_id H hello, ses_worker_public_key = wh_worker_public_key hello,
      ses_node_id = node_id_from_public_key H (sk_public K key),
      ses_session_id = session_id H hello (node_challenge H K key nonce caps hello) sig
        (sign_node_accept K key hello (node_challenge H K key nonce caps hello) sig),
      ses_request_id = ses_request_id z\<rparr>"
  using assms
  by (auto simp: accept_worker_handshake_def Let_def hello.msg_dec_iff verify_worker_auth_def pack_l_verify_iff
      node_challenge_def case_write_Inr)

text \<open>The node key that a worker receives: bytes 38 to 69 of the challenge, after a frame header of 26 bytes.\<close>

definition received_node_key :: "tcp \<Rightarrow> bytes" where
  "received_node_key s = take 32 (drop 64 (tcp_in s))"

lemma write_frame_in: "write_frame H magic ty rid payload s = (Inr x, t) \<Longrightarrow> tcp_in t = tcp_in s"
  by (cases "tcp_faults s") (auto simp: write_frame_def Frame_write_to_def tcp_write_all_def split: option.splits)

lemma challenge_key_bytes: "wf_challenge c \<Longrightarrow> take 32 (drop 38 (NodeChallengeV1_encode c)) = nc_node_public_key c"
  by (simp add: NodeChallengeV1_encode_def wf_challenge_def Let_def push_u16_def push_u32_def push_u64_def)

lemma initiate_sound:
  assumes "initiate_worker_handshake H K magic network key nonce caps par rid expected s = (Inr z, t)"
  obtains challenge sig v where "wf_challenge challenge"
    and "validate_for_hello H challenge \<lparr>wh_network_id = network, wh_worker_public_key = sk_public K key, wh_worker_nonce = nonce,
           wh_capabilities = caps, wh_max_parallelism = par\<rparr> = Inr ()" and "nc_node_id challenge = expected"
    and "nc_node_public_key challenge = received_node_key s"
    and "node_id_from_public_key H (received_node_key s) = expected"
    and "vk_from_bytes K (received_node_key s) = Some v"
    and "vk_verify K v (node_accept_message \<lparr>wh_network_id = network, wh_worker_public_key = sk_public K key, wh_worker_nonce = nonce,
           wh_capabilities = caps, wh_max_parallelism = par\<rparr> challenge (sign_worker_auth K key
             \<lparr>wh_network_id = network, wh_worker_public_key = sk_public K key, wh_worker_nonce = nonce,
              wh_capabilities = caps, wh_max_parallelism = par\<rparr> challenge)) sig"
    and "ses_node_id z = expected" and "ses_session_id z = session_id H
           \<lparr>wh_network_id = network, wh_worker_public_key = sk_public K key, wh_worker_nonce = nonce,
            wh_capabilities = caps, wh_max_parallelism = par\<rparr> challenge (sign_worker_auth K key
             \<lparr>wh_network_id = network, wh_worker_public_key = sk_public K key, wh_worker_nonce = nonce,
              wh_capabilities = caps, wh_max_parallelism = par\<rparr> challenge) sig"
proof -
  define h where "h = \<lparr>wh_network_id = network, wh_worker_public_key = sk_public K key, wh_worker_nonce = nonce,
    wh_capabilities = caps, wh_max_parallelism = par\<rparr>"
  obtain w f u c sig v where w: "tcp_in w = tcp_in s" and f: "Frame_read_from H magic w = (Inr f, u)" "fr_payload f = NodeChallengeV1_encode c"
    and c: "wf_challenge c" "validate_for_hello H c h = Inr ()" "nc_node_id c = expected"
      "node_id_from_public_key H (nc_node_public_key c) = expected"
    and v: "vk_from_bytes K (nc_node_public_key c) = Some v" "vk_verify K v (node_accept_message h c (sign_worker_auth K key h c)) sig"
    and z: "ses_node_id z = expected" "ses_session_id z = session_id H h c (sign_worker_auth K key h c) sig"
    using assms unfolding initiate_worker_handshake_def Let_def h_def [symmetric]
    by (auto simp: challenge.msg_dec_iff verify_node_accept_def pack_l_verify_iff read_exact_frame_Inr dest!: write_frame_in)
  have "received_node_key s = nc_node_public_key c"
    using received_slice [OF f(1), of 38] c(1) by (simp add: f(2) length_challenge challenge_key_bytes received_node_key_def w)
  then show thesis
    using that c v z unfolding h_def by metis
qed

section \<open>Honest peers\<close>

lemma read_exact_frame_link:
  assumes "\<forall>x. length (H x) = 32" and "length payload \<le> 2 ^ 20" and "rid = None \<or> rid = Some i"
  shows "read_exact_frame H magic ty rid (link (frame_bytes H (new_frame magic ty i payload) @ rest) out) =
     (Inr (new_frame magic ty i payload), link rest out)"
  using Frame_read_from_link [OF assms(1,2)] assms(3) by (auto simp: read_exact_frame_Inr)

lemma write_frame_link:
  "length payload \<le> 2 ^ 20 \<Longrightarrow>
     write_frame H magic ty i payload (link rest out) = (Inr (), link rest (out @ frame_bytes H (new_frame magic ty i payload)))"
  using send_new_link [of payload H magic ty i rest out]
  by (auto simp: write_frame_def send_new_def sbind_def slift_def smap_err_def map_err_def split: prod.splits sum.splits)

text \<open>The bytes that each side sends, for a hello and a challenge.\<close>

definition worker_stream :: "(bytes \<Rightarrow> bytes) \<Rightarrow> u32 \<Rightarrow> u64 \<Rightarrow> WorkerHelloV1 \<Rightarrow> bytes \<Rightarrow> bytes" where
  "worker_stream H magic rid h sig =
     frame_bytes H (new_frame magic MSG_WORKER_HELLO rid (WorkerHelloV1_encode h)) @
     frame_bytes H (new_frame magic MSG_WORKER_AUTH rid sig)"

definition node_stream :: "(bytes \<Rightarrow> bytes) \<Rightarrow> u32 \<Rightarrow> u64 \<Rightarrow> NodeChallengeV1 \<Rightarrow> bytes \<Rightarrow> bytes" where
  "node_stream H magic rid c sig =
     frame_bytes H (new_frame magic MSG_NODE_CHALLENGE rid (NodeChallengeV1_encode c)) @
     frame_bytes H (new_frame magic MSG_NODE_ACCEPT rid sig)"

lemma signed_ok:
  assumes "signing_sound K"
  shows "length (sk_sign K k m) = 64" and "pack_l_verify K (sk_public K k) m (sk_sign K k m) = Inr ()"
    and "length (sk_public K k) = 32"
  using assms unfolding pack_l_verify_iff signing_sound_def by blast+

lemma wf_node_challenge:
  "\<forall>x. length (H x) = 32 \<Longrightarrow> length (sk_public K k) = 32 \<Longrightarrow> wf_hello h \<Longrightarrow> length nonce = 32 \<Longrightarrow> wf_challenge (node_challenge H K k nonce caps h)"
  by (simp add: wf_challenge_def node_challenge_def node_id_from_public_key_def WorkerHelloV1_worker_id_def worker_id_def
      hash_parts_def Let_def wf_hello_def)

lemma initiate_completes:
  assumes H: "\<forall>x. length (H x) = 32"
    and K: "\<forall>k. length (sk_public K k) = 32" "\<forall>k m. length (sk_sign K k m) = 64" "pack_l_verify K (sk_public K nk) (node_accept_message h c ws) ns = Inr ()"
    and h: "h = \<lparr>wh_network_id = network, wh_worker_public_key = sk_public K wk, wh_worker_nonce = wn,
      wh_capabilities = wcaps, wh_max_parallelism = par\<rparr>" "length wn = 32"
    and c: "c = node_challenge H K nk nn ncaps h" "length nn = 32" and rid: "rid \<noteq> 0"
    and sigs: "ws = sign_worker_auth K wk h c" "ns = sign_node_accept K nk h c ws"
  shows "initiate_worker_handshake H K magic network wk wn wcaps par rid (node_id_from_public_key H (sk_public K nk))
      (link (node_stream H magic rid c ns) []) =
    (Inr \<lparr>ses_worker_id = worker_id H network (sk_public K wk), ses_worker_public_key = sk_public K wk,
       ses_node_id = node_id_from_public_key H (sk_public K nk), ses_session_id = session_id H h c ws ns, ses_request_id = rid\<rparr>,
     link [] (worker_stream H magic rid h ws))"
proof -
  have wf: "wf_hello h" "wf_challenge c"
    using h c wf_node_challenge [OF H, of K nk h nn ncaps] K(1) by (simp_all add: wf_hello_def)
  have l: "length (WorkerHelloV1_encode h) = 80" "length (NodeChallengeV1_encode c) = 174" "length ws = 64" "length ns = 64"
    using wf K(2) by (simp_all add: length_hello length_challenge sigs sign_worker_auth_def sign_node_accept_def)
  have dec: "NodeChallengeV1_decode (NodeChallengeV1_encode c) = Inr c"
    by (rule challenge.msg_dec_enc [OF wf(2)])
  have val: "validate_for_hello H c h = Inr ()"
    by (simp add: validate_for_hello_iff c node_challenge_def)
  have ids: "nc_node_id c = node_id_from_public_key H (sk_public K nk)" "nc_node_public_key c = sk_public K nk"
    by (simp_all add: c node_challenge_def)
  have ok: "verify_node_accept K (sk_public K nk) h c ws ns = Inr ()"
    unfolding verify_node_accept_def by (rule K(3))
  note w = write_frame_link [where H = H and magic = magic]
  have r1: "read_exact_frame H magic MSG_NODE_CHALLENGE (Some rid) (link (node_stream H magic rid c ns) out) =
      (Inr (new_frame magic MSG_NODE_CHALLENGE rid (NodeChallengeV1_encode c)),
       link (frame_bytes H (new_frame magic MSG_NODE_ACCEPT rid ns)) out)" for out
    unfolding node_stream_def by (rule read_exact_frame_link [OF H]) (simp_all add: l)
  have r2: "read_exact_frame H magic MSG_NODE_ACCEPT (Some rid) (link (frame_bytes H (new_frame magic MSG_NODE_ACCEPT rid ns)) out) =
      (Inr (new_frame magic MSG_NODE_ACCEPT rid ns), link [] out)" for out
    using read_exact_frame_link [OF H, of ns "Some rid" rid magic MSG_NODE_ACCEPT "[]" out] l by simp
  show ?thesis
    unfolding initiate_worker_handshake_def Let_def h(1) [symmetric]
    by (simp add: rid reject_if_def w l r1 r2 dec val ids ok worker_stream_def flip: sigs(1))
qed

lemma accept_completes:
  assumes H: "\<forall>x. length (H x) = 32" and K: "length (sk_public K nk) = 32" "length ws = 64" "length ns = 64" "pack_l_verify K (sk_public K wk) (worker_auth_message h c) ws = Inr ()"
    and h: "wf_hello h" "wh_worker_public_key h = sk_public K wk" "wh_network_id h = network"
    and c: "c = node_challenge H K nk nn ncaps h" "length nn = 32" and rid: "rid \<noteq> 0"
    and sigs: "ns = sign_node_accept K nk h c ws"
    and reg: "WorkerHelloV1_worker_id H h \<in> allowed" "WorkerHelloV1_worker_id H h \<notin> active r"
  shows "accept_worker_handshake H K magic network nk nn ncaps allowed (link (worker_stream H magic rid h ws) [], r) =
    (Inr \<lparr>ses_worker_id = WorkerHelloV1_worker_id H h, ses_worker_public_key = sk_public K wk,
       ses_node_id = node_id_from_public_key H (sk_public K nk), ses_session_id = session_id H h c ws ns, ses_request_id = rid\<rparr>,
     (link [] (node_stream H magic rid c ns), r\<lparr>active := insert (WorkerHelloV1_worker_id H h) (active r)\<rparr>))"
proof -
  have wf: "wf_challenge c"
    using h c wf_node_challenge [OF H] K by simp
  have l: "length (WorkerHelloV1_encode h) = 80" "length (NodeChallengeV1_encode c) = 174"
    using wf h by (simp_all add: length_hello length_challenge)
  have dec: "WorkerHelloV1_decode (WorkerHelloV1_encode h) = Inr h"
    by (rule hello.msg_dec_enc [OF h(1)])
  have ch: "\<lparr>nc_network_id = network, nc_node_id = node_id_from_public_key H (sk_public K nk), nc_node_public_key = sk_public K nk,
      nc_worker_id = WorkerHelloV1_worker_id H h, nc_worker_nonce = wh_worker_nonce h, nc_node_nonce = nn, nc_capabilities = ncaps\<rparr> = c"
    by (simp add: c node_challenge_def h)
  have ok: "verify_worker_auth H K (sk_public K wk) h c ws = Inr ()"
    using K(4) by (simp add: verify_worker_auth_def validate_for_hello_iff [THEN iffD2] c node_challenge_def)
  note w = write_frame_link [where H = H and magic = magic]
  have r1: "read_exact_frame H magic MSG_WORKER_HELLO None (link (worker_stream H magic rid h ws) []) =
      (Inr (new_frame magic MSG_WORKER_HELLO rid (WorkerHelloV1_encode h)),
       link (frame_bytes H (new_frame magic MSG_WORKER_AUTH rid ws)) [])"
    unfolding worker_stream_def by (rule read_exact_frame_link [OF H]) (simp_all add: l K)
  have r2: "read_exact_frame H magic MSG_WORKER_AUTH (Some rid) (link (frame_bytes H (new_frame magic MSG_WORKER_AUTH rid ws)) out) =
      (Inr (new_frame magic MSG_WORKER_AUTH rid ws), link [] out)" for out
    using read_exact_frame_link [OF H, of ws "Some rid" rid magic MSG_WORKER_AUTH "[]" out] K by simp
  show ?thesis
    unfolding accept_worker_handshake_def Let_def
    by (simp add: rid reject_if_def w l K(2,3) r1 r2 dec h ch ok reg registry_claim_def node_stream_def flip: sigs)
qed

section \<open>Reference worker\<close>

lemma execute_assignment_Inr:
  assumes "execute_assignment H A K a ses pk key = Inr w"
  obtains x where "mutiny_argon2id A
      (ticket_seed H (epoch_seed H (ac_anchor_entropy (as_core a)) (ac_target_epoch (as_core a))) (ac_license_id (as_core a)) (ac_ticket_index (as_core a)))
      (ticket_salt H (epoch_seed H (ac_anchor_entropy (as_core a)) (ac_target_epoch (as_core a))) (ac_license_id (as_core a)) (ac_ticket_index (as_core a))) = Inr x"
    and "rc_result_kind (wr_core w) = (if proof_below_target x (ac_target (as_core a)) then RESULT_WIN else RESULT_NO_WIN)"
    and "rc_argon2_proof (wr_core w) = (if proof_below_target x (ac_target (as_core a)) then x else replicate 32 0)"
    and "rc_assignment_id (wr_core w) = as_assignment_id a" "rc_ticket_key (wr_core w) = as_ticket_key a"
      "rc_session_id (wr_core w) = ses_session_id ses" "rc_worker_id (wr_core w) = worker_id H (ac_network_id (as_core a)) (sk_public K key)"
      "rc_network_id (wr_core w) = ac_network_id (as_core a)"
    and "assignment_verify_node_signature H K a pk = Inr ()" and "result_validate_shape (wr_core w) = Inr ()"
    and "wr_worker_signature w = sk_sign K key (result_message (wr_core w))"
  using assms
  by (auto simp: execute_assignment_def Let_def WorkResultV1_new_signed_def simp del: if_split_asm split: if_splits)

section \<open>Properties\<close>

text \<open>C30. The registry of active workers is exact: a refused handshake, whatever the reason and including a
  failed write of the last message, leaves the registry as it was; an accepted one was not active
  before and adds exactly this worker.\<close>

theorem worker_registry_exact:
  assumes "accept_worker_handshake H K magic network key nonce caps allowed (s, r) = (x, (t, q))"
  shows "(case x of Inl e \<Rightarrow> q = r
    | Inr z \<Rightarrow> ses_worker_id z \<notin> active r \<and> active q = insert (ses_worker_id z) (active r) \<and> ses_worker_id z \<in> allowed)"
proof (cases x)
  case (Inl e)
  then show ?thesis
    using postD [OF accept_registry_outcome assms] by (simp add: registry_outcome_def)
next
  case (Inr z)
  have "registry_outcome r x q"
    using postD [OF accept_registry_outcome assms] by simp
  moreover have "ses_worker_id z \<in> allowed"
    using accept_sound [OF assms [unfolded Inr]] by (metis AuthenticatedWorkerSession.select_convs(1))
  ultimately show ?thesis
    by (simp add: registry_outcome_def Inr)
qed

theorem worker_registry_exact_witness:
  "accept_worker_handshake tail_hash (zero_keys UNIV) 7 9 2 (replicate 32 6) 0 {} (link [] [], \<lparr>active = {[1]}\<rparr>) =
     (Inl (EpFrame PpIo), (link [] [], \<lparr>active = {[1]}\<rparr>))"
proof -
  have run: "\<exists>t q. accept_worker_handshake tail_hash (zero_keys UNIV) 7 9 2 (replicate 32 6) 0 {} (link [] [], \<lparr>active = {[1]}\<rparr>) =
      (Inl (EpFrame PpIo), (t, q)) \<and> t = link [] []"
    by (simp add: accept_worker_handshake_def sbind_def on_stream_def read_exact_frame_def smap_err_def Frame_read_from_def
        tcp_read_exact_def link_def)
  then obtain q where q: "accept_worker_handshake tail_hash (zero_keys UNIV) 7 9 2 (replicate 32 6) 0 {} (link [] [], \<lparr>active = {[1]}\<rparr>) =
      (Inl (EpFrame PpIo), (link [] [], q))"
    by blast
  from worker_registry_exact [OF q] q show ?thesis
    by simp
qed

text \<open>C14. Worker sessions are authenticated. Let \<open>W\<close> hold every message that the peer's key \<open>pk\<close> has signed. If a
  node opens a session for that key, the worker is on the allowlist, and it has signed the
  authentication of the challenge of this handshake, with this node's key, this network and this nonce; the
  session is the one of that hello and that challenge. If a worker that is paired with the node of
  key \<open>pk\<close> opens a session, and the hash does not collide on that key and the key received in the
  challenge, then the key received is \<open>pk\<close>, and the node has signed the acceptance of exactly this
  worker's hello and of the challenge from which the session is derived.\<close>

theorem worker_session_authenticated:
  assumes signed: "\<forall>v m sig. vk_from_bytes K pk = Some v \<and> vk_verify K v m sig \<longrightarrow> m \<in> signed_string ` W"
    and wf: "\<forall>x \<in> W. wf_signed x" and hash: "\<forall>x. length (H x) = 32"
    and own: "length (sk_public K key) = 32" "length nonce = 32" "\<forall>m. length (sk_sign K key m) = 64"
  shows "(accept_worker_handshake H K magic network key nonce caps allowed (s, r) = (Inr z, (t, q)) \<and> ses_worker_public_key z = pk \<longrightarrow>
      worker_id H network pk \<in> allowed \<and> ses_worker_id z = worker_id H network pk \<and>
      (\<exists>h c sg. Signed_auth h c \<in> W \<and> wh_worker_public_key h = pk \<and> wh_network_id h = network \<and> nc_network_id c = network \<and>
         nc_node_public_key c = sk_public K key \<and> nc_node_nonce c = nonce \<and>
         ses_session_id z = session_id H h c sg (sign_node_accept K key h c sg))) \<and>
    (initiate_worker_handshake H K magic network key nonce wcaps par rid (node_id_from_public_key H pk) u = (Inr z, t) \<and>
      inj_on H {ascii ''MUTINY-NODE-ID-V1'' @ pk, ascii ''MUTINY-NODE-ID-V1'' @ received_node_key u} \<longrightarrow>
      ses_node_id z = node_id_from_public_key H pk \<and> received_node_key u = pk \<and>
      (let h = \<lparr>wh_network_id = network, wh_worker_public_key = sk_public K key, wh_worker_nonce = nonce,
             wh_capabilities = wcaps, wh_max_parallelism = par\<rparr>
       in \<exists>c sg. Signed_accept h c (sign_worker_auth K key h c) \<in> W \<and> nc_node_public_key c = pk \<and> nc_network_id c = network \<and>
          nc_worker_nonce c = nonce \<and> ses_session_id z = session_id H h c (sign_worker_auth K key h c) sg))"
proof (intro conjI impI; elim conjE)
  assume a: "accept_worker_handshake H K magic network key nonce caps allowed (s, r) = (Inr z, (t, q))" and pk: "ses_worker_public_key z = pk"
  obtain h sg v where h: "wf_hello h" "wh_network_id h = network"
    and v: "vk_from_bytes K (wh_worker_public_key h) = Some v"
      "vk_verify K v (worker_auth_message h (node_challenge H K key nonce caps h)) sg"
    and al: "WorkerHelloV1_worker_id H h \<in> allowed"
    and z: "ses_worker_id z = WorkerHelloV1_worker_id H h" "ses_worker_public_key z = wh_worker_public_key h"
      "ses_session_id z = session_id H h (node_challenge H K key nonce caps h) sg (sign_node_accept K key h (node_challenge H K key nonce caps h) sg)"
    using accept_sound [OF a] by (metis AuthenticatedWorkerSession.select_convs(1,2,4))
  let ?c = "node_challenge H K key nonce caps h"
  have "wf_signed (Signed_auth h ?c)"
    using h wf_node_challenge [OF hash own(1) h(1) own(2)] by simp
  moreover have "signed_string (Signed_auth h ?c) \<in> signed_string ` W"
    using signed v pk z(2) by auto
  ultimately have "Signed_auth h ?c \<in> W"
    using wf signed_string_inj by (metis imageE)
  then show "worker_id H network pk \<in> allowed" "ses_worker_id z = worker_id H network pk"
    "\<exists>h c sg. Signed_auth h c \<in> W \<and> wh_worker_public_key h = pk \<and> wh_network_id h = network \<and> nc_network_id c = network \<and>
       nc_node_public_key c = sk_public K key \<and> nc_node_nonce c = nonce \<and>
       ses_session_id z = session_id H h c sg (sign_node_accept K key h c sg)"
    using al z pk h
    by (auto simp: WorkerHelloV1_worker_id_def node_challenge_def intro!: exI [of _ h] exI [of _ ?c] exI [of _ sg])
next
  let ?h = "\<lparr>wh_network_id = network, wh_worker_public_key = sk_public K key, wh_worker_nonce = nonce,
    wh_capabilities = wcaps, wh_max_parallelism = par\<rparr>"
  assume run: "initiate_worker_handshake H K magic network key nonce wcaps par rid (node_id_from_public_key H pk) u = (Inr z, t)"
    and inj: "inj_on H {ascii ''MUTINY-NODE-ID-V1'' @ pk, ascii ''MUTINY-NODE-ID-V1'' @ received_node_key u}"
  obtain c sg v where c: "wf_challenge c" "validate_for_hello H c ?h = Inr ()" "nc_node_public_key c = received_node_key u"
    and id: "node_id_from_public_key H (received_node_key u) = node_id_from_public_key H pk"
    and v: "vk_from_bytes K (received_node_key u) = Some v"
      "vk_verify K v (node_accept_message ?h c (sign_worker_auth K key ?h c)) sg"
    and z: "ses_node_id z = node_id_from_public_key H pk" "ses_session_id z = session_id H ?h c (sign_worker_auth K key ?h c) sg"
    using initiate_sound [OF run] by metis
  have key: "received_node_key u = pk"
    using inj_onD [OF inj, of "ascii ''MUTINY-NODE-ID-V1'' @ received_node_key u" "ascii ''MUTINY-NODE-ID-V1'' @ pk"] id
    by (simp add: node_id_from_public_key_def)
  have wfs: "wf_signed (Signed_accept ?h c (sign_worker_auth K key ?h c))"
    using c own by (simp add: wf_hello_def sign_worker_auth_def)
  have "signed_string (Signed_accept ?h c (sign_worker_auth K key ?h c)) \<in> signed_string ` W"
    using signed v key by auto
  then have "Signed_accept ?h c (sign_worker_auth K key ?h c) \<in> W"
    using wf wfs signed_string_inj by (metis imageE)
  then show "ses_node_id z = node_id_from_public_key H pk" "received_node_key u = pk"
    "let h = ?h in \<exists>c sg. Signed_accept h c (sign_worker_auth K key h c) \<in> W \<and> nc_node_public_key c = pk \<and> nc_network_id c = network \<and>
       nc_worker_nonce c = nonce \<and> ses_session_id z = session_id H h c (sign_worker_auth K key h c) sg"
    using z key c unfolding Let_def by (auto simp: validate_for_hello_iff intro!: exI [of _ c] exI [of _ sg])
qed

text \<open>A hello, the challenge for it, and the streams of the two sides.\<close>

definition sample_hello :: WorkerHelloV1 where
  "sample_hello = \<lparr>wh_network_id = 9, wh_worker_public_key = replicate 32 1, wh_worker_nonce = replicate 32 5, wh_capabilities = 0,
     wh_max_parallelism = 4\<rparr>"

definition sample_challenge :: NodeChallengeV1 where
  "sample_challenge = node_challenge tail_hash (zero_keys {}) 2 (replicate 32 6) 0 sample_hello"

lemma zero_keys_fields: "sk_public (zero_keys M) k = replicate 32 k" "sk_sign (zero_keys M) k m = replicate 64 0"
  by (simp_all add: zero_keys_def)

lemma sample_challenge_eq: "sample_challenge = node_challenge tail_hash (zero_keys M) 2 (replicate 32 6) 0 sample_hello"
  by (simp add: sample_challenge_def node_challenge_def zero_keys_fields)

lemma sample_handshake_wf: "wf_hello sample_hello" "wf_challenge sample_challenge"
proof -
  show h: "wf_hello sample_hello"
    by (simp add: wf_hello_def sample_hello_def)
  show "wf_challenge sample_challenge"
    unfolding sample_challenge_def by (rule wf_node_challenge) (simp_all add: length_tail_hash zero_keys_fields h)
qed

theorem worker_session_authenticated_witness:
  "(\<exists>s z t q. accept_worker_handshake tail_hash (zero_keys {worker_auth_message sample_hello sample_challenge}) 7 9 2 (replicate 32 6) 0 UNIV
       (s, \<lparr>active = {}\<rparr>) = (Inr z, (t, q)) \<and> ses_worker_id z = worker_id tail_hash 9 (replicate 32 1) \<and>
       (\<exists>sg n. ses_session_id z = session_id tail_hash sample_hello sample_challenge sg n)) \<and>
   (\<exists>u z t. initiate_worker_handshake tail_hash
       (zero_keys {node_accept_message sample_hello sample_challenge (replicate 64 0)}) 7 9 1 (replicate 32 5) 0 4 3
       (node_id_from_public_key tail_hash (replicate 32 2)) u = (Inr z, t) \<and> received_node_key u = replicate 32 2 \<and>
       (\<exists>sg. ses_session_id z = session_id tail_hash sample_hello sample_challenge (replicate 64 0) sg))"
proof (intro conjI)
  let ?h = sample_hello and ?c = sample_challenge and ?zeros = "replicate 64 (0 :: u8)"
  have H: "\<forall>x. length (tail_hash x) = 32"
    by (simp add: length_tail_hash)
  have hf: "wh_worker_public_key ?h = replicate 32 1" "wh_network_id ?h = 9"
    by (simp_all add: sample_hello_def)
  define K where "K = zero_keys {worker_auth_message ?h ?c}"
  have K: "sk_public K k = replicate 32 k" "sk_sign K k m = ?zeros" "\<forall>m. length (sk_sign K k m) = 64" for k m
    by (simp_all add: K_def zero_keys_fields)
  have v: "pack_l_verify K (replicate 32 1) (worker_auth_message ?h ?c) ?zeros = Inr ()"
    by (simp add: pack_l_verify_iff K_def zero_keys_def)
  obtain s z t q where run: "accept_worker_handshake tail_hash K 7 9 2 (replicate 32 6) 0 UNIV (s, \<lparr>active = {}\<rparr>) = (Inr z, (t, q))"
    and z: "ses_worker_public_key z = replicate 32 1"
    using accept_completes [where H = tail_hash and K = K and nk = 2 and ws = ?zeros and h = ?h and c = ?c and wk = 1
        and network = 9 and nn = "replicate 32 6" and ncaps = 0 and rid = 1 and allowed = UNIV and r = "\<lparr>active = {}\<rparr>" and magic = 7,
        OF H _ _ _ _ sample_handshake_wf(1) _ _ sample_challenge_eq [of "{worker_auth_message ?h ?c}", folded K_def] _ _ refl]
    by (simp add: K v hf sign_node_accept_def)
  have signed: "\<forall>v m sig. vk_from_bytes K (replicate 32 1) = Some v \<and> vk_verify K v m sig \<longrightarrow> m \<in> signed_string ` {Signed_auth ?h ?c}"
    by (simp add: K_def zero_keys_def)
  have wf: "\<forall>x \<in> {Signed_auth ?h ?c}. wf_signed x"
    using sample_handshake_wf by simp
  have own: "length (sk_public K 2) = 32" "length (replicate 32 (6 :: u8)) = 32"
    by (simp_all add: K)
  note auth = mp [OF conjunct1 [OF worker_session_authenticated [OF signed wf H own K(3)]] conjI [OF run z]]
  have "ses_worker_id z = worker_id tail_hash 9 (replicate 32 1)"
    using auth by blast
  moreover have "\<exists>sg n. ses_session_id z = session_id tail_hash ?h ?c sg n"
    using auth by blast
  ultimately show "\<exists>s z t q. accept_worker_handshake tail_hash (zero_keys {worker_auth_message ?h ?c}) 7 9 2 (replicate 32 6) 0 UNIV
       (s, \<lparr>active = {}\<rparr>) = (Inr z, (t, q)) \<and> ses_worker_id z = worker_id tail_hash 9 (replicate 32 1) \<and>
       (\<exists>sg n. ses_session_id z = session_id tail_hash ?h ?c sg n)"
    using run unfolding K_def [symmetric] by blast
  define L where "L = zero_keys {node_accept_message ?h ?c ?zeros}"
  have L: "sk_public L k = replicate 32 k" "sk_sign L k m = ?zeros" "\<forall>m. length (sk_sign L k m) = 64" for k m
    by (simp_all add: L_def zero_keys_fields)
  have ok: "pack_l_verify L (sk_public L 2) (node_accept_message ?h ?c ?zeros) ?zeros = Inr ()"
    by (simp add: pack_l_verify_iff L_def zero_keys_def)
  have h: "?h = \<lparr>wh_network_id = 9, wh_worker_public_key = sk_public L 1, wh_worker_nonce = replicate 32 5, wh_capabilities = 0,
      wh_max_parallelism = 4\<rparr>"
    by (simp add: sample_hello_def L)
  have lens: "\<forall>k. length (sk_public L k) = 32" "\<forall>k m. length (sk_sign L k m) = 64"
    and nonces: "length (replicate 32 (5 :: u8)) = 32" "length (replicate 32 (6 :: u8)) = 32"
    and rid: "(3 :: u64) \<noteq> 0"
    and sigs: "?zeros = sign_worker_auth L 1 ?h ?c" "?zeros = sign_node_accept L 2 ?h ?c ?zeros"
    by (simp_all add: L sign_worker_auth_def sign_node_accept_def)
  define u where "u = link (node_stream tail_hash 7 3 ?c ?zeros) []"
  obtain z t where run: "initiate_worker_handshake tail_hash L 7 9 1 (replicate 32 5) 0 4 3
      (node_id_from_public_key tail_hash (replicate 32 2)) u = (Inr z, t)"
    using initiate_completes [OF H lens ok h nonces(1) sample_challenge_eq [of "{node_accept_message ?h ?c ?zeros}", folded L_def]
        nonces(2) rid sigs, of 7]
    unfolding u_def L(1) by blast
  have frame: "length (frame_header tail_hash f) = 26" for f
    by (simp add: frame_header_def length_checksum4 [OF H])
  have "received_node_key u = take 32 (drop 38 (NodeChallengeV1_encode ?c))"
    using length_challenge [OF sample_handshake_wf(2)]
    by (simp add: received_node_key_def u_def link_def node_stream_def frame_bytes_header frame)
  then have key: "received_node_key u = replicate 32 2"
    using challenge_key_bytes [OF sample_handshake_wf(2)] by (simp add: sample_challenge_def node_challenge_def zero_keys_fields)
  have signed: "\<forall>v m sig. vk_from_bytes L (replicate 32 2) = Some v \<and> vk_verify L v m sig \<longrightarrow> m \<in> signed_string ` {Signed_accept ?h ?c ?zeros}"
    by (simp add: L_def zero_keys_def)
  have wf: "\<forall>x \<in> {Signed_accept ?h ?c ?zeros}. wf_signed x"
    using sample_handshake_wf by simp
  have own: "length (sk_public L 1) = 32" "length (replicate 32 (5 :: u8)) = 32"
    by (simp_all add: L)
  have "inj_on tail_hash {ascii ''MUTINY-NODE-ID-V1'' @ replicate 32 2, ascii ''MUTINY-NODE-ID-V1'' @ received_node_key u}"
    by (simp add: key)
  note auth = mp [OF conjunct2 [OF worker_session_authenticated [OF signed wf H own L(3)]] conjI [OF run this]]
  have "received_node_key u = replicate 32 2"
    using auth by blast
  moreover have "\<exists>sg. ses_session_id z = session_id tail_hash ?h ?c ?zeros sg"
    using auth unfolding Let_def h [symmetric] by (auto simp: sign_worker_auth_def L)
  ultimately show "\<exists>u z t. initiate_worker_handshake tail_hash (zero_keys {node_accept_message ?h ?c ?zeros}) 7 9 1 (replicate 32 5) 0 4 3
       (node_id_from_public_key tail_hash (replicate 32 2)) u = (Inr z, t) \<and> received_node_key u = replicate 32 2 \<and>
       (\<exists>sg. ses_session_id z = session_id tail_hash ?h ?c ?zeros sg)"
    using run unfolding L_def [symmetric] by blast
qed

text \<open>C33. Honest peers open one session: a node and a paired, allowed and inactive worker that are connected
  to each other both succeed, with the same session record on both sides.\<close>

theorem worker_handshake_completes:
  assumes "\<forall>x. length (H x) = 32" and "signing_sound K" and "length wn = 32" and "length nn = 32" and "rid \<noteq> 0"
    and "worker_id H network (sk_public K wk) \<in> allowed" and "worker_id H network (sk_public K wk) \<notin> active r"
  shows "\<exists>z wi ni.
    initiate_worker_handshake H K magic network wk wn wcaps par rid (node_id_from_public_key H (sk_public K nk)) (link ni []) =
      (Inr z, link [] wi) \<and>
    accept_worker_handshake H K magic network nk nn ncaps allowed (link wi [], r) =
      (Inr z, (link [] ni, r\<lparr>active := insert (worker_id H network (sk_public K wk)) (active r)\<rparr>)) \<and>
    ses_worker_public_key z = sk_public K wk \<and> ses_node_id z = node_id_from_public_key H (sk_public K nk)"
proof -
  define h where "h = \<lparr>wh_network_id = network, wh_worker_public_key = sk_public K wk, wh_worker_nonce = wn,
    wh_capabilities = wcaps, wh_max_parallelism = par\<rparr>"
  define c where "c = node_challenge H K nk nn ncaps h"
  define ws where "ws = sign_worker_auth K wk h c"
  define ns where "ns = sign_node_accept K nk h c ws"
  note K = signed_ok [OF assms(2)]
  have i: "initiate_worker_handshake H K magic network wk wn wcaps par rid (node_id_from_public_key H (sk_public K nk))
      (link (node_stream H magic rid c ns) []) =
    (Inr \<lparr>ses_worker_id = worker_id H network (sk_public K wk), ses_worker_public_key = sk_public K wk,
       ses_node_id = node_id_from_public_key H (sk_public K nk), ses_session_id = session_id H h c ws ns, ses_request_id = rid\<rparr>,
     link [] (worker_stream H magic rid h ws))"
    using K by (intro initiate_completes [OF assms(1) _ _ _ h_def assms(3) c_def assms(4,5) ws_def ns_def])
      (simp_all add: ns_def sign_node_accept_def)
  have w: "WorkerHelloV1_worker_id H h = worker_id H network (sk_public K wk)"
    by (simp add: WorkerHelloV1_worker_id_def h_def)
  have "accept_worker_handshake H K magic network nk nn ncaps allowed (link (worker_stream H magic rid h ws) [], r) =
    (Inr \<lparr>ses_worker_id = WorkerHelloV1_worker_id H h, ses_worker_public_key = sk_public K wk,
       ses_node_id = node_id_from_public_key H (sk_public K nk), ses_session_id = session_id H h c ws ns, ses_request_id = rid\<rparr>,
     (link [] (node_stream H magic rid c ns), r\<lparr>active := insert (WorkerHelloV1_worker_id H h) (active r)\<rparr>))"
    using assms K by (intro accept_completes [OF assms(1)])
      (simp_all add: c_def ns_def ws_def sign_node_accept_def sign_worker_auth_def h_def wf_hello_def w [unfolded h_def])
  with i show ?thesis
    unfolding w by (intro exI conjI) (assumption | simp)+
qed

theorem worker_handshake_completes_witness:
  "\<exists>z wi ni.
    initiate_worker_handshake tail_hash (zero_keys UNIV) 7 9 1 (replicate 32 5) 0 4 3
      (node_id_from_public_key tail_hash (replicate 32 2)) (link ni []) = (Inr z, link [] wi) \<and>
    accept_worker_handshake tail_hash (zero_keys UNIV) 7 9 2 (replicate 32 6) 0 UNIV (link wi [], \<lparr>active = {}\<rparr>) =
      (Inr z, (link [] ni, \<lparr>active = {worker_id tail_hash 9 (replicate 32 1)}\<rparr>)) \<and>
    ses_worker_public_key z = replicate 32 1"
proof -
  have p: "sk_public (zero_keys UNIV) k = replicate 32 k" for k
    by (simp add: zero_keys_def)
  show ?thesis
    using worker_handshake_completes [OF _ zero_keys_sound, where H = tail_hash and wn = "replicate 32 5" and nn = "replicate 32 6"
      and rid = 3 and allowed = UNIV and r = "\<lparr>active = {}\<rparr>" and wk = 1 and nk = 2 and network = 9 and magic = 7 and wcaps = 0
      and par = 4 and ncaps = 0]
    by (simp add: length_tail_hash p) blast
qed

text \<open>C17. The reference worker agrees with consensus: for an assignment whose entropy is that of the anchor
  block, the result it returns is a win exactly when the consensus derivation of that ticket says
  so, with the same proof, and the result verifies under the worker's key.\<close>

theorem worker_result_matches_consensus:
  assumes anchor: "ac_anchor_entropy (as_core a) = anchor_entropy H ae al ai ap"
    and run: "execute_assignment H A K a ses pk key = Inr w" and sound: "signing_sound K"
  shows "verify_worker_signature K w (sk_public K key) = Inr () \<and>
    (\<exists>td. derive_ticket H A ae al ai ap (ac_target_epoch (as_core a)) (ac_license_id (as_core a)) (ac_ticket_index (as_core a))
          (ac_work_units_for_epoch (as_core a)) (ac_target (as_core a)) = Inr td \<and>
       (rc_result_kind (wr_core w) = RESULT_WIN \<longleftrightarrow> td_winning td) \<and>
       (td_winning td \<longrightarrow> rc_argon2_proof (wr_core w) = td_argon2_proof td))"
proof -
  from run obtain x where x: "mutiny_argon2id A
      (ticket_seed H (epoch_seed H (ac_anchor_entropy (as_core a)) (ac_target_epoch (as_core a))) (ac_license_id (as_core a)) (ac_ticket_index (as_core a)))
      (ticket_salt H (epoch_seed H (ac_anchor_entropy (as_core a)) (ac_target_epoch (as_core a))) (ac_license_id (as_core a)) (ac_ticket_index (as_core a))) = Inr x"
    and k: "rc_result_kind (wr_core w) = (if proof_below_target x (ac_target (as_core a)) then RESULT_WIN else RESULT_NO_WIN)"
    and p: "rc_argon2_proof (wr_core w) = (if proof_below_target x (ac_target (as_core a)) then x else replicate 32 0)"
    and v: "assignment_verify_node_signature H K a pk = Inr ()" and s: "result_validate_shape (wr_core w) = Inr ()"
    and g: "wr_worker_signature w = sk_sign K key (result_message (wr_core w))"
    by (rule execute_assignment_Inr)
  have "ac_ticket_index (as_core a) < ac_work_units_for_epoch (as_core a)"
    using v by (auto simp: assignment_verify_node_signature_def validate_derived_iff good_shape_def)
  then show ?thesis
    using x k p s signed_ok(2) [OF sound]
    by (auto simp: derive_ticket_def anchor Let_def verify_worker_signature_def g RESULT_WIN_def RESULT_NO_WIN_def not_le)
qed

text \<open>An Argon2 library with a constant output.\<close>

definition flat_argon2 :: "unit argon2_lib" where
  "flat_argon2 = \<lparr>params_new = (\<lambda>_ _ _ _. Some ()), hash_password_into = (\<lambda>_ _ _ n. Some (replicate n 5))\<rparr>"

theorem worker_result_matches_consensus_witness:
  "let core = \<lparr>ac_network_id = 9, ac_session_id = replicate 32 8, ac_assignment_sequence = 1,
         ac_worker_id = worker_id tail_hash 9 (replicate 32 1), ac_node_id = node_id_from_public_key tail_hash (replicate 32 2),
         ac_parent_block_hash = replicate 32 4, ac_parent_height = 10, ac_target_epoch = 11, ac_license_id = replicate 32 7,
         ac_ticket_index = 0, ac_work_units_for_epoch = 2, ac_eligible_license_count = 1,
         ac_anchor_entropy = anchor_entropy tail_hash 10 (replicate 32 7) 0 (replicate 32 3), ac_target = replicate 32 9,
         ac_expires_epoch = 11, ac_algorithm_id = 1, ac_algorithm_version = 1\<rparr>;
       a = \<lparr>as_core = core, as_ticket_key = core_ticket_key tail_hash core, as_assignment_id = assignment_id tail_hash core,
         as_node_signature = replicate 64 0\<rparr>;
       ses = \<lparr>ses_worker_id = worker_id tail_hash 9 (replicate 32 1), ses_worker_public_key = replicate 32 1,
         ses_node_id = node_id_from_public_key tail_hash (replicate 32 2), ses_session_id = replicate 32 8, ses_request_id = 1\<rparr>
   in \<exists>w. execute_assignment tail_hash flat_argon2 (zero_keys UNIV) a ses (replicate 32 2) 1 = Inr w \<and>
      verify_worker_signature (zero_keys UNIV) w (replicate 32 1) = Inr () \<and>
      (\<exists>td. derive_ticket tail_hash flat_argon2 10 (replicate 32 7) 0 (replicate 32 3) 11 (replicate 32 7) 0 2 (replicate 32 9) = Inr td \<and>
         (rc_result_kind (wr_core w) = RESULT_WIN \<longleftrightarrow> td_winning td))"
proof -
  define core where "core = \<lparr>ac_network_id = 9, ac_session_id = replicate 32 8, ac_assignment_sequence = 1,
         ac_worker_id = worker_id tail_hash 9 (replicate 32 1), ac_node_id = node_id_from_public_key tail_hash (replicate 32 2),
         ac_parent_block_hash = replicate 32 4, ac_parent_height = 10, ac_target_epoch = 11, ac_license_id = replicate 32 7,
         ac_ticket_index = 0, ac_work_units_for_epoch = 2, ac_eligible_license_count = 1,
         ac_anchor_entropy = anchor_entropy tail_hash 10 (replicate 32 7) 0 (replicate 32 3), ac_target = replicate 32 9,
         ac_expires_epoch = 11, ac_algorithm_id = 1, ac_algorithm_version = 1\<rparr>"
  define a where "a = \<lparr>as_core = core, as_ticket_key = core_ticket_key tail_hash core, as_assignment_id = assignment_id tail_hash core,
         as_node_signature = replicate 64 0\<rparr>"
  define ses where "ses = \<lparr>ses_worker_id = worker_id tail_hash 9 (replicate 32 1), ses_worker_public_key = replicate 32 1,
         ses_node_id = node_id_from_public_key tail_hash (replicate 32 2), ses_session_id = replicate 32 8, ses_request_id = (1 :: u64)\<rparr>"
  have v: "assignment_verify_node_signature tail_hash (zero_keys UNIV) a (replicate 32 2) = Inr ()"
    by (simp add: assignment_verify_node_signature_def validate_derived_iff [THEN iffD2] a_def good_shape_def core_def
        ALGORITHM_PACK_A_ARGON2ID_def ALGORITHM_PACK_A_ARGON2ID_V1_def verify_assignment_def pack_l_verify_iff zero_keys_def)
  have pk: "sk_public (zero_keys UNIV) 1 = replicate 32 1"
    by (simp add: zero_keys_def)
  obtain w where run: "execute_assignment tail_hash flat_argon2 (zero_keys UNIV) a ses (replicate 32 2) 1 = Inr w"
    unfolding execute_assignment_def v Let_def
    by (simp add: a_def core_def ses_def pk mutiny_argon2id_def flat_argon2_def WorkResultV1_new_signed_def result_validate_shape_iff [THEN iffD2])
  have "ac_anchor_entropy (as_core a) = anchor_entropy tail_hash 10 (replicate 32 7) 0 (replicate 32 3)"
    by (simp add: a_def core_def)
  from worker_result_matches_consensus [OF this run zero_keys_sound]
  have "verify_worker_signature (zero_keys UNIV) w (replicate 32 1) = Inr () \<and>
      (\<exists>td. derive_ticket tail_hash flat_argon2 10 (replicate 32 7) 0 (replicate 32 3) 11 (replicate 32 7) 0 2 (replicate 32 9) = Inr td \<and>
         (rc_result_kind (wr_core w) = RESULT_WIN \<longleftrightarrow> td_winning td))"
    unfolding pk by (auto simp add: a_def core_def)
  with run show ?thesis
    unfolding Let_def core_def [symmetric] a_def [symmetric] ses_def [symmetric] by blast
qed

end
