(* ===== verification/Ledger.thy ===== *)
theory Ledger
  imports Worker
begin

text \<open>
  The budget ledger of a node (crates/mutiny-worker/src/ledger.rs): reservations of tickets, their file
  format with a checksum, and the replacement protocol on disk. Every file-system call may succeed,
  fail, or stop the program; a stopped or failed write leaves arbitrary bytes in the file written.
  The theory shows that the file format is exact, that a reservation is atomic under every such
  sequence of outcomes, and what a second crash can lose.
\<close>

section \<open>Model: records\<close>

definition LEDGER_MAGIC :: bytes where "LEDGER_MAGIC = ascii ''MUTWLDG1''"
definition LEDGER_VERSION :: u16 where "LEDGER_VERSION = 1"
definition LEDGER_CHECKSUM_DOMAIN :: bytes where "LEDGER_CHECKSUM_DOMAIN = ascii ''MUTINY-WORKER-BUDGET-LEDGER-V1''"
definition HEADER_LEN :: nat where "HEADER_LEN = 8 + 2 + 4 + 8 + 4"
definition RECORD_LEN :: nat where "RECORD_LEN = 32 + 32 + 8 + 32 + 2 + 2 + 32 + 32 + 32 + 8 + 1"
definition CHECKSUM_LEN :: nat where "CHECKSUM_LEN = 32"
definition STATUS_RESERVED :: u8 where "STATUS_RESERVED = 0x01"
definition STATUS_SENT :: u8 where "STATUS_SENT = 0x02"
definition STATUS_COMPLETED_NO_WIN :: u8 where "STATUS_COMPLETED_NO_WIN = 0x03"
definition STATUS_CANDIDATE_WIN :: u8 where "STATUS_CANDIDATE_WIN = 0x04"
definition STATUS_CANCELLED :: u8 where "STATUS_CANCELLED = 0x05"
definition STATUS_INVALID_WIN :: u8 where "STATUS_INVALID_WIN = 0x06"

datatype LedgerError =
    LeIo
  | LePackL PackLError
  | LeFormat string
  | LeChecksum
  | LeReplay
  | LeAssignmentNotFound
  | LeNetworkMismatch

record LedgerRecordV1 =
  lr_ticket_key :: bytes
  lr_parent_block_hash :: bytes
  lr_target_epoch :: u64
  lr_license_id :: bytes
  lr_ticket_index :: u16
  lr_work_units_for_epoch :: u16
  lr_worker_id :: bytes
  lr_session_id :: bytes
  lr_assignment_id :: bytes
  lr_assignment_sequence :: u64
  lr_status :: u8

definition known_status :: "u8 \<Rightarrow> bool" where
  "known_status s \<longleftrightarrow> s = STATUS_RESERVED \<or> s = STATUS_SENT \<or> s = STATUS_COMPLETED_NO_WIN \<or> s = STATUS_CANDIDATE_WIN \<or>
     s = STATUS_CANCELLED \<or> s = STATUS_INVALID_WIN"

definition LedgerRecordV1_validate :: "(bytes \<Rightarrow> bytes) \<Rightarrow> u32 \<Rightarrow> LedgerRecordV1 \<Rightarrow> LedgerError + unit" where
  "LedgerRecordV1_validate H network_id r =
     (if lr_ticket_index r \<ge> lr_work_units_for_epoch r then Inl (LePackL PlOutOfBudget)
      else if \<not> known_status (lr_status r) then Inl (LeFormat ''unknown record status'')
      else
        let expected = ticket_key H network_id (lr_parent_block_hash r) (lr_target_epoch r) (lr_license_id r) (lr_ticket_index r)
        in if lr_ticket_key r \<noteq> expected then Inl (LeFormat ''TicketKey derivation mismatch'') else Inr ())"

definition encode_into :: "LedgerRecordV1 \<Rightarrow> bytes \<Rightarrow> bytes" where
  "encode_into r out =
     (let out = out @ lr_ticket_key r;
          out = out @ lr_parent_block_hash r;
          out = out @ to_be_bytes (lr_target_epoch r);
          out = out @ lr_license_id r;
          out = out @ to_be_bytes (lr_ticket_index r);
          out = out @ to_be_bytes (lr_work_units_for_epoch r);
          out = out @ lr_worker_id r;
          out = out @ lr_session_id r;
          out = out @ lr_assignment_id r;
          out = out @ to_be_bytes (lr_assignment_sequence r)
      in out @ [lr_status r])"

definition ledger_take :: "nat \<Rightarrow> bytes \<Rightarrow> nat \<Rightarrow> bytes \<times> nat" where
  "ledger_take n bs p = (take n (drop p bs), p + n)"

definition LedgerRecordV1_decode :: "bytes \<Rightarrow> LedgerError + LedgerRecordV1" where
  "LedgerRecordV1_decode bs =
     (if length bs \<noteq> RECORD_LEN then Inl (LeFormat ''wrong record length'')
      else
        let p = 0;
            (ticket_key, p) = ledger_take 32 bs p;
            (parent_block_hash, p) = ledger_take 32 bs p;
            (target_epoch, p) = ledger_take 8 bs p;
            (license_id, p) = ledger_take 32 bs p;
            (ticket_index, p) = ledger_take 2 bs p;
            (work_units_for_epoch, p) = ledger_take 2 bs p;
            (worker_id, p) = ledger_take 32 bs p;
            (session_id, p) = ledger_take 32 bs p;
            (assignment_id, p) = ledger_take 32 bs p;
            (assignment_sequence, p) = ledger_take 8 bs p
        in Inr \<lparr>lr_ticket_key = ticket_key, lr_parent_block_hash = parent_block_hash,
                lr_target_epoch = from_be_bytes target_epoch, lr_license_id = license_id,
                lr_ticket_index = from_be_bytes ticket_index, lr_work_units_for_epoch = from_be_bytes work_units_for_epoch,
                lr_worker_id = worker_id, lr_session_id = session_id, lr_assignment_id = assignment_id,
                lr_assignment_sequence = from_be_bytes assignment_sequence, lr_status = bs ! p\<rparr>)"

section \<open>Model: ledger\<close>

record WorkerBudgetLedgerV1 =
  lg_network_id :: u32
  lg_generation :: u64
  lg_records :: "LedgerRecordV1 list"

definition ledger_empty :: "u32 \<Rightarrow> WorkerBudgetLedgerV1" where
  "ledger_empty network_id = \<lparr>lg_network_id = network_id, lg_generation = 0, lg_records = []\<rparr>"

definition ledger_unique_ticket_count :: "WorkerBudgetLedgerV1 \<Rightarrow> nat" where
  "ledger_unique_ticket_count l = card (set (map lr_ticket_key (lg_records l)))"

definition assignment_seen :: "WorkerBudgetLedgerV1 \<Rightarrow> bytes \<Rightarrow> bool" where
  "assignment_seen l ident \<longleftrightarrow> list_ex (\<lambda>r. lr_assignment_id r = ident) (lg_records l)"

definition ticket_seen :: "WorkerBudgetLedgerV1 \<Rightarrow> bytes \<Rightarrow> bool" where
  "ticket_seen l key \<longleftrightarrow> list_ex (\<lambda>r. lr_ticket_key r = key) (lg_records l)"

fun encode_records :: "(bytes \<Rightarrow> bytes) \<Rightarrow> u32 \<Rightarrow> bytes set \<Rightarrow> bytes \<Rightarrow> LedgerRecordV1 list \<Rightarrow> LedgerError + bytes" where
  "encode_records H network_id ids body [] = Inr body"
| "encode_records H network_id ids body (r # rs) =
     rbind (LedgerRecordV1_validate H network_id r) (\<lambda>_.
       if lr_assignment_id r \<in> ids then Inl LeReplay
       else encode_records H network_id (insert (lr_assignment_id r) ids) (encode_into r body) rs)"

definition ledger_encode :: "(bytes \<Rightarrow> bytes) \<Rightarrow> WorkerBudgetLedgerV1 \<Rightarrow> LedgerError + bytes" where
  "ledger_encode H l =
     (if length (lg_records l) \<ge> 2 ^ 32 then Inl (LeFormat ''too many ledger records'')
      else
        let count = of_nat (length (lg_records l)) :: u32;
            body = LEDGER_MAGIC;
            body = body @ to_be_bytes LEDGER_VERSION;
            body = body @ to_be_bytes (lg_network_id l);
            body = body @ to_be_bytes (lg_generation l);
            body = body @ to_be_bytes count
        in rbind (encode_records H (lg_network_id l) {} body (lg_records l)) (\<lambda>body.
             let checksum = H (LEDGER_CHECKSUM_DOMAIN @ body) in Inr (body @ checksum)))"

fun decode_records :: "(bytes \<Rightarrow> bytes) \<Rightarrow> u32 \<Rightarrow> bytes set \<Rightarrow> bytes \<Rightarrow> nat \<Rightarrow> nat \<Rightarrow> LedgerError + LedgerRecordV1 list" where
  "decode_records H network_id ids body p 0 = Inr []"
| "decode_records H network_id ids body p (Suc n) =
     rbind (LedgerRecordV1_decode (take RECORD_LEN (drop p body))) (\<lambda>record.
     rbind (LedgerRecordV1_validate H network_id record) (\<lambda>_.
       if lr_assignment_id record \<in> ids then Inl LeReplay
       else rbind (decode_records H network_id (insert (lr_assignment_id record) ids) body (p + RECORD_LEN) n) (\<lambda>records.
         Inr (record # records))))"

definition ledger_decode :: "(bytes \<Rightarrow> bytes) \<Rightarrow> bytes \<Rightarrow> LedgerError + WorkerBudgetLedgerV1" where
  "ledger_decode H bs =
     (if length bs < HEADER_LEN + CHECKSUM_LEN then Inl (LeFormat ''ledger file too short'')
      else
        let body_len = length bs - CHECKSUM_LEN;
            body = take body_len bs;
            checksum = drop body_len bs;
            expected = H (LEDGER_CHECKSUM_DOMAIN @ body)
        in if checksum \<noteq> expected then Inl LeChecksum
           else if take 8 body \<noteq> LEDGER_MAGIC then Inl (LeFormat ''wrong ledger magic'')
           else if (from_be_bytes (take 2 (drop 8 body)) :: u16) \<noteq> LEDGER_VERSION then Inl (LeFormat ''unsupported ledger version'')
           else
             let network_id = from_be_bytes (take 4 (drop 10 body));
                 generation = from_be_bytes (take 8 (drop 14 body));
                 count = unat (from_be_bytes (take 4 (drop 22 body)) :: u32)
             in if count * RECORD_LEN \<ge> 2 ^ 64 then Inl (LeFormat ''record length overflow'')
                else if HEADER_LEN + count * RECORD_LEN \<ge> 2 ^ 64 then Inl (LeFormat ''body length overflow'')
                else
                  let expected_body_len = HEADER_LEN + count * RECORD_LEN
                  in if length body \<noteq> expected_body_len then Inl (LeFormat ''record count/length mismatch'')
                     else rbind (decode_records H network_id {} body 26 count) (\<lambda>records.
                       Inr \<lparr>lg_network_id = network_id, lg_generation = generation, lg_records = records\<rparr>))"

section \<open>Model: files\<close>

text \<open>
  A disk is a map from paths to file contents and the outcomes of the calls to come; after the last
  of them every call succeeds. A write that fails or stops may leave any bytes; a removal or a
  rename that stops has either happened or not, and one that fails has not.
\<close>

datatype outcome = Done | Fails "bytes option" | Stops "bytes option"

record disk =
  files :: "string \<Rightarrow> bytes option"
  outcomes :: "outcome list"

datatype 'e stop = Err 'e | Crash

definition fs_call :: "(disk \<Rightarrow> disk) \<Rightarrow> (bytes option \<Rightarrow> disk \<Rightarrow> disk) \<Rightarrow> (bytes option \<Rightarrow> disk \<Rightarrow> disk) \<Rightarrow> (disk, unit stop, unit) prog" where
  "fs_call ok failed stopped d =
     (case outcomes d of
        [] \<Rightarrow> (Inr (), ok d)
      | Done # os \<Rightarrow> (Inr (), ok (d\<lparr>outcomes := os\<rparr>))
      | Fails g # os \<Rightarrow> (Inl (Err ()), failed g (d\<lparr>outcomes := os\<rparr>))
      | Stops g # os \<Rightarrow> (Inl Crash, stopped g (d\<lparr>outcomes := os\<rparr>)))"

definition set_file :: "string \<Rightarrow> bytes option \<Rightarrow> disk \<Rightarrow> disk" where
  "set_file path c d = d\<lparr>files := (files d)(path := c)\<rparr>"

definition fs_exists :: "string \<Rightarrow> disk \<Rightarrow> bool" where
  "fs_exists path d \<longleftrightarrow> files d path \<noteq> None"

definition fs_create_dir_all :: "(disk, unit stop, unit) prog" where
  "fs_create_dir_all = fs_call (\<lambda>d. d) (\<lambda>_ d. d) (\<lambda>_ d. d)"

definition fs_remove_file :: "string \<Rightarrow> (disk, unit stop, unit) prog" where
  "fs_remove_file path d =
     (if \<not> fs_exists path d then (Inl (Err ()), d)
      else fs_call (set_file path None) (\<lambda>_ d. d) (\<lambda>g d. if g = None then d else set_file path None d) d)"

definition fs_rename :: "string \<Rightarrow> string \<Rightarrow> (disk, unit stop, unit) prog" where
  "fs_rename src dst d =
     (let move = (\<lambda>d. set_file src None (set_file dst (files d src) d))
      in if \<not> fs_exists src d then (Inl (Err ()), d)
         else fs_call move (\<lambda>_ d. d) (\<lambda>g d. if g = None then d else move d) d)"

definition fs_read :: "string \<Rightarrow> (disk, unit stop, bytes) prog" where
  "fs_read path = sbind (fs_call (\<lambda>d. d) (\<lambda>_ d. d) (\<lambda>_ d. d)) (\<lambda>_ d.
     case files d path of None \<Rightarrow> (Inl (Err ()), d) | Some bs \<Rightarrow> (Inr bs, d))"

definition companion :: "string \<Rightarrow> string \<Rightarrow> string" where
  "companion path suffix = path @ ''.'' @ suffix"

definition write_synced :: "string \<Rightarrow> bytes \<Rightarrow> (disk, unit stop, unit) prog" where
  "write_synced path bs =
     fs_call (set_file path (Some bs))
       (\<lambda>g d. if g = None then d else set_file path g d) (\<lambda>g d. if g = None then d else set_file path g d)"

definition swhen :: "('s \<Rightarrow> bool) \<Rightarrow> ('s, 'e, unit) prog \<Rightarrow> ('s, 'e, unit) prog" where
  "swhen b m s = (if b s then m s else (Inr (), s))"

text \<open>The last step: rename the new file over the old name, and undo the preparation if that fails.\<close>

definition install_next :: "string \<Rightarrow> (disk, unit stop, unit) prog" where
  "install_next path d =
     (let next = companion path ''next''; prev = companion path ''prev''
      in case fs_rename next path d of
           (Inl (Err e), d) \<Rightarrow>
             if \<not> fs_exists path d \<and> fs_exists prev d then
               (case fs_rename prev path d of
                  (Inl Crash, d) \<Rightarrow> (Inl Crash, d)
                | (_, d) \<Rightarrow> (Inl (Err e), d))
             else (Inl (Err e), d)
         | (r, d) \<Rightarrow> (r, d))"

definition commit_atomic :: "string \<Rightarrow> bytes \<Rightarrow> (disk, unit stop, unit) prog" where
  "commit_atomic path bs =
     sbind fs_create_dir_all (\<lambda>_.
     let next = companion path ''next''; prev = companion path ''prev''
     in sbind (swhen (fs_exists next) (fs_remove_file next)) (\<lambda>_.
     sbind (write_synced next bs) (\<lambda>_.
     sbind (swhen (fs_exists prev) (fs_remove_file prev)) (\<lambda>_.
     sbind (swhen (fs_exists path) (fs_rename path prev)) (\<lambda>_.
     install_next path)))))"

section \<open>Model: the ledger on disk\<close>

fun io_err :: "unit stop \<Rightarrow> LedgerError stop" where
  "io_err (Err u) = Err LeIo"
| "io_err Crash = Crash"

definition ledger_load :: "(bytes \<Rightarrow> bytes) \<Rightarrow> string \<Rightarrow> u32 \<Rightarrow> (disk, LedgerError stop, WorkerBudgetLedgerV1) prog" where
  "ledger_load H path expected_network_id =
     sbind (smap_err io_err (fs_read path)) (\<lambda>bs.
     sbind (slift (map_err Err (ledger_decode H bs))) (\<lambda>v.
     sbind (reject_if (lg_network_id v \<noteq> expected_network_id) (Err LeNetworkMismatch)) (\<lambda>_.
     slift (Inr v))))"

definition load_recover :: "(bytes \<Rightarrow> bytes) \<Rightarrow> string \<Rightarrow> u32 \<Rightarrow> (disk, LedgerError stop, WorkerBudgetLedgerV1) prog" where
  "load_recover H path expected_network_id d =
     (case ledger_load H path expected_network_id d of
        (Inr v, d) \<Rightarrow> (Inr v, d)
      | (Inl Crash, d) \<Rightarrow> (Inl Crash, d)
      | (Inl (Err primary_error), d) \<Rightarrow>
          let prev = companion path ''prev''
          in if fs_exists prev d then ledger_load H prev expected_network_id d else (Inl (Err primary_error), d))"

definition open_or_create :: "(bytes \<Rightarrow> bytes) \<Rightarrow> string \<Rightarrow> u32 \<Rightarrow> (disk, LedgerError stop, WorkerBudgetLedgerV1) prog" where
  "open_or_create H path network_id d =
     (if fs_exists path d \<or> fs_exists (companion path ''prev'') d then load_recover H path network_id d
      else
        let v = ledger_empty network_id
        in sbind (slift (map_err Err (ledger_encode H v))) (\<lambda>bs.
           sbind (smap_err io_err (commit_atomic path bs)) (\<lambda>_.
           slift (Inr v))) d)"

text \<open>The operations on a ledger in memory return it with the disk; it changes only on success.\<close>

definition reserve_and_persist ::
    "(bytes \<Rightarrow> bytes) \<Rightarrow> string \<Rightarrow> LedgerRecordV1 \<Rightarrow> WorkerBudgetLedgerV1 \<times> disk \<Rightarrow>
     (LedgerError stop + bool) \<times> (WorkerBudgetLedgerV1 \<times> disk)" where
  "reserve_and_persist H path record = (\<lambda>(l, d).
     case LedgerRecordV1_validate H (lg_network_id l) record of Inl e \<Rightarrow> (Inl (Err e), (l, d)) | Inr _ \<Rightarrow>
     if assignment_seen l (lr_assignment_id record) then (Inl (Err LeReplay), (l, d))
     else
       let was_new_unique_ticket = \<not> ticket_seen l (lr_ticket_key record)
       in if lg_generation l = - 1 then (Inl (Err (LeFormat ''ledger generation overflow'')), (l, d))
          else
            let candidate = l\<lparr>lg_generation := lg_generation l + 1, lg_records := lg_records l @ [record]\<rparr>
            in case ledger_encode H candidate of Inl e \<Rightarrow> (Inl (Err e), (l, d)) | Inr bs \<Rightarrow>
               (case smap_err io_err (commit_atomic path bs) d of
                  (Inl e, d) \<Rightarrow> (Inl e, (l, d))
                | (Inr _, d) \<Rightarrow> (Inr was_new_unique_ticket, (candidate, d))))"

fun set_first_status :: "bytes \<Rightarrow> u8 \<Rightarrow> LedgerRecordV1 list \<Rightarrow> LedgerRecordV1 list option" where
  "set_first_status ident s [] = None"
| "set_first_status ident s (r # rs) =
     (if lr_assignment_id r = ident then Some (r\<lparr>lr_status := s\<rparr> # rs)
      else map_option ((#) r) (set_first_status ident s rs))"

definition update_status_and_persist ::
    "(bytes \<Rightarrow> bytes) \<Rightarrow> string \<Rightarrow> bytes \<Rightarrow> u8 \<Rightarrow> WorkerBudgetLedgerV1 \<times> disk \<Rightarrow>
     (LedgerError stop + unit) \<times> (WorkerBudgetLedgerV1 \<times> disk)" where
  "update_status_and_persist H path ident new_status = (\<lambda>(l, d).
     if \<not> known_status new_status then (Inl (Err (LeFormat ''unknown status transition'')), (l, d))
     else
       case set_first_status ident new_status (lg_records l) of None \<Rightarrow> (Inl (Err LeAssignmentNotFound), (l, d)) | Some rs \<Rightarrow>
       if lg_generation l = - 1 then (Inl (Err (LeFormat ''ledger generation overflow'')), (l, d))
       else
         let candidate = l\<lparr>lg_generation := lg_generation l + 1, lg_records := rs\<rparr>
         in case ledger_encode H candidate of Inl e \<Rightarrow> (Inl (Err e), (l, d)) | Inr bs \<Rightarrow>
            (case smap_err io_err (commit_atomic path bs) d of
               (Inl e, d) \<Rightarrow> (Inl e, (l, d))
             | (Inr _, d) \<Rightarrow> (Inr (), (candidate, d))))"

section \<open>The file format\<close>

definition record_bytes :: "LedgerRecordV1 \<Rightarrow> bytes" where
  "record_bytes r = lr_ticket_key r @ lr_parent_block_hash r @ to_be_bytes (lr_target_epoch r) @ lr_license_id r @
     to_be_bytes (lr_ticket_index r) @ to_be_bytes (lr_work_units_for_epoch r) @ lr_worker_id r @ lr_session_id r @
     lr_assignment_id r @ to_be_bytes (lr_assignment_sequence r) @ [lr_status r]"

definition wf_record :: "LedgerRecordV1 \<Rightarrow> bool" where
  "wf_record r \<longleftrightarrow> length (lr_ticket_key r) = 32 \<and> length (lr_parent_block_hash r) = 32 \<and> length (lr_license_id r) = 32 \<and>
     length (lr_worker_id r) = 32 \<and> length (lr_session_id r) = 32 \<and> length (lr_assignment_id r) = 32"

definition valid_record :: "(bytes \<Rightarrow> bytes) \<Rightarrow> u32 \<Rightarrow> LedgerRecordV1 \<Rightarrow> bool" where
  "valid_record H network r \<longleftrightarrow> lr_ticket_index r < lr_work_units_for_epoch r \<and> known_status (lr_status r) \<and>
     lr_ticket_key r = ticket_key H network (lr_parent_block_hash r) (lr_target_epoch r) (lr_license_id r) (lr_ticket_index r)"

lemma encode_into_eq: "encode_into r out = out @ record_bytes r"
  by (simp add: encode_into_def record_bytes_def)

lemma length_record_bytes: "wf_record r \<Longrightarrow> length (record_bytes r) = 213"
  by (simp add: wf_record_def record_bytes_def)

lemma validate_record_iff: "LedgerRecordV1_validate H network r = Inr u \<longleftrightarrow> valid_record H network r"
  by (auto simp: LedgerRecordV1_validate_def valid_record_def not_le Let_def)

lemma record_cut:
  assumes "length bs = 213"
  shows "take 32 bs @ take 32 (drop 32 bs) @ take 8 (drop 64 bs) @ take 32 (drop 72 bs) @ take 2 (drop 104 bs) @ take 2 (drop 106 bs) @
     take 32 (drop 108 bs) @ take 32 (drop 140 bs) @ take 32 (drop 172 bs) @ take 8 (drop 204 bs) @ [bs ! 212] = bs"
proof -
  have "[bs ! 212] = take 1 (drop 212 bs)"
    using assms Cons_nth_drop_Suc [of 212 bs] by simp
  then show ?thesis
    using assms by (simp only:) (simp add: append_assoc [symmetric] take_cut del: append_assoc)
qed

lemma record_decode_sound: "LedgerRecordV1_decode bs = Inr r \<Longrightarrow> wf_record r \<and> bs = record_bytes r"
  using record_cut [of bs]
  by (auto simp: LedgerRecordV1_decode_def RECORD_LEN_def ledger_take_def wf_record_def record_bytes_def to_from_be_bytes
      split: if_splits)

lemma record_decode_complete: "wf_record r \<Longrightarrow> LedgerRecordV1_decode (record_bytes r) = Inr r"
  by (simp add: LedgerRecordV1_decode_def RECORD_LEN_def ledger_take_def length_record_bytes)
     (simp add: wf_record_def record_bytes_def from_to_be_bytes nth_append)

interpretation ledger_record: message_codec record_bytes LedgerRecordV1_decode wf_record
  using record_decode_sound record_decode_complete by unfold_locales auto

definition fresh_records :: "(bytes \<Rightarrow> bytes) \<Rightarrow> u32 \<Rightarrow> bytes set \<Rightarrow> LedgerRecordV1 list \<Rightarrow> bool" where
  "fresh_records H network ids rs \<longleftrightarrow> list_all (valid_record H network) rs \<and> distinct (map lr_assignment_id rs) \<and>
     ids \<inter> lr_assignment_id ` set rs = {}"

lemma fresh_records_simps [simp]:
  "fresh_records H network ids []"
  "fresh_records H network ids (r # rs) \<longleftrightarrow>
     valid_record H network r \<and> lr_assignment_id r \<notin> ids \<and> fresh_records H network (insert (lr_assignment_id r) ids) rs"
  by (auto simp: fresh_records_def)

lemma encode_records_iff:
  "encode_records H network ids body rs = Inr out \<longleftrightarrow> fresh_records H network ids rs \<and> out = body @ concat (map record_bytes rs)"
  by (induction rs arbitrary: ids body) (auto simp: validate_record_iff encode_into_eq)

lemma decode_records_iff:
  "p + 213 * n \<le> length body \<Longrightarrow>
   decode_records H network ids body p n = Inr rs \<longleftrightarrow>
     length rs = n \<and> list_all wf_record rs \<and> fresh_records H network ids rs \<and> take (213 * n) (drop p body) = concat (map record_bytes rs)"
proof (induction n arbitrary: ids p rs)
  case 0
  then show ?case by auto
next
  case (Suc n)
  let ?b = "take 213 (drop p body)" and ?rest = "take (213 * n) (drop (p + 213) body)"
  have cut: "take (213 * Suc n) (drop p body) = ?b @ ?rest"
    by (simp add: take_add add.commute)
  have len: "length ?b = 213"
    using Suc.prems by simp
  have eq: "?b @ x = record_bytes r @ y \<longleftrightarrow> ?b = record_bytes r \<and> x = y" if "wf_record r" for r x y
    using len length_record_bytes [OF that] by simp
  have ih: "decode_records H network ids' body (p + 213) n = Inr rs' \<longleftrightarrow>
      length rs' = n \<and> list_all wf_record rs' \<and> fresh_records H network ids' rs' \<and> ?rest = concat (map record_bytes rs')" for ids' rs'
    using Suc.IH [of "p + 213"] Suc.prems by simp
  show ?case
    unfolding cut by (cases rs) (auto simp: RECORD_LEN_def ledger_record.msg_dec_iff validate_record_iff ih eq)
qed

definition wf_ledger :: "(bytes \<Rightarrow> bytes) \<Rightarrow> WorkerBudgetLedgerV1 \<Rightarrow> bool" where
  "wf_ledger H l \<longleftrightarrow> length (lg_records l) < 2 ^ 32 \<and> list_all wf_record (lg_records l) \<and> fresh_records H (lg_network_id l) {} (lg_records l)"

definition ledger_header :: "WorkerBudgetLedgerV1 \<Rightarrow> bytes" where
  "ledger_header l = LEDGER_MAGIC @ to_be_bytes LEDGER_VERSION @ to_be_bytes (lg_network_id l) @ to_be_bytes (lg_generation l) @
     to_be_bytes (of_nat (length (lg_records l)) :: u32)"

definition ledger_body :: "WorkerBudgetLedgerV1 \<Rightarrow> bytes" where
  "ledger_body l = ledger_header l @ concat (map record_bytes (lg_records l))"

definition ledger_bytes :: "(bytes \<Rightarrow> bytes) \<Rightarrow> WorkerBudgetLedgerV1 \<Rightarrow> bytes" where
  "ledger_bytes H l = ledger_body l @ H (LEDGER_CHECKSUM_DOMAIN @ ledger_body l)"

lemma ledger_encode_iff:
  "ledger_encode H l = Inr bs \<longleftrightarrow>
     length (lg_records l) < 2 ^ 32 \<and> fresh_records H (lg_network_id l) {} (lg_records l) \<and> bs = ledger_bytes H l"
  by (auto simp: ledger_encode_def encode_records_iff ledger_bytes_def ledger_body_def ledger_header_def Let_def not_le)

lemma length_ledger_header: "length (ledger_header l) = 26"
  by (simp add: ledger_header_def LEDGER_MAGIC_def)

lemma length_record_list: "list_all wf_record rs \<Longrightarrow> length (concat (map record_bytes rs)) = 213 * length rs"
  by (induction rs) (simp_all add: length_record_bytes)

lemma length_ledger_body: "list_all wf_record (lg_records l) \<Longrightarrow> length (ledger_body l) = 26 + 213 * length (lg_records l)"
  by (simp add: ledger_body_def length_ledger_header length_record_list)

lemma header_take:
  "take 8 (ledger_body l) = LEDGER_MAGIC" "from_be_bytes (take 2 (drop 8 (ledger_body l))) = LEDGER_VERSION"
  "from_be_bytes (take 4 (drop 10 (ledger_body l))) = lg_network_id l"
  "from_be_bytes (take 8 (drop 14 (ledger_body l))) = lg_generation l"
  "from_be_bytes (take 4 (drop 22 (ledger_body l))) = (of_nat (length (lg_records l)) :: u32)"
  "drop 26 (ledger_body l) = concat (map record_bytes (lg_records l))"
  by (simp_all add: ledger_body_def ledger_header_def LEDGER_MAGIC_def from_to_be_bytes)

lemma ledger_decode_complete:
  assumes "\<forall>x. length (H x) = 32" and "wf_ledger H l"
  shows "ledger_decode H (ledger_bytes H l) = Inr l"
proof -
  let ?n = "length (lg_records l)"
  have wf: "?n < 2 ^ 32" "list_all wf_record (lg_records l)" "fresh_records H (lg_network_id l) {} (lg_records l)"
    using assms(2) by (simp_all add: wf_ledger_def)
  have n: "unat (of_nat ?n :: u32) = ?n"
    using wf(1) by (simp add: unat_of_nat take_bit_nat_eq_self_iff)
  have len: "length (ledger_body l) = 26 + 213 * ?n"
    by (rule length_ledger_body [OF wf(2)])
  have recs: "decode_records H (lg_network_id l) {} (ledger_body l) 26 ?n = Inr (lg_records l)"
    using decode_records_iff [of 26 ?n "ledger_body l" H "lg_network_id l" "{}" "lg_records l"] wf len header_take(6) [of l]
    by (simp add: length_record_list)
  have t: "length (ledger_bytes H l) = 26 + 213 * ?n + 32" "take (26 + 213 * ?n) (ledger_bytes H l) = ledger_body l"
    "drop (26 + 213 * ?n) (ledger_bytes H l) = H (LEDGER_CHECKSUM_DOMAIN @ ledger_body l)"
    using assms(1) len by (simp_all add: ledger_bytes_def)
  show ?thesis
    using wf(1) unfolding ledger_decode_def HEADER_LEN_def CHECKSUM_LEN_def RECORD_LEN_def Let_def
    by (simp add: t header_take(1-5) n len recs)
qed

lemma ledger_decode_Inr:
  assumes "ledger_decode H bs = Inr l"
  obtains body count where "bs = body @ H (LEDGER_CHECKSUM_DOMAIN @ body)" and "take 8 body = LEDGER_MAGIC"
    and "from_be_bytes (take 2 (drop 8 body)) = LEDGER_VERSION" and "from_be_bytes (take 4 (drop 10 body)) = lg_network_id l"
    and "from_be_bytes (take 8 (drop 14 body)) = lg_generation l" and "unat (from_be_bytes (take 4 (drop 22 body)) :: u32) = count"
    and "length body = 26 + count * 213" and "decode_records H (lg_network_id l) {} body 26 count = Inr (lg_records l)"
proof -
  define body where "body = take (length bs - 32) bs"
  define count where "count = unat (from_be_bytes (take 4 (drop 22 body)) :: u32)"
  have cut: "bs = body @ drop (length bs - 32) bs"
    by (simp add: body_def)
  obtain records where d: "drop (length bs - 32) bs = H (LEDGER_CHECKSUM_DOMAIN @ body)" "take 8 body = LEDGER_MAGIC"
    "from_be_bytes (take 2 (drop 8 body)) = LEDGER_VERSION" "length body = 8 + 2 + 4 + 8 + 4 + count * (32 + 32 + 8 + 32 + 2 + 2 + 32 + 32 + 32 + 8 + 1)"
    and r: "decode_records H (from_be_bytes (take 4 (drop 10 body))) {} body 26 count = Inr records"
    and l: "\<lparr>lg_network_id = from_be_bytes (take 4 (drop 10 body)), lg_generation = from_be_bytes (take 8 (drop 14 body)),
              lg_records = records\<rparr> = l"
    using assms
    unfolding ledger_decode_def HEADER_LEN_def CHECKSUM_LEN_def RECORD_LEN_def Let_def body_def [symmetric] count_def [symmetric]
      guard_eq_Inr_iff rbind_eq_Inr_iff sum.inject not_not by blast
  show ?thesis
  proof (rule that [OF _ d(2,3) _ _ count_def [symmetric]])
    show "bs = body @ H (LEDGER_CHECKSUM_DOMAIN @ body)"
      using cut unfolding d(1) .
  qed (use d r l in auto)
qed

lemma ledger_header_cut:
  assumes "26 \<le> length b"
  shows "take 8 b @ take 2 (drop 8 b) @ take 4 (drop 10 b) @ take 8 (drop 14 b) @ take 4 (drop 22 b) @ drop 26 b = b"
proof -
  have "take 8 b @ take 2 (drop 8 b) @ take 4 (drop 10 b) @ take 8 (drop 14 b) @ take 4 (drop 22 b) = take 26 b"
    by (simp add: append_assoc [symmetric] take_cut del: append_assoc)
  then show ?thesis
    by (metis append_assoc append_take_drop_id)
qed

lemma ledger_decode_sound:
  assumes "ledger_decode H bs = Inr l"
  shows "wf_ledger H l \<and> bs = ledger_bytes H l"
proof -
  from assms obtain body count where bs: "bs = body @ H (LEDGER_CHECKSUM_DOMAIN @ body)" and m: "take 8 body = LEDGER_MAGIC"
    and v: "from_be_bytes (take 2 (drop 8 body)) = LEDGER_VERSION" and n: "from_be_bytes (take 4 (drop 10 body)) = lg_network_id l"
    and g: "from_be_bytes (take 8 (drop 14 body)) = lg_generation l" and c: "unat (from_be_bytes (take 4 (drop 22 body)) :: u32) = count"
    and len: "length body = 26 + count * 213" and recs: "decode_records H (lg_network_id l) {} body 26 count = Inr (lg_records l)"
    by (rule ledger_decode_Inr)
  have r: "length (lg_records l) = count" "list_all wf_record (lg_records l)" "fresh_records H (lg_network_id l) {} (lg_records l)"
    "drop 26 body = concat (map record_bytes (lg_records l))"
    using recs decode_records_iff [of 26 count body H "lg_network_id l" "{}" "lg_records l"] len by simp_all
  have "count < 2 ^ 32"
    using unat_less_2p [of "from_be_bytes (take 4 (drop 22 body)) :: u32"] by (simp add: c)
  moreover have "(of_nat count :: u32) = from_be_bytes (take 4 (drop 22 body))"
    by (simp flip: c)
  then have "ledger_header l = take 8 body @ take 2 (drop 8 body) @ take 4 (drop 10 body) @ take 8 (drop 14 body) @ take 4 (drop 22 body)"
    using len by (simp add: ledger_header_def r(1) m to_from_be_bytes flip: v n g)
  then have "ledger_body l = body"
    using ledger_header_cut [of body] len by (simp add: ledger_body_def flip: r(4))
  ultimately show ?thesis
    using bs r by (simp add: wf_ledger_def ledger_bytes_def)
qed

lemma ledger_decode_iff:
  "\<forall>x. length (H x) = 32 \<Longrightarrow> ledger_decode H bs = Inr l \<longleftrightarrow> wf_ledger H l \<and> bs = ledger_bytes H l"
  using ledger_decode_sound ledger_decode_complete by blast

section \<open>Replacement of the file\<close>

lemma companion_neq [simp]:
  "companion path ''next'' \<noteq> path" "companion path ''prev'' \<noteq> path" "path \<noteq> companion path ''next''" "path \<noteq> companion path ''prev''"
  "companion path ''next'' \<noteq> companion path ''prev''" "companion path ''prev'' \<noteq> companion path ''next''"
  by (simp_all add: companion_def)

lemma files_set_file [simp]: "files (set_file p c d) = (files d)(p := c)" "outcomes (set_file p c d) = outcomes d"
  by (simp_all add: set_file_def)

lemma post_fs_call [post_simps]:
  "post (fs_call ok failed stopped) d Q \<longleftrightarrow>
     (case outcomes d of [] \<Rightarrow> Q (Inr ()) (ok d) | Done # os \<Rightarrow> Q (Inr ()) (ok (d\<lparr>outcomes := os\<rparr>))
      | Fails g # os \<Rightarrow> Q (Inl (Err ())) (failed g (d\<lparr>outcomes := os\<rparr>))
      | Stops g # os \<Rightarrow> Q (Inl Crash) (stopped g (d\<lparr>outcomes := os\<rparr>)))"
  by (simp add: post_def fs_call_def split: list.splits outcome.splits)

text \<open>A call that only concerns other files leaves a file as it is.\<close>

definition recovers :: "string \<Rightarrow> bytes \<Rightarrow> disk \<Rightarrow> bool" where
  "recovers path bs d \<longleftrightarrow>
     files d path = Some bs \<or> files d path = None \<and> files d (companion path ''prev'') = Some bs"

definition commit_outcome :: "string \<Rightarrow> bytes \<Rightarrow> bytes \<Rightarrow> unit stop + unit \<Rightarrow> disk \<Rightarrow> bool" where
  "commit_outcome path old new x d \<longleftrightarrow>
     (case x of Inr _ \<Rightarrow> files d path = Some new
      | Inl (Err _) \<Rightarrow> recovers path old d
      | Inl Crash \<Rightarrow> recovers path old d \<or> files d path = Some new)"

lemma post_bindI:
  assumes "post m s P" and "\<And>e t. P (Inl e) t \<Longrightarrow> Q (Inl e) t" and "\<And>y t. P (Inr y) t \<Longrightarrow> post (f y) t Q"
  shows "post (sbind m f) s Q"
  using assms by (auto simp: post_simps elim!: post_mono split: sum.splits)

lemma post_swhen: "(b s \<Longrightarrow> post m s Q) \<Longrightarrow> (\<not> b s \<Longrightarrow> Q (Inr ()) s) \<Longrightarrow> post (swhen b m) s Q"
  by (simp add: post_def swhen_def)

lemma post_create_dir: "post fs_create_dir_all d (\<lambda>x e. files e = files d)"
  by (simp add: fs_create_dir_all_def post_simps split: list.splits outcome.splits)

lemma post_write: "post (write_synced p bs) d (\<lambda>x e. (\<forall>q. q \<noteq> p \<longrightarrow> files e q = files d q) \<and> (x = Inr () \<longrightarrow> files e p = Some bs))"
  by (simp add: write_synced_def post_simps split: list.splits outcome.splits)

lemma post_remove_if:
  "post (swhen (fs_exists p) (fs_remove_file p)) d (\<lambda>x e. (\<forall>q. q \<noteq> p \<longrightarrow> files e q = files d q) \<and> (x = Inr () \<longrightarrow> files e p = None))"
  by (rule post_swhen)
     (auto simp: fs_exists_def fs_remove_file_def post_def fs_call_def split: list.splits outcome.splits)

definition renamed :: "string \<Rightarrow> string \<Rightarrow> disk \<Rightarrow> disk \<Rightarrow> bool" where
  "renamed src dst d e \<longleftrightarrow> files e = (files d)(dst := files d src, src := None)"

lemma post_rename:
  "fs_exists src d \<Longrightarrow> post (fs_rename src dst) d (\<lambda>x e.
     case x of Inr _ \<Rightarrow> renamed src dst d e | Inl (Err _) \<Rightarrow> files e = files d | Inl Crash \<Rightarrow> files e = files d \<or> renamed src dst d e)"
  by (auto simp: fs_rename_def post_def fs_call_def renamed_def split: list.splits outcome.splits)

lemma post_install_next:
  assumes "files d path = None" and "files d (companion path ''prev'') = Some old" and "files d (companion path ''next'') = Some new"
  shows "post (install_next path) d (commit_outcome path old new)"
proof -
  obtain x e where r: "fs_rename (companion path ''next'') path d = (x, e)"
    by fastforce
  have ne: "fs_exists (companion path ''next'') d"
    using assms by (simp add: fs_exists_def)
  note x = postD [OF post_rename [OF ne] r]
  show ?thesis
  proof (cases "x = Inl (Err ())")
    case True
    have f: "files e = files d"
      using x True by simp
    then have pe: "fs_exists (companion path ''prev'') e" "\<not> fs_exists path e"
      using assms by (simp_all add: fs_exists_def)
    obtain y g where r': "fs_rename (companion path ''prev'') path e = (y, g)"
      by fastforce
    note y = postD [OF post_rename [OF pe(1)] r']
    show ?thesis
      using y assms f by (auto simp: post_def install_next_def r r' True pe commit_outcome_def recovers_def renamed_def
          split: sum.splits stop.splits)
  next
    case False
    then show ?thesis
      using x assms by (auto simp: post_def install_next_def r commit_outcome_def recovers_def renamed_def split: sum.splits stop.splits)
  qed
qed

lemma commit_kept: "files t path = Some old \<Longrightarrow> commit_outcome path old new (Inl e) t"
  by (simp add: commit_outcome_def recovers_def split: stop.splits)

lemma post_rename_current:
  assumes "files d path = Some old" and "files d (companion path ''next'') = Some new"
  shows "post (sbind (swhen (fs_exists path) (fs_rename path (companion path ''prev''))) (\<lambda>_. install_next path)) d
    (commit_outcome path old new)"
proof (rule post_bindI)
  have "fs_exists path d"
    using assms by (simp add: fs_exists_def)
  then show "post (swhen (fs_exists path) (fs_rename path (companion path ''prev''))) d
      (\<lambda>x e. case x of Inr _ \<Rightarrow> renamed path (companion path ''prev'') d e | Inl (Err _) \<Rightarrow> files e = files d
         | Inl Crash \<Rightarrow> files e = files d \<or> renamed path (companion path ''prev'') d e)"
    by (intro post_swhen post_rename) simp_all
qed (use assms in \<open>auto simp: commit_outcome_def recovers_def renamed_def intro!: post_install_next split: stop.splits\<close>)

lemma post_remove_previous:
  assumes "files d path = Some old" and "files d (companion path ''next'') = Some new"
  shows "post (sbind (swhen (fs_exists (companion path ''prev'')) (fs_remove_file (companion path ''prev''))) (\<lambda>_.
      sbind (swhen (fs_exists path) (fs_rename path (companion path ''prev''))) (\<lambda>_. install_next path))) d (commit_outcome path old new)"
  by (rule post_bindI [OF post_remove_if]) (use assms in \<open>auto intro!: commit_kept post_rename_current\<close>)

lemma post_write_next:
  assumes "files d path = Some old"
  shows "post (sbind (write_synced (companion path ''next'') new) (\<lambda>_.
      sbind (swhen (fs_exists (companion path ''prev'')) (fs_remove_file (companion path ''prev''))) (\<lambda>_.
      sbind (swhen (fs_exists path) (fs_rename path (companion path ''prev''))) (\<lambda>_. install_next path)))) d (commit_outcome path old new)"
  by (rule post_bindI [OF post_write]) (use assms in \<open>auto intro!: commit_kept post_remove_previous\<close>)

lemma post_remove_next:
  assumes "files d path = Some old"
  shows "post (sbind (swhen (fs_exists (companion path ''next'')) (fs_remove_file (companion path ''next''))) (\<lambda>_.
      sbind (write_synced (companion path ''next'') new) (\<lambda>_.
      sbind (swhen (fs_exists (companion path ''prev'')) (fs_remove_file (companion path ''prev''))) (\<lambda>_.
      sbind (swhen (fs_exists path) (fs_rename path (companion path ''prev''))) (\<lambda>_. install_next path))))) d (commit_outcome path old new)"
  by (rule post_bindI [OF post_remove_if]) (use assms in \<open>auto intro!: commit_kept post_write_next\<close>)

lemma commit_atomic_outcome:
  assumes "files d path = Some old"
  shows "post (commit_atomic path new) d (commit_outcome path old new)"
  unfolding commit_atomic_def Let_def
  by (rule post_bindI [OF post_create_dir]) (use assms in \<open>auto intro!: commit_kept post_remove_next\<close>)

section \<open>Recovery\<close>

definition restart :: "disk \<Rightarrow> disk" where
  "restart d = d\<lparr>outcomes := []\<rparr>"

lemma fs_read_quiet: "outcomes d = [] \<Longrightarrow> fs_read p d = (case files d p of None \<Rightarrow> Inl (Err ()) | Some bs \<Rightarrow> Inr bs, d)"
  by (simp add: fs_read_def sbind_def fs_call_def split: option.splits)

lemma ledger_load_quiet:
  assumes "\<forall>x. length (H x) = 32" and "wf_ledger H l" and "outcomes d = []"
  shows "files d p = Some (ledger_bytes H l) \<Longrightarrow> ledger_load H p (lg_network_id l) d = (Inr l, d)"
    and "files d p = None \<Longrightarrow> ledger_load H p n d = (Inl (Err LeIo), d)"
  using ledger_decode_complete [OF assms(1,2)]
  by (simp_all add: ledger_load_def smap_err_def fs_read_quiet assms(3) reject_if_def)

lemma recovers_load:
  assumes "\<forall>x. length (H x) = 32" and "wf_ledger H l" and "recovers path (ledger_bytes H l) d"
  shows "load_recover H path (lg_network_id l) (restart d) = (Inr l, restart d)"
proof -
  have o: "outcomes (restart d) = []" "files (restart d) = files d"
    by (simp_all add: restart_def)
  show ?thesis
    using assms(3) ledger_load_quiet [OF assms(1,2) o(1)] unfolding recovers_def
    by (auto simp: load_recover_def o(2) fs_exists_def Let_def)
qed

section \<open>The abstract ledger\<close>

text \<open>What the operations promise, without files: a step appends a valid record with a new assignment id or
  changes the status of one record, and counts a generation.\<close>

inductive ledger_step :: "(bytes \<Rightarrow> bytes) \<Rightarrow> WorkerBudgetLedgerV1 \<Rightarrow> WorkerBudgetLedgerV1 \<Rightarrow> bool" for H where
  reserve: "valid_record H (lg_network_id l) r \<Longrightarrow> wf_record r \<Longrightarrow> lr_assignment_id r \<notin> lr_assignment_id ` set (lg_records l) \<Longrightarrow>
    lg_generation l \<noteq> - 1 \<Longrightarrow> Suc (length (lg_records l)) < 2 ^ 32 \<Longrightarrow>
    ledger_step H l (l\<lparr>lg_generation := lg_generation l + 1, lg_records := lg_records l @ [r]\<rparr>)"
| status: "known_status s \<Longrightarrow> set_first_status i s (lg_records l) = Some rs \<Longrightarrow> lg_generation l \<noteq> - 1 \<Longrightarrow>
    ledger_step H l (l\<lparr>lg_generation := lg_generation l + 1, lg_records := rs\<rparr>)"

lemma set_first_status_split:
  "set_first_status i s rs = Some qs \<Longrightarrow>
     \<exists>xs r ys. rs = xs @ r # ys \<and> qs = xs @ r\<lparr>lr_status := s\<rparr> # ys \<and> lr_assignment_id r = i"
proof (induction rs arbitrary: qs)
  case (Cons r rs)
  show ?case
  proof (cases "lr_assignment_id r = i")
    case True
    then show ?thesis using Cons.prems by (intro exI [of _ "[]"]) auto
  next
    case False
    with Cons obtain ps where "set_first_status i s rs = Some ps" "qs = r # ps"
      by auto
    with Cons.IH obtain xs x ys where "rs = xs @ x # ys" "qs = (r # xs) @ x\<lparr>lr_status := s\<rparr> # ys" "lr_assignment_id x = i"
      by fastforce
    then show ?thesis
      by (intro exI [of _ "r # xs"]) auto
  qed
qed simp

lemma ledger_step_wf: "ledger_step H l m \<Longrightarrow> wf_ledger H l \<Longrightarrow> wf_ledger H m"
proof (induction rule: ledger_step.induct)
  case (reserve l r)
  then show ?case
    by (auto simp: wf_ledger_def fresh_records_def)
next
  case (status s i l rs)
  from set_first_status_split [OF status(2)] obtain xs r ys where
    "lg_records l = xs @ r # ys" "rs = xs @ r\<lparr>lr_status := s\<rparr> # ys"
    by blast
  with status show ?case
    by (auto simp: wf_ledger_def fresh_records_def wf_record_def valid_record_def)
qed

interpretation ledger: step_invariant "ledger_step H" "wf_ledger H"
  using ledger_step_wf by unfold_locales

lemma ledger_step_keeps_assignments:
  "ledger_step H l m \<Longrightarrow> lr_assignment_id ` set (lg_records l) \<subseteq> lr_assignment_id ` set (lg_records m)"
  by (induction rule: ledger_step.induct) (auto dest!: set_first_status_split)

section \<open>Crashes inside a commit\<close>

text \<open>The record can be reserved: the conditions of \<open>reserve_and_persist\<close> before it commits.\<close>

definition reservable :: "(bytes \<Rightarrow> bytes) \<Rightarrow> WorkerBudgetLedgerV1 \<Rightarrow> LedgerRecordV1 \<Rightarrow> bool" where
  "reservable H l r \<longleftrightarrow> valid_record H (lg_network_id l) r \<and> lr_assignment_id r \<notin> lr_assignment_id ` set (lg_records l) \<and>
     lg_generation l \<noteq> - 1 \<and> Suc (length (lg_records l)) < 2 ^ 32"

definition reserved :: "WorkerBudgetLedgerV1 \<Rightarrow> LedgerRecordV1 \<Rightarrow> WorkerBudgetLedgerV1" where
  "reserved l r = l\<lparr>lg_generation := lg_generation l + 1, lg_records := lg_records l @ [r]\<rparr>"

lemma reservable_commits:
  assumes "wf_ledger H l" and "reservable H l r" and "commit_atomic path (ledger_bytes H (reserved l r)) d = (Inl Crash, e)"
  shows "reserve_and_persist H path r (l, d) = (Inl Crash, (l, e))"
proof -
  have "ledger_encode H (reserved l r) = Inr (ledger_bytes H (reserved l r))"
    using assms(1,2) by (auto simp: ledger_encode_iff reserved_def reservable_def wf_ledger_def fresh_records_def)
  moreover have "LedgerRecordV1_validate H (lg_network_id l) r = Inr ()" "\<not> assignment_seen l (lr_assignment_id r)"
    using assms(2) by (auto simp: reservable_def validate_record_iff assignment_seen_def list_ex_iff image_iff)
  ultimately show ?thesis
    using assms(2,3) unfolding reserved_def
    by (simp add: reserve_and_persist_def reservable_def smap_err_def Let_def)
qed

text \<open>A crash between the two renames, and a crash before the last rename of the commit that follows.\<close>

lemmas commit_run = commit_atomic_def Let_def sbind_def fs_create_dir_all_def fs_call_def swhen_def fs_exists_def
  write_synced_def fs_remove_file_def install_next_def fs_rename_def set_file_def

lemma crash_between_renames:
  assumes "files d path = Some old"
  shows "\<exists>os e. commit_atomic path new (d\<lparr>outcomes := os\<rparr>) = (Inl Crash, e) \<and> files e path = None \<and>
     files e (companion path ''prev'') = Some old \<and> files e (companion path ''next'') = Some new"
proof -
  let ?os = "[Done] @ (if files d (companion path ''next'') = None then [] else [Done]) @ [Done] @
     (if files d (companion path ''prev'') = None then [] else [Done]) @ [Done, Stops None]"
  have "\<exists>e. commit_atomic path new (d\<lparr>outcomes := ?os\<rparr>) = (Inl Crash, e) \<and> files e path = None \<and>
     files e (companion path ''prev'') = Some old \<and> files e (companion path ''next'') = Some new"
    using assms by (cases "files d (companion path ''next'')"; cases "files d (companion path ''prev'')")
      (simp_all add: commit_run companion_neq)
  then show ?thesis by blast
qed

lemma crash_without_current:
  assumes "files d path = None" and "files d (companion path ''prev'') = Some old" and "files d (companion path ''next'') = Some x"
  shows "\<exists>os e. commit_atomic path new (d\<lparr>outcomes := os\<rparr>) = (Inl Crash, e) \<and> files e path = None \<and>
     files e (companion path ''prev'') = None \<and> files e (companion path ''next'') = Some new"
proof -
  have "\<exists>e. commit_atomic path new (d\<lparr>outcomes := [Done, Done, Done, Done, Stops None]\<rparr>) = (Inl Crash, e) \<and>
     files e path = None \<and> files e (companion path ''prev'') = None \<and> files e (companion path ''next'') = Some new"
    using assms by (simp add: commit_run companion_neq)
  then show ?thesis by blast
qed

lemma open_without_files:
  assumes "files e path = None" and "files e (companion path ''prev'') = None"
  shows "fst (open_or_create H path n (restart e)) = Inr (ledger_empty n)"
proof -
  have "ledger_encode H (ledger_empty n) = Inr (ledger_bytes H (ledger_empty n))"
    by (simp add: ledger_encode_iff ledger_empty_def)
  then show ?thesis
    using assms by (simp add: open_or_create_def restart_def commit_run companion_neq smap_err_def slift_def split: option.splits)
qed

section \<open>The operations refine the abstract ledger\<close>

lemma persist_outcome:
  assumes H: "\<forall>x. length (H x) = 32" and wf: "wf_ledger H l" "wf_ledger H m" "lg_network_id m = lg_network_id l"
    and d: "files d path = Some (ledger_bytes H l)"
    and run: "smap_err io_err (commit_atomic path (ledger_bytes H m)) d = (x, e)"
  shows "case x of Inr _ \<Rightarrow> files e path = Some (ledger_bytes H m) \<and> fst (load_recover H path (lg_network_id l) (restart e)) = Inr m
    | Inl (Err _) \<Rightarrow> fst (load_recover H path (lg_network_id l) (restart e)) = Inr l
    | Inl Crash \<Rightarrow> fst (load_recover H path (lg_network_id l) (restart e)) \<in> {Inr l, Inr m}"
proof -
  obtain y where y: "commit_atomic path (ledger_bytes H m) d = (y, e)" and x: "x = map_err io_err y"
    using run by (auto simp: smap_err_def split: prod.splits)
  have o: "commit_outcome path (ledger_bytes H l) (ledger_bytes H m) y e"
    by (rule postD [OF commit_atomic_outcome [OF d] y])
  have new: "fst (load_recover H path (lg_network_id l) (restart e)) = Inr m" if "files e path = Some (ledger_bytes H m)"
    using recovers_load [OF H wf(2), of path e] that wf(3) by (simp add: recovers_def)
  have old: "fst (load_recover H path (lg_network_id l) (restart e)) = Inr l" if "recovers path (ledger_bytes H l) e"
    using recovers_load [OF H wf(1) that] by simp
  show ?thesis
  proof (cases y)
    case (Inl z)
    then show ?thesis
      using o new old by (cases z) (auto simp: x commit_outcome_def)
  next
    case (Inr z)
    then show ?thesis
      using o new by (simp add: x commit_outcome_def)
  qed
qed

definition recovered :: "(bytes \<Rightarrow> bytes) \<Rightarrow> string \<Rightarrow> u32 \<Rightarrow> disk \<Rightarrow> LedgerError stop + WorkerBudgetLedgerV1" where
  "recovered H path network d = fst (load_recover H path network (restart d))"

definition ledger_refines ::
    "(bytes \<Rightarrow> bytes) \<Rightarrow> string \<Rightarrow> WorkerBudgetLedgerV1 \<Rightarrow> LedgerError stop + 'a \<Rightarrow> WorkerBudgetLedgerV1 \<Rightarrow> disk \<Rightarrow> bool" where
  "ledger_refines H path l x m e \<longleftrightarrow>
     (case x of
        Inr _ \<Rightarrow> ledger_step H l m \<and> files e path = Some (ledger_bytes H m) \<and> recovered H path (lg_network_id l) e = Inr m
      | Inl (Err _) \<Rightarrow> m = l \<and> recovered H path (lg_network_id l) e = Inr l
      | Inl Crash \<Rightarrow> m = l \<and> (\<exists>k. (k = l \<or> ledger_step H l k) \<and> recovered H path (lg_network_id l) e = Inr k))"

lemma refines_unchanged:
  assumes "\<forall>x. length (H x) = 32" and "wf_ledger H l" and "files d path = Some (ledger_bytes H l)"
  shows "ledger_refines H path l (Inl (Err e)) l d"
  using recovers_load [OF assms(1,2), of path d] assms(3) by (simp add: ledger_refines_def recovered_def recovers_def)

lemma refines_commit:
  assumes H: "\<forall>x. length (H x) = 32" and wf: "wf_ledger H l" and step: "ledger_step H l m" "lg_network_id m = lg_network_id l"
    and d: "files d path = Some (ledger_bytes H l)"
    and run: "smap_err io_err (commit_atomic path (ledger_bytes H m)) d = (x, e)"
  shows "ledger_refines H path l (case x of Inl z \<Rightarrow> Inl z | Inr _ \<Rightarrow> Inr u) (case x of Inl _ \<Rightarrow> l | Inr _ \<Rightarrow> m) e"
  using persist_outcome [OF H wf ledger_step_wf [OF step(1) wf] step(2) d run] step(1)
  by (auto simp: ledger_refines_def recovered_def split: sum.splits stop.splits)

lemma reserve_refines:
  assumes H: "\<forall>x. length (H x) = 32" and wf: "wf_ledger H l" "wf_record r" and d: "files d path = Some (ledger_bytes H l)"
    and run: "reserve_and_persist H path r (l, d) = (x, (m, e))"
  shows "ledger_refines H path l x m e"
proof -
  let ?m = "l\<lparr>lg_generation := lg_generation l + 1, lg_records := lg_records l @ [r]\<rparr>"
  show ?thesis
  proof (cases "valid_record H (lg_network_id l) r \<and> \<not> assignment_seen l (lr_assignment_id r) \<and> lg_generation l \<noteq> - 1 \<and>
      Suc (length (lg_records l)) < 2 ^ 32")
    case True
    have seen: "lr_assignment_id r \<notin> lr_assignment_id ` set (lg_records l)"
      using True by (auto simp: assignment_seen_def list_ex_iff image_iff)
    then have step: "ledger_step H l ?m"
      using True wf(2) by (intro ledger_step.reserve) auto
    then have "wf_ledger H ?m"
      by (rule ledger_step_wf [OF _ wf(1)])
    then have enc: "ledger_encode H ?m = Inr (ledger_bytes H ?m)"
      by (simp add: ledger_encode_iff wf_ledger_def)
    obtain y g where y: "smap_err io_err (commit_atomic path (ledger_bytes H ?m)) d = (y, g)"
      by fastforce
    have v: "LedgerRecordV1_validate H (lg_network_id l) r = Inr ()"
      using True by (simp add: validate_record_iff)
    show ?thesis
      using refines_commit [OF H wf(1) step _ d y] run True
      by (auto simp: reserve_and_persist_def v enc y Let_def split: sum.splits)
  next
    case False
    then have "\<exists>z. x = Inl (Err z) \<and> m = l \<and> e = d"
      using run by (auto simp: reserve_and_persist_def Let_def validate_record_iff ledger_encode_def split: sum.splits if_splits)
    then show ?thesis
      using refines_unchanged [OF H wf(1) d] by auto
  qed
qed

lemma update_status_refines:
  assumes H: "\<forall>x. length (H x) = 32" and wf: "wf_ledger H l" and d: "files d path = Some (ledger_bytes H l)"
    and run: "update_status_and_persist H path i s (l, d) = (x, (m, e))"
  shows "ledger_refines H path l x m e"
proof (cases "known_status s \<and> lg_generation l \<noteq> - 1 \<and> set_first_status i s (lg_records l) \<noteq> None")
  case True
  then obtain rs where rs: "set_first_status i s (lg_records l) = Some rs"
    by auto
  let ?m = "l\<lparr>lg_generation := lg_generation l + 1, lg_records := rs\<rparr>"
  have step: "ledger_step H l ?m"
    using True rs by (intro ledger_step.status) auto
  then have "wf_ledger H ?m"
    by (rule ledger_step_wf [OF _ wf])
  then have enc: "ledger_encode H ?m = Inr (ledger_bytes H ?m)"
    by (simp add: ledger_encode_iff wf_ledger_def)
  obtain y g where y: "smap_err io_err (commit_atomic path (ledger_bytes H ?m)) d = (y, g)"
    by fastforce
  show ?thesis
    using refines_commit [OF H wf step _ d y] run True
    by (auto simp: update_status_and_persist_def rs enc y Let_def split: sum.splits)
next
  case False
  then have "\<exists>z. x = Inl (Err z) \<and> m = l \<and> e = d"
    using run by (auto simp: update_status_and_persist_def Let_def split: sum.splits if_splits option.splits)
  then show ?thesis
    using refines_unchanged [OF H wf d] by auto
qed

text \<open>A ledger with one reservation, for evaluation.\<close>

definition sample_record :: "u16 \<Rightarrow> LedgerRecordV1" where
  "sample_record i = \<lparr>lr_ticket_key = ticket_key tail_hash 9 (replicate 32 1) 100 (replicate 32 2) i,
     lr_parent_block_hash = replicate 32 1, lr_target_epoch = 100, lr_license_id = replicate 32 2, lr_ticket_index = i,
     lr_work_units_for_epoch = 2, lr_worker_id = replicate 32 3, lr_session_id = replicate 32 4,
     lr_assignment_id = replicate 32 (ucast i), lr_assignment_sequence = 1, lr_status = STATUS_RESERVED\<rparr>"

definition sample_ledger :: WorkerBudgetLedgerV1 where
  "sample_ledger = \<lparr>lg_network_id = 9, lg_generation = 1, lg_records = [sample_record 0]\<rparr>"

lemma sample_record_wf: "wf_record (sample_record i)"
  by (simp add: wf_record_def sample_record_def ticket_key_def hash_parts_def length_tail_hash Let_def)

lemma sample_record_valid: "i < 2 \<Longrightarrow> valid_record tail_hash 9 (sample_record i)"
  by (simp add: valid_record_def sample_record_def known_status_def)

lemma sample_ledger_wf: "wf_ledger tail_hash sample_ledger"
  by (simp add: wf_ledger_def sample_ledger_def sample_record_wf sample_record_valid)

section \<open>Properties\<close>

text \<open>The ledger file format is exact: a byte string is accepted if and only if it is what \<open>encode\<close> returns
  for the ledger that is reported, with the field sizes of the record type.\<close>

theorem ledger_file_exact:
  assumes "\<forall>x. length (H x) = 32"
  shows "ledger_decode H bs = Inr l \<longleftrightarrow> ledger_encode H l = Inr bs \<and> list_all wf_record (lg_records l)"
  unfolding ledger_decode_iff [OF assms] ledger_encode_iff wf_ledger_def by blast

theorem ledger_file_exact_witness:
  "\<exists>bs. ledger_encode tail_hash (ledger_empty 9) = Inr bs \<and> ledger_decode tail_hash bs = Inr (ledger_empty 9)"
proof -
  have "ledger_encode tail_hash (ledger_empty 9) = Inr (ledger_bytes tail_hash (ledger_empty 9))"
    by (simp add: ledger_encode_iff ledger_empty_def)
  moreover have "\<forall>x. length (tail_hash x) = 32"
    by (simp add: length_tail_hash)
  ultimately show ?thesis
    using ledger_file_exact [of tail_hash "ledger_bytes tail_hash (ledger_empty 9)" "ledger_empty 9"]
    by (simp add: ledger_empty_def)
qed

text \<open>C6. Ledger operations are atomic: they refine the abstract ledger under every sequence of outcomes of the
  file-system calls. If an operation returns success, the ledger in memory has made one abstract step and
  the file holds it; if it returns an error, memory and the ledger recovered from disk are unchanged; if
  the program stops anywhere inside, the ledger recovered from disk is the old one or one abstract
  step later. The abstract steps keep the ledger well formed and never drop an assignment.\<close>

theorem ledger_operations_refine:
  assumes "\<forall>x. length (H x) = 32" and "wf_ledger H l" and "ledger_encode H l = Inr b" and "files d path = Some b" and "wf_record r"
  shows "(reserve_and_persist H path r (l, d) = (x, (m, e)) \<longrightarrow> ledger_refines H path l x m e) \<and>
    (update_status_and_persist H path i s (l, d) = (y, (m, e)) \<longrightarrow> ledger_refines H path l y m e) \<and>
    (ledger_step H l k \<longrightarrow> wf_ledger H k \<and> lr_assignment_id ` set (lg_records l) \<subseteq> lr_assignment_id ` set (lg_records k))"
proof -
  have "files d path = Some (ledger_bytes H l)"
    using assms(3,4) by (simp add: ledger_encode_iff)
  then show ?thesis
    using reserve_refines [OF assms(1,2,5)] update_status_refines [OF assms(1,2)] ledger_step_wf [OF _ assms(2)]
      ledger_step_keeps_assignments by blast
qed

theorem ledger_operations_refine_witness:
  "let b = ledger_bytes tail_hash sample_ledger;
       d = \<lparr>files = (\<lambda>p. if p = ''ledger'' then Some b else None), outcomes = [Done, Stops (Some [1, 2])]\<rparr>
   in \<exists>e. reserve_and_persist tail_hash ''ledger'' (sample_record 1) (sample_ledger, d) = (Inl Crash, (sample_ledger, e)) \<and>
      ledger_refines tail_hash ''ledger'' sample_ledger (Inl Crash :: LedgerError stop + bool) sample_ledger e"
proof -
  define d where "d = \<lparr>files = (\<lambda>p. if p = ''ledger'' then Some (ledger_bytes tail_hash sample_ledger) else None),
    outcomes = [Done, Stops (Some [1, 2])]\<rparr>"
  have b: "ledger_encode tail_hash sample_ledger = Inr (ledger_bytes tail_hash sample_ledger)"
    using sample_ledger_wf by (simp add: ledger_encode_iff wf_ledger_def)
  have v: "LedgerRecordV1_validate tail_hash 9 (sample_record 1) = Inr ()"
    by (simp add: validate_record_iff sample_record_valid)
  have ids: "lr_assignment_id (sample_record 0) \<noteq> lr_assignment_id (sample_record 1)"
    by (simp add: sample_record_def)
  have enc: "ledger_encode tail_hash (sample_ledger\<lparr>lg_generation := lg_generation sample_ledger + 1,
      lg_records := lg_records sample_ledger @ [sample_record 1]\<rparr>) \<in> range Inr"
    using ids by (auto simp: ledger_encode_iff sample_ledger_def sample_record_valid image_iff)
  then obtain bs where bs: "ledger_encode tail_hash (sample_ledger\<lparr>lg_generation := lg_generation sample_ledger + 1,
      lg_records := lg_records sample_ledger @ [sample_record 1]\<rparr>) = Inr bs"
    by blast
  have crash: "fst (commit_atomic ''ledger'' bs d) = Inl Crash"
    by (simp add: commit_atomic_def Let_def sbind_def fs_create_dir_all_def fs_call_def swhen_def fs_exists_def d_def companion_def write_synced_def)
  then obtain g where g: "commit_atomic ''ledger'' bs d = (Inl Crash, g)"
    by (metis prod.collapse)
  obtain e where run: "reserve_and_persist tail_hash ''ledger'' (sample_record 1) (sample_ledger, d) = (Inl Crash, (sample_ledger, e))"
  proof -
    have "assignment_seen sample_ledger (lr_assignment_id (sample_record 1)) = False" "lg_generation sample_ledger \<noteq> - 1"
      "lg_network_id sample_ledger = 9"
      using ids by (simp_all add: assignment_seen_def sample_ledger_def)
    then have "fst (reserve_and_persist tail_hash ''ledger'' (sample_record 1) (sample_ledger, d)) = Inl Crash \<and>
      fst (snd (reserve_and_persist tail_hash ''ledger'' (sample_record 1) (sample_ledger, d))) = sample_ledger"
      by (simp add: reserve_and_persist_def v bs Let_def smap_err_def g)
    then show ?thesis
      using that by (metis prod.collapse)
  qed
  have f: "files d ''ledger'' = Some (ledger_bytes tail_hash sample_ledger)"
    by (simp add: d_def)
  have H: "\<forall>x. length (tail_hash x) = 32"
    by (simp add: length_tail_hash)
  from ledger_operations_refine [OF H sample_ledger_wf b f sample_record_wf] run
  have "ledger_refines tail_hash ''ledger'' sample_ledger (Inl Crash :: LedgerError stop + bool) sample_ledger e"
    by blast
  with run show ?thesis
    unfolding Let_def d_def [symmetric] by blast
qed



end
