(* ===== verification/Duplex.thy ===== *)
theory Duplex
  imports P2p
begin

text \<open>
  The duplex transport (crates/mutiny-duplex/src/lib.rs): the choice between two connections of the same
  peers, request ids, the reader loop that routes responses and unsolicited frames, requests, and the
  limits. Threads are sequences of the atomic sections of the code: what a thread does under the lock
  of the pending map, one iteration of the reader, one write. Time is an argument. The theory shows that both peers
  keep the same connection, that request ids of the two ends never meet, that pending requests and the
  queue of unsolicited frames stay within their limits in every run, and how a slot can leak.
\<close>

unbundle bit_operations_syntax

section \<open>Model: connections and limits\<close>

datatype ConnectionDirection = Inbound | Outbound

definition preferred_direction :: "bytes \<Rightarrow> bytes \<Rightarrow> ConnectionDirection" where
  "preferred_direction local_node_id remote_node_id = (if local_node_id < remote_node_id then Outbound else Inbound)"

definition candidate_should_replace :: "bytes \<Rightarrow> bytes \<Rightarrow> ConnectionDirection \<Rightarrow> ConnectionDirection \<Rightarrow> bool" where
  "candidate_should_replace local_node_id remote_node_id current candidate =
     (if current = candidate then False else candidate = preferred_direction local_node_id remote_node_id)"

definition DEFAULT_MAX_PENDING_REQUESTS :: nat where "DEFAULT_MAX_PENDING_REQUESTS = 64"
definition DEFAULT_MAX_UNSOLICITED_FRAMES :: nat where "DEFAULT_MAX_UNSOLICITED_FRAMES = 128"
definition DEFAULT_MAX_FRAMES_PER_WINDOW :: u64 where "DEFAULT_MAX_FRAMES_PER_WINDOW = 512"
definition DEFAULT_MAX_BYTES_PER_WINDOW :: u64 where "DEFAULT_MAX_BYTES_PER_WINDOW = 16 * 1024 * 1024"

text \<open>Durations are in seconds.\<close>

definition DEFAULT_RATE_WINDOW :: nat where "DEFAULT_RATE_WINDOW = 10"

record DuplexLimits =
  max_pending_requests :: nat
  max_unsolicited_frames :: nat
  max_frames_per_window :: u64
  max_bytes_per_window :: u64
  rate_window :: nat

definition DuplexLimits_default :: DuplexLimits where
  "DuplexLimits_default = \<lparr>max_pending_requests = DEFAULT_MAX_PENDING_REQUESTS,
     max_unsolicited_frames = DEFAULT_MAX_UNSOLICITED_FRAMES, max_frames_per_window = DEFAULT_MAX_FRAMES_PER_WINDOW,
     max_bytes_per_window = DEFAULT_MAX_BYTES_PER_WINDOW, rate_window = DEFAULT_RATE_WINDOW\<rparr>"

record DuplexMetrics =
  frames_sent :: u64
  frames_received :: u64
  requests_started :: u64
  responses_routed :: u64
  unsolicited_routed :: u64
  request_timeouts :: u64
  reader_exits :: u64
  pending_limit_rejections :: u64
  unsolicited_overflow_closes :: u64
  rate_limit_closes :: u64

datatype DuplexError =
    DxClosed
  | DxDuplicateRequestId u64
  | DxTimeout u64
  | DxReaderStopped string
  | DxProtocol string
  | DxResourceLimit nat
  | DxP2p P2pError
  | DxIo

section \<open>Model: session state\<close>

text \<open>
  A pending request holds the sending end of a channel, here its number; the mailboxes are the contents
  of the channels. The hash map of pending requests is a list of entries, newest first. The mutexes are never poisoned, since no code panics under them, and the unsolicited
  channel stays connected while the session exists.
\<close>

record PendingRequest =
  expected_types :: "u16 list"
  pending_tx :: nat

record Inner =
  dx_magic :: u32
  dx_writer :: tcp
  dx_pending :: "(u64 \<times> PendingRequest) list"
  dx_mailbox :: "nat \<Rightarrow> (string + Frame) option"
  dx_next_channel :: nat
  dx_unsolicited :: "Frame list"
  dx_limits :: DuplexLimits
  dx_closed :: bool
  dx_next_request_id :: u64
  dx_lane_high_bit :: bool
  dx_metrics :: DuplexMetrics
  dx_shutdown :: bool

definition zero_metrics :: DuplexMetrics where
  "zero_metrics = \<lparr>frames_sent = 0, frames_received = 0, requests_started = 0, responses_routed = 0, unsolicited_routed = 0,
     request_timeouts = 0, reader_exits = 0, pending_limit_rejections = 0, unsolicited_overflow_closes = 0, rate_limit_closes = 0\<rparr>"

text \<open>\<open>socket\<close> is the result of \<open>set_nodelay\<close> and \<open>try_clone\<close>.\<close>

definition from_authenticated_stream_with_limits :: "tcp \<Rightarrow> bool \<Rightarrow> u32 \<Rightarrow> bool \<Rightarrow> DuplexLimits \<Rightarrow> DuplexError + Inner" where
  "from_authenticated_stream_with_limits stream socket magic lane_high_bit limits =
     (if max_pending_requests limits = 0 \<or> max_unsolicited_frames limits = 0 \<or> max_frames_per_window limits = 0 \<or>
         max_bytes_per_window limits = 0 \<or> rate_window limits = 0
      then Inl (DxProtocol ''duplex limits must all be non-zero'')
      else if \<not> socket then Inl DxIo
      else
        let first = (if lane_high_bit then push_bit 63 1 else 1)
        in Inr \<lparr>dx_magic = magic, dx_writer = stream, dx_pending = [], dx_mailbox = (\<lambda>_. None), dx_next_channel = 0,
             dx_unsolicited = [], dx_limits = limits, dx_closed = False, dx_next_request_id = first,
             dx_lane_high_bit = lane_high_bit, dx_metrics = zero_metrics, dx_shutdown = False\<rparr>)"

definition from_authenticated_stream :: "tcp \<Rightarrow> bool \<Rightarrow> u32 \<Rightarrow> bool \<Rightarrow> DuplexError + Inner" where
  "from_authenticated_stream stream socket magic lane_high_bit =
     from_authenticated_stream_with_limits stream socket magic lane_high_bit DuplexLimits_default"

section \<open>Model: reader\<close>

record window =
  window_started :: nat
  window_frames :: u64
  window_bytes :: u64

text \<open>\<open>pending.drain()\<close> with an error for every waiter.\<close>

definition drain_pending :: "string \<Rightarrow> Inner \<Rightarrow> Inner" where
  "drain_pending reason s = s\<lparr>
     dx_mailbox := foldl (\<lambda>m (i, p). m(pending_tx p := Some (Inl reason))) (dx_mailbox s) (dx_pending s),
     dx_pending := []\<rparr>"

definition remove_pending :: "u64 \<Rightarrow> Inner \<Rightarrow> Inner" where
  "remove_pending i s = s\<lparr>dx_pending := filter (\<lambda>(j, p). j \<noteq> i) (dx_pending s)\<rparr>"

definition count_exit :: "Inner \<Rightarrow> Inner" where
  "count_exit s = s\<lparr>dx_closed := True, dx_metrics := (dx_metrics s)\<lparr>reader_exits := reader_exits (dx_metrics s) + 1\<rparr>\<rparr>"

definition tick_window :: "DuplexLimits \<Rightarrow> nat \<Rightarrow> Frame \<Rightarrow> window \<Rightarrow> window" where
  "tick_window limits now frame w =
     (let w = (if now - window_started w \<ge> rate_window limits
               then \<lparr>window_started = now, window_frames = 0, window_bytes = 0\<rparr> else w);
          w = w\<lparr>window_frames := saturating_add (window_frames w) 1\<rparr>
      in w\<lparr>window_bytes := saturating_add (window_bytes w) (26 + of_nat (length (fr_payload frame)))\<rparr>)"

text \<open>The delivery of a frame: to the waiter of its request id if the type is expected, otherwise to the queue
  of unsolicited frames. The second component tells whether the loop goes on.\<close>

definition route_frame :: "Frame \<Rightarrow> Inner \<Rightarrow> Inner \<times> bool" where
  "route_frame frame s =
     (let matches_pending = (case map_of (dx_pending s) (fr_request_id frame) of None \<Rightarrow> False
            | Some p \<Rightarrow> fr_message_type frame \<in> set (expected_types p));
          waiter = (if matches_pending then map_of (dx_pending s) (fr_request_id frame) else None);
          s = (if matches_pending then remove_pending (fr_request_id frame) s else s)
      in case waiter of
           Some p \<Rightarrow>
             (s\<lparr>dx_metrics := (dx_metrics s)\<lparr>responses_routed := responses_routed (dx_metrics s) + 1\<rparr>,
                dx_mailbox := (dx_mailbox s)(pending_tx p := Some (Inr frame))\<rparr>, True)
         | None \<Rightarrow>
             if length (dx_unsolicited s) < max_unsolicited_frames (dx_limits s) then
               (s\<lparr>dx_unsolicited := dx_unsolicited s @ [frame],
                  dx_metrics := (dx_metrics s)\<lparr>unsolicited_routed := unsolicited_routed (dx_metrics s) + 1\<rparr>\<rparr>, True)
             else
               let s = s\<lparr>dx_metrics := (dx_metrics s)\<lparr>unsolicited_overflow_closes := unsolicited_overflow_closes (dx_metrics s) + 1\<rparr>\<rparr>;
                   s = drain_pending ''peer overflowed bounded unsolicited queue'' (count_exit s)
               in (s\<lparr>dx_shutdown := True\<rparr>, False))"

text \<open>One iteration: the text of an error is that of \<open>to_string\<close>.\<close>

definition reader_step ::
    "(P2pError \<Rightarrow> string) \<Rightarrow> nat \<Rightarrow> P2pError + Frame \<Rightarrow> Inner \<times> window \<Rightarrow> (Inner \<times> window) \<times> bool" where
  "reader_step show_error now input = (\<lambda>(s, w).
     case input of
       Inl e \<Rightarrow> ((drain_pending (show_error e) (count_exit s), w), False)
     | Inr frame \<Rightarrow>
         let s = s\<lparr>dx_metrics := (dx_metrics s)\<lparr>frames_received := frames_received (dx_metrics s) + 1\<rparr>\<rparr>;
             w = tick_window (dx_limits s) now frame w
         in if window_frames w > max_frames_per_window (dx_limits s) \<or> window_bytes w > max_bytes_per_window (dx_limits s)
            then
              let s = s\<lparr>dx_metrics := (dx_metrics s)\<lparr>rate_limit_closes := rate_limit_closes (dx_metrics s) + 1\<rparr>\<rparr>;
                  s = drain_pending ''peer exceeded duplex receive budget'' (count_exit s)
              in ((s\<lparr>dx_shutdown := True\<rparr>, w), False)
            else
              case route_frame frame s of (s, goes_on) \<Rightarrow> ((s, w), goes_on))"

fun spawn_reader :: "(P2pError \<Rightarrow> string) \<Rightarrow> (nat \<times> (P2pError + Frame)) list \<Rightarrow> Inner \<times> window \<Rightarrow> Inner \<times> window" where
  "spawn_reader show_error [] sw = sw"
| "spawn_reader show_error ((now, input) # inputs) sw =
     (case reader_step show_error now input sw of
        (sw, True) \<Rightarrow> spawn_reader show_error inputs sw
      | (sw, False) \<Rightarrow> sw)"

section \<open>Model: operations of a session\<close>

definition is_closed :: "Inner \<Rightarrow> bool" where
  "is_closed s = dx_closed s"

definition normalized_id :: "bool \<Rightarrow> u64 \<Rightarrow> u64" where
  "normalized_id lane_high_bit i = (if lane_high_bit then i OR push_bit 63 1 else i AND NOT (push_bit 63 1))"

function allocate_loop :: "bool \<Rightarrow> u64 \<Rightarrow> u64 \<times> u64" where
  "allocate_loop lane i = (if normalized_id lane i \<noteq> 0 then (normalized_id lane i, i + 1) else allocate_loop lane (i + 1))"
  by auto

lemma bit_lane: "bit (push_bit 63 (1 :: u64)) n \<longleftrightarrow> n = 63"
  by (simp only: bit_push_bit_iff bit_1_iff) auto

lemma normalized_id_low: "normalized_id False i = take_bit 63 i"
proof (rule bit_word_eqI)
  fix n
  assume "n < LENGTH(64)"
  then show "bit (normalized_id False i) n \<longleftrightarrow> bit (take_bit 63 i) n"
    unfolding normalized_id_def if_False bit_and_iff bit_not_iff bit_lane bit_take_bit_iff by auto
qed

lemma normalized_id_high: "bit (normalized_id True i) 63"
  unfolding normalized_id_def if_True bit_or_iff bit_lane by simp

lemma normalized_id_next: "normalized_id lane i = 0 \<Longrightarrow> normalized_id lane (i + 1) \<noteq> 0"
proof (cases lane)
  case False
  assume z: "normalized_id lane i = 0"
  then have "take_bit 63 i = 0"
    using False by (simp add: normalized_id_low)
  then have "unat i mod 2 ^ 63 = 0"
    by (metis take_bit_eq_mod unat_0 unsigned_take_bit_eq)
  then have "(unat i + 1) mod 2 ^ 63 = 1"
    by (simp add: mod_Suc)
  then have "(unat i + 1) mod 2 ^ 64 mod 2 ^ 63 = 1"
    by (simp only: mod_mod_cancel [of "2 ^ 63 :: nat" "2 ^ 64", OF le_imp_power_dvd])
  moreover have "unat (i + 1) = (unat i + 1) mod 2 ^ 64"
    by (simp add: unat_word_ariths)
  moreover have "unat (take_bit 63 (i + 1)) = unat (i + 1) mod 2 ^ 63"
    by (metis take_bit_eq_mod unsigned_take_bit_eq)
  ultimately have "unat (take_bit 63 (i + 1)) = 1"
    by simp
  then have "take_bit 63 (i + 1) \<noteq> 0"
    by (metis unat_0 zero_neq_one)
  then show ?thesis
    unfolding normalized_id_low if_False using False by (simp only: normalized_id_low not_False_eq_True simp_thms)
next
  case True
  then show ?thesis
    using normalized_id_high [of "i + 1"] by auto
qed

termination allocate_loop
  by (relation "measure (\<lambda>(lane, i). if normalized_id lane i = 0 then 1 else 0)") (auto simp: normalized_id_next)

declare allocate_loop.simps [simp del]

definition allocate_request_id :: "(Inner, DuplexError, u64) prog" where
  "allocate_request_id s =
     (if is_closed s then (Inl DxClosed, s)
      else
        let (normalized, following) = allocate_loop (dx_lane_high_bit s) (dx_next_request_id s)
        in (Inr normalized, s\<lparr>dx_next_request_id := following\<rparr>))"

definition send_frame :: "(bytes \<Rightarrow> bytes) \<Rightarrow> Frame \<Rightarrow> (Inner, DuplexError, unit) prog" where
  "send_frame H frame s =
     (if is_closed s then (Inl DxClosed, s)
      else
        case Frame_write_to H frame (dx_writer s) of
          (Inl e, t) \<Rightarrow> (Inl (DxP2p e), s\<lparr>dx_writer := t\<rparr>)
        | (Inr _, t) \<Rightarrow> (Inr (), s\<lparr>dx_writer := t, dx_metrics := (dx_metrics s)\<lparr>frames_sent := frames_sent (dx_metrics s) + 1\<rparr>\<rparr>))"

definition send_unsolicited :: "(bytes \<Rightarrow> bytes) \<Rightarrow> u16 \<Rightarrow> bytes \<Rightarrow> (Inner, DuplexError, unit) prog" where
  "send_unsolicited H message_type payload s =
     (case Frame_new (dx_magic s) message_type 0 payload of
        Inl e \<Rightarrow> (Inl (DxP2p e), s)
      | Inr frame \<Rightarrow> send_frame H frame s)"

text \<open>
  A request is made of three sections that other threads may come between: the registration under the
  lock of the pending map, which returns the receiving end of a new channel, the sending of the frame,
  and the receipt of the answer, for which the mailbox is read or the time runs out.
\<close>

definition register_request :: "u64 \<Rightarrow> u16 list \<Rightarrow> (Inner, DuplexError, nat) prog" where
  "register_request request_id expected s =
     (if expected = [] then (Inl (DxProtocol ''request must declare at least one expected response type''), s)
      else if is_closed s then (Inl DxClosed, s)
      else
        let rx = dx_next_channel s; s = s\<lparr>dx_next_channel := rx + 1\<rparr>
        in if map_of (dx_pending s) request_id \<noteq> None then (Inl (DxDuplicateRequestId request_id), s)
           else if length (dx_pending s) \<ge> max_pending_requests (dx_limits s) then
             (Inl (DxResourceLimit (max_pending_requests (dx_limits s))),
              s\<lparr>dx_metrics := (dx_metrics s)\<lparr>pending_limit_rejections := pending_limit_rejections (dx_metrics s) + 1\<rparr>\<rparr>)
           else
             (Inr rx, s\<lparr>dx_pending := (request_id, \<lparr>expected_types = expected, pending_tx = rx\<rparr>) # dx_pending s,
                dx_metrics := (dx_metrics s)\<lparr>requests_started := requests_started (dx_metrics s) + 1\<rparr>\<rparr>))"

definition send_request :: "(bytes \<Rightarrow> bytes) \<Rightarrow> u64 \<Rightarrow> u16 \<Rightarrow> bytes \<Rightarrow> (Inner, DuplexError, unit) prog" where
  "send_request H request_id message_type payload s =
     (case Frame_new (dx_magic s) message_type request_id payload of
        Inl e \<Rightarrow> (Inl (DxP2p e), s)
      | Inr frame \<Rightarrow>
          (case send_frame H frame s of
             (Inl e, s) \<Rightarrow> (Inl e, remove_pending request_id s)
           | (Inr u, s) \<Rightarrow> (Inr u, s)))"

definition await_response :: "u64 \<Rightarrow> nat \<Rightarrow> (Inner, DuplexError, Frame) prog" where
  "await_response request_id rx s =
     (case dx_mailbox s rx of
        Some (Inr frame) \<Rightarrow> (Inr frame, s\<lparr>dx_mailbox := (dx_mailbox s)(rx := None)\<rparr>)
      | Some (Inl reason) \<Rightarrow> (Inl (DxReaderStopped reason), s\<lparr>dx_mailbox := (dx_mailbox s)(rx := None)\<rparr>)
      | None \<Rightarrow>
          let s = remove_pending request_id s
          in (Inl (DxTimeout request_id),
              s\<lparr>dx_metrics := (dx_metrics s)\<lparr>request_timeouts := request_timeouts (dx_metrics s) + 1\<rparr>\<rparr>))"

text \<open>\<open>others\<close> is what the other threads do between sending and receiving.\<close>

definition request_with_id ::
    "(bytes \<Rightarrow> bytes) \<Rightarrow> (Inner \<Rightarrow> Inner) \<Rightarrow> u64 \<Rightarrow> u16 \<Rightarrow> bytes \<Rightarrow> u16 list \<Rightarrow> (Inner, DuplexError, Frame) prog" where
  "request_with_id H others request_id message_type payload expected =
     sbind (register_request request_id expected) (\<lambda>rx.
     sbind (send_request H request_id message_type payload) (\<lambda>_ s.
     await_response request_id rx (others s)))"

definition duplex_request ::
    "(bytes \<Rightarrow> bytes) \<Rightarrow> (Inner \<Rightarrow> Inner) \<Rightarrow> u16 \<Rightarrow> bytes \<Rightarrow> u16 list \<Rightarrow> (Inner, DuplexError, Frame) prog" where
  "duplex_request H others message_type payload expected =
     sbind allocate_request_id (\<lambda>request_id. request_with_id H others request_id message_type payload expected)"

definition recv_unsolicited :: "(Inner, DuplexError, Frame option) prog" where
  "recv_unsolicited s =
     (case dx_unsolicited s of
        frame # rest \<Rightarrow> (Inr (Some frame), s\<lparr>dx_unsolicited := rest\<rparr>)
      | [] \<Rightarrow> (Inr None, s))"

definition close_session :: "Inner \<Rightarrow> Inner" where
  "close_session s = (if dx_closed s then s else s\<lparr>dx_closed := True, dx_shutdown := True\<rparr>)"

section \<open>Steps of a session\<close>

text \<open>What the threads of a node may do with a session, one atomic section at a time.\<close>

inductive duplex_step :: "(bytes \<Rightarrow> bytes) \<Rightarrow> (P2pError \<Rightarrow> string) \<Rightarrow> Inner \<Rightarrow> Inner \<Rightarrow> bool" for H show_error where
  read: "reader_step show_error now input (s, w) = ((t, w'), goes_on) \<Longrightarrow> duplex_step H show_error s t"
| allocate: "allocate_request_id s = (x, t) \<Longrightarrow> duplex_step H show_error s t"
| register: "register_request i ts s = (x, t) \<Longrightarrow> duplex_step H show_error s t"
| send: "send_request H i ty payload s = (y, t) \<Longrightarrow> duplex_step H show_error s t"
| unsolicited: "send_unsolicited H ty payload s = (y, t) \<Longrightarrow> duplex_step H show_error s t"
| await: "await_response i rx s = (z, t) \<Longrightarrow> duplex_step H show_error s t"
| receive: "recv_unsolicited s = (u, t) \<Longrightarrow> duplex_step H show_error s t"
| close: "duplex_step H show_error s (close_session s)"

inductive_cases duplex_stepE: "duplex_step H show_error s t"

definition within_limits :: "Inner \<Rightarrow> bool" where
  "within_limits s \<longleftrightarrow> length (dx_pending s) \<le> max_pending_requests (dx_limits s) \<and> distinct (map fst (dx_pending s)) \<and>
     length (dx_unsolicited s) \<le> max_unsolicited_frames (dx_limits s)"

lemma drain_pending_simps [simp]:
  "dx_pending (drain_pending r s) = []" "dx_unsolicited (drain_pending r s) = dx_unsolicited s" "dx_limits (drain_pending r s) = dx_limits s"
  "dx_closed (drain_pending r s) = dx_closed s"
  by (simp_all add: drain_pending_def)

lemma count_exit_simps [simp]:
  "dx_pending (count_exit s) = dx_pending s" "dx_unsolicited (count_exit s) = dx_unsolicited s" "dx_limits (count_exit s) = dx_limits s"
  "dx_closed (count_exit s)"
  by (simp_all add: count_exit_def)

lemma remove_pending_simps [simp]:
  "dx_unsolicited (remove_pending i s) = dx_unsolicited s" "dx_limits (remove_pending i s) = dx_limits s"
  "dx_closed (remove_pending i s) = dx_closed s"
  by (simp_all add: remove_pending_def)

lemma within_limits_remove:
  "within_limits s \<Longrightarrow> length (dx_pending (remove_pending i s)) \<le> max_pending_requests (dx_limits s)"
  "within_limits s \<Longrightarrow> distinct (map fst (dx_pending (remove_pending i s)))"
  by (auto simp: within_limits_def remove_pending_def distinct_map inj_on_def intro: le_trans [OF length_filter_le])

lemma within_limitsD:
  "within_limits s \<Longrightarrow> length (dx_pending s) \<le> max_pending_requests (dx_limits s)" "within_limits s \<Longrightarrow> distinct (map fst (dx_pending s))"
  "within_limits s \<Longrightarrow> length (dx_unsolicited s) \<le> max_unsolicited_frames (dx_limits s)"
  by (simp_all add: within_limits_def)

lemma within_limits_closed: "within_limits s \<Longrightarrow> dx_pending t = [] \<Longrightarrow> dx_unsolicited t = dx_unsolicited s \<Longrightarrow> dx_limits t = dx_limits s \<Longrightarrow> within_limits t"
  by (simp add: within_limits_def)

definition awaited :: "Frame \<Rightarrow> Inner \<Rightarrow> PendingRequest option" where
  "awaited f s = (case map_of (dx_pending s) (fr_request_id f) of None \<Rightarrow> None
     | Some p \<Rightarrow> if fr_message_type f \<in> set (expected_types p) then Some p else None)"

lemma route_frame_awaited:
  "awaited f s = Some p \<Longrightarrow> route_frame f s =
     ((remove_pending (fr_request_id f) s)\<lparr>
        dx_metrics := (dx_metrics (remove_pending (fr_request_id f) s))\<lparr>responses_routed := responses_routed (dx_metrics (remove_pending (fr_request_id f) s)) + 1\<rparr>,
        dx_mailbox := (dx_mailbox (remove_pending (fr_request_id f) s))(pending_tx p := Some (Inr f))\<rparr>, True)"
  by (simp add: awaited_def route_frame_def Let_def split: option.splits if_splits)

lemma route_frame_other:
  "awaited f s = None \<Longrightarrow> route_frame f s =
     (if length (dx_unsolicited s) < max_unsolicited_frames (dx_limits s) then
        (s\<lparr>dx_unsolicited := dx_unsolicited s @ [f],
           dx_metrics := (dx_metrics s)\<lparr>unsolicited_routed := unsolicited_routed (dx_metrics s) + 1\<rparr>\<rparr>, True)
      else
        ((drain_pending ''peer overflowed bounded unsolicited queue'' (count_exit
           (s\<lparr>dx_metrics := (dx_metrics s)\<lparr>unsolicited_overflow_closes := unsolicited_overflow_closes (dx_metrics s) + 1\<rparr>\<rparr>)))\<lparr>dx_shutdown := True\<rparr>, False))"
  by (simp add: awaited_def route_frame_def Let_def split: option.splits if_splits)

lemma route_frame_within:
  assumes "route_frame f s = (t, b)" and "within_limits s"
  shows "within_limits t \<and> dx_limits t = dx_limits s"
proof (cases "awaited f s")
  case (Some p)
  then show ?thesis
    using assms within_limits_remove [OF assms(2)] within_limitsD(3) [OF assms(2)]
    by (auto simp: route_frame_awaited within_limits_def [of "_ \<lparr>dx_mailbox := _\<rparr>"])
next
  case None
  then show ?thesis
    using assms by (auto simp: route_frame_other within_limits_def split: if_splits)
qed

lemma reader_step_within:
  assumes "reader_step show_error now input (s, w) = ((t, w'), goes_on)" and "within_limits s"
  shows "within_limits t \<and> dx_limits t = dx_limits s"
proof (cases input)
  case (Inl e)
  then show ?thesis
    using assms by (auto simp: reader_step_def within_limits_def)
next
  case (Inr f)
  let ?s = "s\<lparr>dx_metrics := (dx_metrics s)\<lparr>frames_received := frames_received (dx_metrics s) + 1\<rparr>\<rparr>"
  have s: "within_limits ?s"
    using assms(2) by (simp add: within_limits_def)
  obtain r b where r: "route_frame f ?s = (r, b)"
    by fastforce
  have r': "within_limits r" "dx_limits r = dx_limits s"
    using route_frame_within [OF r s] by simp_all
  show ?thesis
    using assms(1) r' assms(2) by (auto simp: reader_step_def Inr Let_def r intro: within_limits_closed split: if_splits)
qed

definition same_queues :: "Inner \<Rightarrow> Inner \<Rightarrow> bool" where
  "same_queues s t \<longleftrightarrow> dx_pending t = dx_pending s \<and> dx_unsolicited t = dx_unsolicited s \<and> dx_limits t = dx_limits s"

lemma same_queues_within: "same_queues s t \<Longrightarrow> within_limits s \<Longrightarrow> within_limits t \<and> dx_limits t = dx_limits s"
  by (simp add: same_queues_def within_limits_def)

lemma remove_pending_within: "within_limits s \<Longrightarrow> within_limits (remove_pending i s)"
  using within_limits_remove [of s i] by (simp add: within_limits_def)

lemma send_frame_same: "send_frame H f s = (y, t) \<Longrightarrow> same_queues s t"
  by (auto simp: send_frame_def same_queues_def split: if_splits prod.splits sum.splits)

lemma send_request_same: "send_request H i ty payload s = (y, t) \<Longrightarrow> \<exists>u. same_queues s u \<and> (t = u \<or> t = remove_pending i u)"
proof (cases "Frame_new (dx_magic s) ty i payload")
  case (Inl e)
  assume "send_request H i ty payload s = (y, t)"
  then show ?thesis
    using Inl by (auto simp: send_request_def same_queues_def)
next
  case (Inr f)
  assume r: "send_request H i ty payload s = (y, t)"
  obtain x u where u: "send_frame H f s = (x, u)"
    by fastforce
  from send_frame_same [OF u] show ?thesis
    using r by (cases x) (auto simp: send_request_def Inr u)
qed

lemma register_request_within:
  "register_request i ts s = (x, t) \<Longrightarrow> within_limits s \<Longrightarrow> within_limits t \<and> dx_limits t = dx_limits s"
  unfolding register_request_def Let_def within_limits_def
  by (simp add: map_of_eq_None_iff split: if_split_asm) (elim conjE; hypsubst; simp)+

lemma duplex_step_within: "duplex_step H show_error s t \<Longrightarrow> within_limits s \<Longrightarrow> within_limits t \<and> dx_limits t = dx_limits s"
proof (induction rule: duplex_step.induct)
  case (read now input s w t w' goes_on)
  then show ?case
    using reader_step_within by blast
next
  case (allocate s x t)
  then have "same_queues s t"
    by (auto simp: allocate_request_id_def same_queues_def split: if_splits prod.splits)
  then show ?case
    using allocate(2) by (rule same_queues_within)
next
  case (register i ts s x t)
  then show ?case
    by (rule register_request_within)
next
  case (send i ty payload s y t)
  then show ?case
    using send_request_same [OF send(1)] same_queues_within remove_pending_within by fastforce
next
  case (unsolicited ty payload s y t)
  then have "same_queues s t"
    using send_frame_same by (auto simp: send_unsolicited_def same_queues_def split: sum.splits)
  then show ?case
    using unsolicited(2) by (rule same_queues_within)
next
  case (await i rx s z t)
  then have "same_queues s t \<or> same_queues (remove_pending i s) t"
    by (auto simp: await_response_def same_queues_def Let_def split: option.splits sum.splits)
  then show ?case
    using await(2) same_queues_within remove_pending_within by fastforce
next
  case (receive s u t)
  then show ?case
    by (auto simp: recv_unsolicited_def within_limits_def split: list.splits)
next
  case (close s)
  then show ?case
    by (simp add: close_session_def within_limits_def)
qed

interpretation duplex: step_invariant "duplex_step H show_error" "\<lambda>s. within_limits s \<and> dx_limits s = limits"
  using duplex_step_within by unfold_locales auto

section \<open>Request ids\<close>

lemma normalized_id_lane: "bit (normalized_id lane i) 63 \<longleftrightarrow> lane"
proof (cases lane)
  case True
  then show ?thesis
    by (simp only: normalized_id_high)
next
  case False
  then show ?thesis
    by (simp only: normalized_id_low bit_take_bit_iff) simp
qed

lemma allocate_loop_lane: "allocate_loop lane i = (x, j) \<Longrightarrow> x \<noteq> 0 \<and> (bit x 63 \<longleftrightarrow> lane)"
proof (induction lane i arbitrary: x j rule: allocate_loop.induct)
  case (1 lane i)
  show ?case
  proof (cases "normalized_id lane i = 0")
    case True
    have "allocate_loop lane (i + 1) = (x, j)"
      using 1(2) unfolding allocate_loop.simps [of lane i] True by simp
    then show ?thesis
      using 1(1) True by blast
  next
    case False
    then have "x = normalized_id lane i"
      using 1(2) unfolding allocate_loop.simps [of lane i] by simp
    then show ?thesis
      using False normalized_id_lane [of lane i] by metis
  qed
qed

section \<open>Requests\<close>

lemma register_request_open:
  assumes "\<not> dx_closed s" and "ts \<noteq> []" and "map_of (dx_pending s) i = None" and "length (dx_pending s) < max_pending_requests (dx_limits s)"
  shows "register_request i ts s = (Inr (dx_next_channel s), s\<lparr>dx_next_channel := dx_next_channel s + 1,
      dx_pending := (i, \<lparr>expected_types = ts, pending_tx = dx_next_channel s\<rparr>) # dx_pending s,
      dx_metrics := (dx_metrics s)\<lparr>requests_started := requests_started (dx_metrics s) + 1\<rparr>\<rparr>)"
  using assms by (simp add: register_request_def is_closed_def Let_def)

lemma remove_newest: "map_of ps i = None \<Longrightarrow> filter (\<lambda>(j, p). j \<noteq> i) ((i, x) # ps) = ps"
  by (auto simp: map_of_eq_None_iff image_iff intro!: filter_True)

lemma send_request_ok:
  assumes "\<not> dx_closed s" and "length payload \<le> 2 ^ 20" and "tcp_faults (dx_writer s) = []"
  shows "send_request H i ty payload s = (Inr (), s\<lparr>
      dx_writer := (dx_writer s)\<lparr>tcp_out := tcp_out (dx_writer s) @ frame_bytes H (new_frame (dx_magic s) ty i payload)\<rparr>,
      dx_metrics := (dx_metrics s)\<lparr>frames_sent := frames_sent (dx_metrics s) + 1\<rparr>\<rparr>)"
proof -
  let ?f = "new_frame (dx_magic s) ty i payload"
  have f: "Frame_new (dx_magic s) ty i payload = Inr ?f"
    using assms(2) by (simp add: Frame_new_def max_payload new_frame_def P2P_VERSION_def)
  have "Frame_encode H ?f = Inr (frame_bytes H ?f)"
    using assms(2) by (simp add: Frame_encode_iff)
  then have "Frame_write_to H ?f (dx_writer s) = (Inr (), (dx_writer s)\<lparr>tcp_out := tcp_out (dx_writer s) @ frame_bytes H ?f\<rparr>)"
    using assms(3) by (simp add: Frame_write_to_def tcp_write_all_def)
  then show ?thesis
    using assms(1) by (simp add: send_request_def f send_frame_def is_closed_def)
qed

lemma reader_step_routes:
  assumes "awaited f s = Some p" and "w' = tick_window (dx_limits s) now f w"
    and "window_frames w' \<le> max_frames_per_window (dx_limits s)" and "window_bytes w' \<le> max_bytes_per_window (dx_limits s)"
  shows "\<exists>t. reader_step show_error now (Inr f) (s, w) = ((t, w'), True) \<and> dx_mailbox t = (dx_mailbox s)(pending_tx p := Some (Inr f)) \<and>
    dx_pending t = filter (\<lambda>(j, p). j \<noteq> fr_request_id f) (dx_pending s) \<and> dx_writer t = dx_writer s"
proof -
  have "awaited f (s\<lparr>dx_metrics := m\<rparr>) = Some p" for m
    using assms(1) by (simp add: awaited_def)
  then show ?thesis
    using assms(2-4) by (simp add: reader_step_def Let_def route_frame_awaited remove_pending_def not_less [symmetric])
qed

section \<open>Properties\<close>

fun initiator :: "bytes \<Rightarrow> bytes \<Rightarrow> ConnectionDirection \<Rightarrow> bytes" where
  "initiator own remote Outbound = own"
| "initiator own remote Inbound = remote"

definition kept_direction :: "bytes \<Rightarrow> bytes \<Rightarrow> ConnectionDirection \<Rightarrow> ConnectionDirection \<Rightarrow> ConnectionDirection" where
  "kept_direction own remote current candidate =
     (if candidate_should_replace own remote current candidate then candidate else current)"

text \<open>Duplicate connections: when two nodes with different ids have opened connections to each other at the
  same time, both keep the connection with the same initiator, in whatever order each of them sees
  the two.\<close>

theorem duplicate_connections_agree:
  assumes "a \<noteq> b" and "d \<noteq> d'" and "e \<noteq> e'"
  shows "initiator a b (kept_direction a b d d') = initiator b a (kept_direction b a e e')"
  using assms by (cases d; cases d'; cases e; cases e'; cases "a < b")
    (auto simp: kept_direction_def candidate_should_replace_def preferred_direction_def not_less)

theorem duplicate_connections_agree_witness:
  "initiator [1] [2] (kept_direction [1] [2] Inbound Outbound) = initiator [2] [1] (kept_direction [2] [1] Inbound Outbound)"
  by (rule duplicate_connections_agree) simp_all

text \<open>C39. Request ids: allocation on an open session always returns, the id is not zero, which stands for
  unsolicited frames, and its top bit is the lane of the session; so two ends with opposite lanes never
  allocate the same id.\<close>

theorem request_ids_allocated:
  "(\<exists>x t. allocate_request_id s = (x, t) \<and> (if dx_closed s then x = Inl DxClosed \<and> t = s
      else \<exists>i. x = Inr i \<and> i \<noteq> 0 \<and> (bit i 63 \<longleftrightarrow> dx_lane_high_bit s))) \<and>
   \<not> (\<exists>i t t'. allocate_request_id s = (Inr i, t) \<and> allocate_request_id s' = (Inr i, t') \<and> dx_lane_high_bit s \<noteq> dx_lane_high_bit s')"
proof -
  have alloc: "\<exists>i j. allocate_loop (dx_lane_high_bit u) (dx_next_request_id u) = (i, j) \<and> i \<noteq> 0 \<and> (bit i 63 \<longleftrightarrow> dx_lane_high_bit u)" for u
    using allocate_loop_lane by (metis surj_pair)
  then have ok: "\<exists>x t. allocate_request_id u = (x, t) \<and> (if dx_closed u then x = Inl DxClosed \<and> t = u
      else \<exists>i. x = Inr i \<and> i \<noteq> 0 \<and> (bit i 63 \<longleftrightarrow> dx_lane_high_bit u))" for u
    using alloc [of u] by (auto simp: allocate_request_id_def is_closed_def)
  show ?thesis
    using ok [of s] ok [of s'] by (auto split: if_splits)
qed

text \<open>C26. Limits hold in every run: from a fresh session, whatever the peer sends and whatever the threads of
  the node do, the number of pending requests and the number of queued unsolicited frames never
  exceed the limits given, and no request id is pending twice.\<close>

theorem duplex_limits_hold:
  assumes "from_authenticated_stream_with_limits stream socket magic lane limits = Inr s"
    and "(duplex_step H show_error)\<^sup>*\<^sup>* s t"
  shows "length (dx_pending t) \<le> max_pending_requests limits \<and> distinct (map fst (dx_pending t)) \<and>
    length (dx_unsolicited t) \<le> max_unsolicited_frames limits"
proof -
  have "within_limits s \<and> dx_limits s = limits"
    using assms(1) by (auto simp: from_authenticated_stream_with_limits_def within_limits_def Let_def)
  from duplex.inv_run [OF assms(2) this] show ?thesis
    by (auto simp: within_limits_def)
qed

theorem duplex_limits_hold_witness:
  "let s = (case from_authenticated_stream (link [] []) True 7 False of Inr s \<Rightarrow> s)
   in (duplex_step tail_hash (\<lambda>_. []))\<^sup>*\<^sup>* s (snd (register_request 5 [1] s)) \<and>
      length (dx_pending (snd (register_request 5 [1] s))) \<le> 64"
proof -
  obtain s where s: "from_authenticated_stream_with_limits (link [] []) True 7 False DuplexLimits_default = Inr s"
    by (simp add: from_authenticated_stream_with_limits_def DuplexLimits_default_def DEFAULT_MAX_PENDING_REQUESTS_def
        DEFAULT_MAX_UNSOLICITED_FRAMES_def DEFAULT_MAX_FRAMES_PER_WINDOW_def DEFAULT_MAX_BYTES_PER_WINDOW_def DEFAULT_RATE_WINDOW_def)
  have run: "(duplex_step tail_hash (\<lambda>_. []))\<^sup>*\<^sup>* s (snd (register_request 5 [1] s))"
    by (rule r_into_rtranclp, rule duplex_step.register [where i = 5 and ts = "[1]" and x = "fst (register_request 5 [1] s)"]) simp
  have "max_pending_requests DuplexLimits_default = 64"
    by (simp add: DuplexLimits_default_def DEFAULT_MAX_PENDING_REQUESTS_def)
  with duplex_limits_hold [OF s run] run show ?thesis
    unfolding from_authenticated_stream_def s Let_def sum.case by simp
qed

text \<open>C27. A request is answered: on an open session with a free slot, when the reader receives a frame with the
  id of the request and an expected type within the receive budget, the request returns that frame,
  its message has been written whole, and its slot is free again.\<close>

theorem request_answered:
  assumes "\<not> dx_closed s" and "ts \<noteq> []" and "map_of (dx_pending s) i = None"
    and "length (dx_pending s) < max_pending_requests (dx_limits s)"
    and "length payload \<le> 2 ^ 20" and "tcp_faults (dx_writer s) = []"
    and "fr_request_id f = i" and "fr_message_type f \<in> set ts"
    and "window_frames (tick_window (dx_limits s) now f w) \<le> max_frames_per_window (dx_limits s)"
    and "window_bytes (tick_window (dx_limits s) now f w) \<le> max_bytes_per_window (dx_limits s)"
  shows "\<exists>t. request_with_id H (\<lambda>u. fst (fst (reader_step show_error now (Inr f) (u, w)))) i ty payload ts s = (Inr f, t) \<and>
    dx_pending t = dx_pending s \<and>
    tcp_out (dx_writer t) = tcp_out (dx_writer s) @ frame_bytes H (new_frame (dx_magic s) ty i payload)"
proof -
  let ?p = "\<lparr>expected_types = ts, pending_tx = dx_next_channel s\<rparr>"
  obtain u where u: "register_request i ts s = (Inr (dx_next_channel s), u)" "\<not> dx_closed u" "dx_limits u = dx_limits s"
    "dx_pending u = (i, ?p) # dx_pending s" "dx_writer u = dx_writer s" "dx_magic u = dx_magic s"
    using register_request_open [OF assms(1-4)] assms(1) by simp
  obtain v where v: "send_request H i ty payload u = (Inr (), v)" "dx_limits v = dx_limits s" "dx_pending v = (i, ?p) # dx_pending s"
    "tcp_out (dx_writer v) = tcp_out (dx_writer s) @ frame_bytes H (new_frame (dx_magic s) ty i payload)"
    using send_request_ok [OF u(2) assms(5), of H i ty] assms(6) u by simp
  have "awaited f v = Some ?p"
    using assms(7,8) by (simp add: awaited_def v)
  from reader_step_routes [OF this refl, of now w show_error] obtain x where
    x: "reader_step show_error now (Inr f) (v, w) = ((x, tick_window (dx_limits v) now f w), True)"
      "dx_mailbox x = (dx_mailbox v)(pending_tx ?p := Some (Inr f))"
      "dx_pending x = filter (\<lambda>(j, p). j \<noteq> fr_request_id f) (dx_pending v)" "dx_writer x = dx_writer v"
    using assms(9,10) unfolding v(2) by blast
  have "dx_pending x = dx_pending s"
    unfolding x(3) v(3) assms(7) by (rule remove_newest [OF assms(3)])
  show ?thesis
    unfolding request_with_id_def using u(1) v(1,4) x(1,2,4) \<open>dx_pending x = dx_pending s\<close> by (simp add: await_response_def)
qed

lemmas default_limits = DuplexLimits_default_def DEFAULT_MAX_PENDING_REQUESTS_def DEFAULT_MAX_UNSOLICITED_FRAMES_def
  DEFAULT_MAX_FRAMES_PER_WINDOW_def DEFAULT_MAX_BYTES_PER_WINDOW_def DEFAULT_RATE_WINDOW_def

theorem request_answered_witness:
  "\<exists>s t. from_authenticated_stream (link [] []) True 7 False = Inr s \<and>
     request_with_id tail_hash (\<lambda>u. fst (fst (reader_step (\<lambda>_. []) 0 (Inr (new_frame 7 MSG_PONG 5 []))
       (u, \<lparr>window_started = 0, window_frames = 0, window_bytes = 0\<rparr>)))) 5 MSG_PING [1] [MSG_PONG] s =
     (Inr (new_frame 7 MSG_PONG 5 []), t)"
proof -
  obtain s where s: "from_authenticated_stream (link [] []) True 7 False = Inr s" "\<not> dx_closed s" "dx_pending s = []"
    "dx_limits s = DuplexLimits_default" "tcp_faults (dx_writer s) = []"
    by (simp add: from_authenticated_stream_def from_authenticated_stream_with_limits_def default_limits link_def)
  have "\<exists>t. request_with_id tail_hash (\<lambda>u. fst (fst (reader_step (\<lambda>_. []) 0 (Inr (new_frame 7 MSG_PONG 5 []))
       (u, \<lparr>window_started = 0, window_frames = 0, window_bytes = 0\<rparr>)))) 5 MSG_PING [1] [MSG_PONG] s =
     (Inr (new_frame 7 MSG_PONG 5 []), t) \<and> dx_pending t = dx_pending s \<and>
     tcp_out (dx_writer t) = tcp_out (dx_writer s) @ frame_bytes tail_hash (new_frame (dx_magic s) MSG_PING 5 [1])"
    by (rule request_answered) (simp_all add: s tick_window_def default_limits saturating_add_def)
  with s(1) show ?thesis
    by blast
qed

definition leak_requests :: "(bytes \<Rightarrow> bytes) \<Rightarrow> (Inner \<Rightarrow> Inner) \<Rightarrow> u16 \<Rightarrow> bytes \<Rightarrow> u16 list \<Rightarrow> u64 list \<Rightarrow> Inner \<Rightarrow> Inner" where
  "leak_requests H others ty payload ts ids s = foldl (\<lambda>s i. snd (request_with_id H others i ty payload ts s)) s ids"

lemma oversized_request:
  assumes "\<not> dx_closed s" and "ts \<noteq> []" and "map_of (dx_pending s) i = None"
    and "length (dx_pending s) < max_pending_requests (dx_limits s)" and "2 ^ 20 < length payload"
  shows "\<exists>t p. request_with_id H others i ty payload ts s = (Inl (DxP2p PpPayloadTooLarge), t) \<and> dx_pending t = (i, p) # dx_pending s \<and>
    dx_limits t = dx_limits s \<and> \<not> dx_closed t"
  using register_request_open [OF assms(1-4)] assms(1,5)
  by (simp add: request_with_id_def send_request_def Frame_new_def max_payload)

lemma leak_requests_pending:
  assumes "\<not> dx_closed s" and "ts \<noteq> []" and "distinct ids" and "set ids \<inter> fst ` set (dx_pending s) = {}"
    and "length (dx_pending s) + length ids \<le> max_pending_requests (dx_limits s)" and "2 ^ 20 < length payload"
  shows "let t = leak_requests H others ty payload ts ids s
    in fst ` set (dx_pending t) = set ids \<union> fst ` set (dx_pending s) \<and> length (dx_pending t) = length (dx_pending s) + length ids \<and>
       dx_limits t = dx_limits s \<and> \<not> dx_closed t"
  using assms
proof (induction ids arbitrary: s)
  case (Cons i ids)
  have "map_of (dx_pending s) i = None"
    using Cons.prems(4) by (auto simp: map_of_eq_None_iff)
  then obtain t p where t: "request_with_id H others i ty payload ts s = (Inl (DxP2p PpPayloadTooLarge), t)"
    "dx_pending t = (i, p) # dx_pending s" "dx_limits t = dx_limits s" "\<not> dx_closed t"
    using oversized_request [OF Cons.prems(1,2), of i payload H others ty] Cons.prems(5,6) by auto
  have "leak_requests H others ty payload ts (i # ids) s = leak_requests H others ty payload ts ids t"
    by (simp add: leak_requests_def t(1))
  then show ?case
    using Cons.IH [OF t(4) Cons.prems(2)] Cons.prems(3-6) t(2,3) by (auto simp: Let_def)
qed (simp add: leak_requests_def)

text \<open>C28. An oversized request leaks its slot: the payload is refused only after the request was registered, and
  nothing removes the entry. After as many such calls as the limit allows, every further request on
  the session is refused.\<close>

theorem oversized_requests_exhaust:
  assumes "from_authenticated_stream_with_limits stream socket magic lane limits = Inr s" and "ts \<noteq> []" and "2 ^ 20 < length payload"
    and "distinct ids" and "length ids = max_pending_requests limits" and "i \<notin> set ids"
  shows "fst (request_with_id H others i ty' payload' ts (leak_requests H others ty payload ts ids s)) =
    Inl (DxResourceLimit (max_pending_requests limits))"
proof -
  have s: "\<not> dx_closed s" "dx_pending s = []" "dx_limits s = limits"
    using assms(1) by (auto simp: from_authenticated_stream_with_limits_def Let_def)
  let ?t = "leak_requests H others ty payload ts ids s"
  have t: "fst ` set (dx_pending ?t) = set ids" "length (dx_pending ?t) = max_pending_requests limits" "dx_limits ?t = limits" "\<not> dx_closed ?t"
    using leak_requests_pending [OF s(1) assms(2,4) _ _ assms(3), of H others ty] s assms(5) by (simp_all add: Let_def)
  have "map_of (dx_pending ?t) i = None"
    using t(1) assms(6) by (simp add: map_of_eq_None_iff)
  then show ?thesis
    using t(2-4) assms(2) by (simp add: request_with_id_def sbind_def register_request_def is_closed_def Let_def)
qed

theorem oversized_requests_exhaust_witness:
  "let limits = \<lparr>max_pending_requests = 1, max_unsolicited_frames = 1, max_frames_per_window = 1, max_bytes_per_window = 1, rate_window = 1\<rparr>
   in \<exists>s. from_authenticated_stream_with_limits (link [] []) True 7 False limits = Inr s \<and>
     fst (request_with_id tail_hash (\<lambda>u. u) 6 MSG_PING [] [MSG_PONG]
       (leak_requests tail_hash (\<lambda>u. u) MSG_PING (replicate (2 ^ 20 + 1) 0) [MSG_PONG] [5] s)) = Inl (DxResourceLimit 1)"
proof -
  let ?l = "\<lparr>max_pending_requests = 1, max_unsolicited_frames = 1, max_frames_per_window = 1, max_bytes_per_window = 1, rate_window = 1\<rparr>"
  obtain s where s: "from_authenticated_stream_with_limits (link [] []) True 7 False ?l = Inr s"
    by (simp add: from_authenticated_stream_with_limits_def)
  have "fst (request_with_id tail_hash (\<lambda>u. u) 6 MSG_PING [] [MSG_PONG]
       (leak_requests tail_hash (\<lambda>u. u) MSG_PING (replicate (2 ^ 20 + 1) 0) [MSG_PONG] [5] s)) = Inl (DxResourceLimit (max_pending_requests ?l))"
    by (rule oversized_requests_exhaust [OF s]) (simp_all only: length_replicate, simp_all)
  with s show ?thesis
    by (simp add: Let_def)
qed

end
