(* ===== verification/Node.thy ===== *)
theory Node
  imports License Purchase "HOL-Library.Char_ord"
begin

text \<open>
  The node's chain state (mutiny-node/src/main.rs): the structures it stores, with identifiers and
  keys as hexadecimal text, the decoders of protocol operations, the monetary schedule (subsidy,
  base fee rate), the difficulty controller, and the decimal amounts of the command line.

  The crate \<open>hex\<close> is a parameter \<open>X\<close>. The code relies on one fact about it, \<open>hex_sound\<close>: decoding
  what it has encoded gives the bytes back. An error of the node is a message; the text that a
  lower component's error prints as is that component's error value.
\<close>

section \<open>Errors and the hex crate\<close>

datatype NodeError =
    Msg string
  | MsgFor string string
  | HexErr string
  | CodecErr DecodeError
  | TxErr TxError
  | ProtErr ProtocolError
  | StateErr StateError

record hex_lib =
  hex_encode :: "bytes \<Rightarrow> string"
  hex_decode :: "string \<Rightarrow> string + bytes"

definition hex_sound :: "hex_lib \<Rightarrow> bool" where
  "hex_sound X \<longleftrightarrow> (\<forall>bs. hex_decode X (hex_encode X bs) = Inr bs)"

definition decode32 :: "hex_lib \<Rightarrow> string \<Rightarrow> NodeError + bytes" where
  "decode32 X s =
     rbind (map_err HexErr (hex_decode X s)) (\<lambda>v.
       if length v = 32 then Inr v else Inl (Msg ''expected 32-byte hex value''))"

text \<open>Collecting an iterator of results, and \<open>try_fold\<close>: both stop at the first error.\<close>

fun try_map :: "('a \<Rightarrow> 'e + 'b) \<Rightarrow> 'a list \<Rightarrow> 'e + 'b list" where
  "try_map f [] = Inr []"
| "try_map f (x # xs) = rbind (f x) (\<lambda>y. rbind (try_map f xs) (\<lambda>ys. Inr (y # ys)))"

fun try_fold :: "('b \<Rightarrow> 'a \<Rightarrow> 'e + 'b) \<Rightarrow> 'b \<Rightarrow> 'a list \<Rightarrow> 'e + 'b" where
  "try_fold f acc [] = Inr acc"
| "try_fold f acc (x # xs) = rbind (f acc x) (\<lambda>acc. try_fold f acc xs)"

definition saturating_sub :: "'a::len word \<Rightarrow> 'a word \<Rightarrow> 'a word" where
  "saturating_sub a b = (if b \<le> a then a - b else 0)"

section \<open>Constants\<close>

definition STRIKES_PER_MUT :: u64 where "STRIKES_PER_MUT = 100000000"
definition ERA_LENGTH :: u64 where "ERA_LENGTH = push_bit 21 1"
definition COINBASE_MATURITY :: u64 where "COINBASE_MATURITY = 16"
definition BASE_FEE_MIN_Q32 :: u64 where "BASE_FEE_MIN_Q32 = push_bit 32 1"
definition BASE_FEE_MAX_Q32 :: u64 where "BASE_FEE_MAX_Q32 = push_bit 32 (push_bit 20 1)"
definition BLOCK_WEIGHT_TARGET :: u64 where "BLOCK_WEIGHT_TARGET = push_bit 16 1"
definition BLOCK_WEIGHT_MAX :: u64 where "BLOCK_WEIGHT_MAX = push_bit 17 1"
definition DIFFICULTY_EASIER_STEP_Q32 :: u64 where "DIFFICULTY_EASIER_STEP_Q32 = 4341736423"
definition DIFFICULTY_HARDER_STEP_Q32 :: u64 where "DIFFICULTY_HARDER_STEP_Q32 = 4248701965"
definition DIFFICULTY_C_MIN_Q32 :: u64 where "DIFFICULTY_C_MIN_Q32 = push_bit 16 1"
definition DIFFICULTY_C_MAX_Q32 :: u64 where "DIFFICULTY_C_MAX_Q32 = push_bit 48 1"

definition MOTTO :: string where "MOTTO = ''No Masters. Only the Many.''"

definition DEVNET_GENESIS_ID_HEX :: string where
  "DEVNET_GENESIS_ID_HEX = ''4c603df8839ce020b42a1268a54a1938657a1b7812d2df92c4803d63355e702c''"

section \<open>Stored structures\<close>

record LicenseState =
  ls_index :: u32
  ls_license_id :: string
  ls_purchase_id :: string
  ls_owner_public_key :: string
  ls_mining_public_key :: string
  ls_payment_address_id :: string
  ls_status :: u8
  ls_purchase_method :: u8
  ls_owner_key_sequence :: u32
  ls_mining_key_sequence :: u32
  ls_issued_epoch :: u64
  ls_activation_epoch :: u64
  ls_strike_weight :: u8
  ls_suspended_until_epoch :: u64
  ls_revocation_epoch :: u64

definition license_record :: "hex_lib \<Rightarrow> LicenseState \<Rightarrow> NodeError + LicenseRecordV1" where
  "license_record X s =
     rbind (decode32 X (ls_purchase_id s)) (\<lambda>purchase_id.
     rbind (decode32 X (ls_owner_public_key s)) (\<lambda>owner_public_key.
     rbind (decode32 X (ls_mining_public_key s)) (\<lambda>mining_public_key.
       Inr \<lparr>lic_version = 1, lic_status = ls_status s, lic_purchase_method = ls_purchase_method s,
            lic_purchase_id = purchase_id, lic_owner_public_key = owner_public_key,
            lic_owner_key_sequence = ls_owner_key_sequence s,
            lic_mining_public_key = mining_public_key,
            lic_mining_key_sequence = ls_mining_key_sequence s,
            lic_issued_epoch = ls_issued_epoch s, lic_activation_epoch = ls_activation_epoch s,
            lic_strike_weight = ls_strike_weight s,
            lic_suspended_until_epoch = ls_suspended_until_epoch s,
            lic_revocation_epoch = ls_revocation_epoch s\<rparr>)))"

definition is_eligible :: "LicenseState \<Rightarrow> u64 \<Rightarrow> bool" where
  "is_eligible s epoch \<longleftrightarrow>
     ls_status s = LICENSE_STATUS_ACTIVE \<and> epoch \<ge> ls_activation_epoch s \<and>
     epoch \<ge> ls_suspended_until_epoch s \<and> ls_revocation_epoch s = 0"

record HistoricalLicenseKeyState =
  hk_operation_id :: string
  hk_license_id :: string
  hk_owner_public_key :: string
  hk_owner_key_sequence :: u32
  hk_mining_public_key :: string
  hk_mining_key_sequence :: u32

definition HistoricalLicenseKeyState_value_bytes ::
    "hex_lib \<Rightarrow> HistoricalLicenseKeyState \<Rightarrow> NodeError + bytes" where
  "HistoricalLicenseKeyState_value_bytes X s =
     rbind (decode32 X (hk_license_id s)) (\<lambda>license_id.
     rbind (decode32 X (hk_owner_public_key s)) (\<lambda>owner.
     rbind (decode32 X (hk_mining_public_key s)) (\<lambda>mining.
       Inr (license_id @ owner @ to_be_bytes (hk_owner_key_sequence s) @ mining
            @ to_be_bytes (hk_mining_key_sequence s)))))"

record BitcoinPaymentState =
  bp_payment_id :: string
  bp_txid_internal :: string
  bp_payment_output_index :: u32
  bp_paid_sats :: u64
  bp_containing_block_hash_internal :: string
  bp_containing_block_height :: u32
  bp_sixth_confirmation_hash_internal :: string
  bp_sixth_confirmation_height :: u32
  bp_sixth_confirmation_timestamp :: u32

definition BitcoinPaymentState_value_bytes ::
    "hex_lib \<Rightarrow> BitcoinPaymentState \<Rightarrow> NodeError + bytes" where
  "BitcoinPaymentState_value_bytes X s =
     rbind (decode32 X (bp_txid_internal s)) (\<lambda>txid.
     rbind (decode32 X (bp_containing_block_hash_internal s)) (\<lambda>containing.
     rbind (decode32 X (bp_sixth_confirmation_hash_internal s)) (\<lambda>sixth.
       Inr (txid @ to_be_bytes (bp_payment_output_index s) @ to_be_bytes (bp_paid_sats s) @ containing
            @ to_be_bytes (bp_containing_block_height s) @ sixth
            @ to_be_bytes (bp_sixth_confirmation_height s)
            @ to_be_bytes (bp_sixth_confirmation_timestamp s)))))"

record UtxoState =
  us_txid :: string
  us_output_index :: u16
  us_amount_strikes :: u64
  us_output_type :: u8
  us_payload :: string
  us_creation_epoch :: u64
  us_creation_height :: u64
  us_coinbase :: bool

definition UtxoState_value :: "hex_lib \<Rightarrow> UtxoState \<Rightarrow> NodeError + UtxoValueV1" where
  "UtxoState_value X s =
     rbind (map_err HexErr (hex_decode X (us_payload s))) (\<lambda>payload.
       Inr \<lparr>utxo_amount_strikes = us_amount_strikes s, utxo_output_type = us_output_type s,
            utxo_payload = payload, utxo_creation_epoch = us_creation_epoch s,
            utxo_creation_height = us_creation_height s, utxo_coinbase = us_coinbase s\<rparr>)"

definition prevout :: "hex_lib \<Rightarrow> UtxoState \<Rightarrow> NodeError + PrevoutCommitmentV1" where
  "prevout X s =
     rbind (decode32 X (us_txid s)) (\<lambda>previous_txid.
     rbind (map_err HexErr (hex_decode X (us_payload s))) (\<lambda>payload.
       Inr \<lparr>prev_previous_txid = previous_txid, prev_previous_output_index = us_output_index s,
            prev_amount_strikes = us_amount_strikes s, prev_output_type = us_output_type s,
            prev_payload = payload\<rparr>))"

definition spendable_at_height :: "UtxoState \<Rightarrow> u64 \<Rightarrow> bool" where
  "spendable_at_height s candidate_height \<longleftrightarrow>
     \<not> us_coinbase s \<or> candidate_height \<ge> saturating_add (us_creation_height s) COINBASE_MATURITY"

record StoredTxInput =
  sti_previous_txid :: string
  sti_previous_output_index :: u16

record StoredTxOutput =
  sto_amount_strikes :: u64
  sto_output_type :: u8
  sto_payload :: string

record StoredWitness =
  stw_witness_type :: u8
  stw_payload :: string

record PendingTxState =
  pt_txid :: string
  pt_wtxid :: string
  pt_valid_from_epoch :: u64
  pt_expiry_epoch :: u64
  pt_inputs :: "StoredTxInput list"
  pt_outputs :: "StoredTxOutput list"
  pt_witnesses :: "StoredWitness list"
  pt_fee_strikes :: u64
  pt_base_fee_strikes :: u64
  pt_from_license :: u8
  pt_to_license :: u8
  pt_amount_strikes :: u64

definition has_license_payment_output :: "PendingTxState \<Rightarrow> bool" where
  "has_license_payment_output s \<longleftrightarrow> (\<exists>q\<in>set (pt_outputs s). sto_output_type q = OUTPUT_LICENSE_PAYMENT)"

definition has_protocol_auth_witness :: "PendingTxState \<Rightarrow> bool" where
  "has_protocol_auth_witness s \<longleftrightarrow> (\<exists>w\<in>set (pt_witnesses s). stw_witness_type w = WITNESS_PROTOCOL_AUTH)"

definition to_transaction_for_network ::
    "hex_lib \<Rightarrow> PendingTxState \<Rightarrow> u32 \<Rightarrow> NodeError + TransactionV1" where
  "to_transaction_for_network X s network_id =
     rbind (try_map (\<lambda>i. rbind (decode32 X (sti_previous_txid i)) (\<lambda>t.
              Inr (Outpoint t (sti_previous_output_index i)))) (pt_inputs s)) (\<lambda>inputs.
     rbind (try_map (\<lambda>q. rbind (map_err HexErr (hex_decode X (sto_payload q))) (\<lambda>p.
              Inr \<lparr>out_amount_strikes = sto_amount_strikes q, out_output_type = sto_output_type q,
                   out_payload = p\<rparr>)) (pt_outputs s)) (\<lambda>outputs.
     rbind (try_map (\<lambda>w. rbind (map_err HexErr (hex_decode X (stw_payload w))) (\<lambda>p.
              Inr \<lparr>wit_witness_type = stw_witness_type w, wit_payload = p\<rparr>)) (pt_witnesses s)) (\<lambda>witnesses.
       Inr \<lparr>tx_core = \<lparr>core_version = 1, core_network_id = network_id,
                       core_valid_from_epoch = pt_valid_from_epoch s,
                       core_expiry_epoch = pt_expiry_epoch s, core_inputs = inputs,
                       core_outputs = outputs\<rparr>,
            tx_witnesses = witnesses\<rparr>)))"

record PendingProtocolOperationState =
  po_operation :: string
  po_required_txid :: string

record ConfirmedTxState =
  ct_tx :: PendingTxState
  ct_block_height :: u64
  ct_block_epoch :: u64
  ct_block_hash :: string

record BlockState =
  bk_height :: u64
  bk_epoch :: u64
  bk_header :: string
  bk_transactions :: "string list"
  bk_protocol_operations :: "string list"
  bk_block_hash :: string
  bk_parent_hash :: string
  bk_miner_license_id :: string
  bk_ticket_index :: u16
  bk_argon2_proof :: string
  bk_target :: string
  bk_reward_strikes :: u64
  bk_total_fees_strikes :: u64
  bk_treasury_fee_share_strikes :: u64
  bk_block_weight :: u64
  bk_transaction_root :: string
  bk_state_root :: string
  bk_coinbase_txid :: string
  bk_transaction_ids :: "string list"

record SideBranchState =
  sb_fork_height :: u64
  sb_tip_height :: u64
  sb_tip_hash :: string
  sb_chain_work :: string
  sb_blocks :: "BlockState list"

record OffenseEventState =
  oe_evidence_id :: string
  oe_license_id :: string
  oe_offense_type :: u16
  oe_weight :: u8
  oe_applied_epoch :: u64
  oe_expiry_epoch :: u64

record DividendAccountState =
  da_license_id :: string
  da_award_epoch :: u64
  da_claim_deadline_epoch :: u64
  da_claimable_strikes :: u64

record MiningPresenceState =
  mst_license_id :: string
  mst_mining_key_sequence :: u32
  mst_last_presence_epoch :: u64
  mst_last_presence_operation_id :: string

record BitcoinHeaderStateStored =
  bhst_block_hash_internal :: string
  bhst_height :: u32
  bhst_raw_header :: string
  bhst_relative_chainwork :: string

record BitcoinBestChainStored =
  bbst_tip_hash_internal :: string
  bbst_tip_height :: u32
  bbst_tip_relative_chainwork :: string

record DevnetState =
  ds_format_version :: u16
  ds_network_id :: u32
  ds_motto :: string
  ds_genesis_time_ms :: u128
  ds_genesis_hash :: string
  ds_epoch_ms :: u64
  ds_height :: u64
  ds_tip_hash :: string
  ds_tip_epoch :: u64
  ds_anchor_epoch :: u64
  ds_anchor_license_id :: string
  ds_anchor_ticket_index :: u16
  ds_anchor_argon2_proof :: string
  ds_total_issued_strikes :: u64
  ds_difficulty_history_count :: u8
  ds_difficulty_history_bitmap :: u64
  ds_difficulty_correction_q32 :: u64
  ds_base_fee_rate_q32 :: u64
  ds_current_state_root :: string
  ds_licenses :: "LicenseState list"
  ds_consumed_native_payments :: "string list"
  ds_consumed_bitcoin_payments :: "BitcoinPaymentState list"
  ds_consumed_evidence :: "string list"
  ds_offense_events :: "OffenseEventState list"
  ds_treasury_reserved_dividend_strikes :: u64
  ds_dividend_accounts :: "DividendAccountState list"
  ds_historical_license_keys :: "HistoricalLicenseKeyState list"
  ds_mining_presence :: "MiningPresenceState list"
  ds_bitcoin_headers :: "BitcoinHeaderStateStored list"
  ds_bitcoin_best_chain :: "BitcoinBestChainStored option"
  ds_utxos :: "UtxoState list"
  ds_mempool :: "PendingTxState list"
  ds_pending_protocol_operations :: "PendingProtocolOperationState list"
  ds_confirmed_transactions :: "ConfirmedTxState list"
  ds_blocks :: "BlockState list"
  ds_side_branches :: "SideBranchState list"

definition transaction_is_protocol_bound :: "DevnetState \<Rightarrow> string \<Rightarrow> bool" where
  "transaction_is_protocol_bound state txid \<longleftrightarrow>
     (\<exists>op\<in>set (ds_pending_protocol_operations state). po_required_txid op = txid)"


section \<open>Decoding protocol operations\<close>

definition decode_protocol_operation_bytes :: "bytes \<Rightarrow> NodeError + ProtocolOperationV1" where
  "decode_protocol_operation_bytes bs =
     (if length bs < 5 then Inl (Msg ''protocol operation is truncated'')
      else
        let op_type = from_be_bytes (take 2 bs); op_version = from_be_bytes (take 2 (drop 2 bs))
        in rbind (map_err CodecErr (read_varuint (drop 4 bs))) (\<lambda>(payload_len, input).
             if length input \<noteq> unat payload_len
             then Inl (Msg ''protocol operation payload length mismatch'')
             else Inr \<lparr>op_op_type = op_type, op_op_version = op_version, op_payload = input\<rparr>))"

definition decode_protocol_operation_hex :: "hex_lib \<Rightarrow> string \<Rightarrow> NodeError + ProtocolOperationV1" where
  "decode_protocol_operation_hex X encoded =
     rbind (map_err HexErr (hex_decode X encoded)) decode_protocol_operation_bytes"

definition pending_operation :: "hex_lib \<Rightarrow> PendingProtocolOperationState \<Rightarrow> NodeError + ProtocolOperationV1" where
  "pending_operation X s = decode_protocol_operation_hex X (po_operation s)"

definition decode_mut_manifest :: "bytes \<Rightarrow> NodeError + MutLicenseManifestV1" where
  "decode_mut_manifest bs =
     (if length bs < 42 then Inl (Msg ''native license manifest is truncated'')
      else
        let version = from_be_bytes (take 2 bs);
            network_id = from_be_bytes (take 4 (drop 2 bs));
            purchase_nonce = take 32 (drop 6 bs);
            count = unat (from_be_bytes (take 4 (drop 38 bs)) :: u32)
        in if count = 0 \<or> count > 1024
           then Inl (Msg ''native license manifest count outside 1..=1024'')
           else if length bs \<noteq> 42 + count * 64
           then Inl (Msg ''native license manifest length mismatch'')
           else
             let manifest = \<lparr>mm_version = version, mm_network_id = network_id,
                             mm_purchase_nonce = purchase_nonce,
                             mm_licenses = read_entries count (drop 42 bs)\<rparr>
             in rbind (map_err ProtErr (MutLicenseManifestV1_validate manifest)) (\<lambda>_. Inr manifest))"

definition decode_native_purchase_operation ::
    "ProtocolOperationV1 \<Rightarrow> NodeError + LicensePurchaseMutV1" where
  "decode_native_purchase_operation op =
     (if op_op_type op \<noteq> OP_LICENSE_PURCHASE_MUT \<or> op_op_version op \<noteq> 1
      then Inl (Msg ''operation is not a V1 native Mining License purchase'')
      else if length (op_payload op) < 35
      then Inl (Msg ''native Mining License purchase payload is truncated'')
      else
        let payment_txid = take 32 (op_payload op);
            payment_output_index = from_be_bytes (take 2 (drop 32 (op_payload op)))
        in rbind (map_err CodecErr (read_varuint (drop 34 (op_payload op)))) (\<lambda>(manifest_len, input).
             if length input \<noteq> unat manifest_len
             then Inl (Msg ''native Mining License purchase manifest length mismatch'')
             else rbind (decode_mut_manifest input) (\<lambda>manifest.
                    Inr \<lparr>pm_payment_txid = payment_txid,
                         pm_payment_output_index = payment_output_index,
                         pm_manifest = manifest\<rparr>)))"

definition decode_license_transfer_operation :: "ProtocolOperationV1 \<Rightarrow> NodeError + LicenseTransferV1" where
  "decode_license_transfer_operation op =
     (if op_op_type op \<noteq> OP_LICENSE_TRANSFER \<or> op_op_version op \<noteq> 1
      then Inl (Msg ''operation is not a V1 Mining License transfer'')
      else if length (op_payload op) \<noteq> 168
      then Inl (Msg ''Mining License transfer payload must be exactly 168 bytes'')
      else let p = op_payload op
           in Inr \<lparr>tr_license_id = take 32 p,
                  tr_expected_owner_sequence = from_be_bytes (take 4 (drop 32 p)),
                  tr_expected_mining_sequence = from_be_bytes (take 4 (drop 36 p)),
                  tr_new_owner_public_key = take 32 (drop 40 p),
                  tr_new_mining_public_key = take 32 (drop 72 p),
                  tr_owner_signature = take 64 (drop 104 p)\<rparr>)"

definition decode_mining_key_rotation_operation ::
    "ProtocolOperationV1 \<Rightarrow> NodeError + MiningKeyRotateV1" where
  "decode_mining_key_rotation_operation op =
     (if op_op_type op \<noteq> OP_LICENSE_MINING_KEY_ROTATE \<or> op_op_version op \<noteq> 1
      then Inl (Msg ''operation is not a V1 Mining License mining-key rotation'')
      else if length (op_payload op) \<noteq> 136
      then Inl (Msg ''Mining License mining-key rotation payload must be exactly 136 bytes'')
      else let p = op_payload op
           in Inr \<lparr>rot_license_id = take 32 p,
                  rot_expected_owner_sequence = from_be_bytes (take 4 (drop 32 p)),
                  rot_expected_mining_sequence = from_be_bytes (take 4 (drop 36 p)),
                  rot_new_mining_public_key = take 32 (drop 40 p),
                  rot_owner_signature = take 64 (drop 72 p)\<rparr>)"

definition authority_operation_license_id :: "ProtocolOperationV1 \<Rightarrow> NodeError + bytes option" where
  "authority_operation_license_id op =
     (if op_op_type op = OP_LICENSE_TRANSFER
      then rbind (decode_license_transfer_operation op) (\<lambda>t. Inr (Some (tr_license_id t)))
      else if op_op_type op = OP_LICENSE_MINING_KEY_ROTATE
      then rbind (decode_mining_key_rotation_operation op) (\<lambda>r. Inr (Some (rot_license_id r)))
      else Inr None)"

definition decode_claim_operation :: "ProtocolOperationV1 \<Rightarrow> NodeError + DividendClaimV1" where
  "decode_claim_operation op =
     (if op_op_type op \<noteq> OP_DIVIDEND_CLAIM \<or> op_op_version op \<noteq> 1
      then Inl (Msg ''operation is not a V1 dividend claim'')
      else if length (op_payload op) \<noteq> 172
      then Inl (Msg ''V1 dividend claim payload must be exactly 172 bytes'')
      else let p = op_payload op
           in Inr \<lparr>dc_license_id = take 32 p,
                  dc_expected_owner_sequence = from_be_bytes (take 4 (drop 32 p)),
                  dc_amount_strikes = from_be_bytes (take 8 (drop 36 p)),
                  dc_destination_address_id = take 32 (drop 44 p),
                  dc_payment_txid = take 32 (drop 76 p),
                  dc_owner_signature = take 64 (drop 108 p)\<rparr>)"

section \<open>Monetary schedule and difficulty\<close>

definition subsidy :: "u64 \<Rightarrow> u64" where
  "subsidy epoch =
     (let era = epoch div ERA_LENGTH
      in if era \<ge> 64 then 0 else drop_bit (unat era) (8 * STRIKES_PER_MUT))"

definition adjusted_base_fee_rate :: "u64 \<Rightarrow> u64 \<Rightarrow> NodeError + u64" where
  "adjusted_base_fee_rate current block_weight =
     (if block_weight = BLOCK_WEIGHT_TARGET then Inr current
      else
        let (difference, increase) =
              (if block_weight > BLOCK_WEIGHT_TARGET then (block_weight - BLOCK_WEIGHT_TARGET, True)
               else (BLOCK_WEIGHT_TARGET - block_weight, False))
        in rbind (ok_or (Msg ''Base Fee multiplication overflow'')
                   (checked_mul (ucast current :: u128) (ucast difference))) (\<lambda>numerator.
           let denominator = 64 * (ucast BLOCK_WEIGHT_TARGET :: u128);
               delta128 = numerator div denominator
           in if unat delta128 \<ge> 2 ^ 64 then Inl (Msg ''Base Fee delta overflow'')
              else let delta = ucast delta128 :: u64
                   in if increase then Inr (min (saturating_add current delta) BASE_FEE_MAX_Q32)
                      else Inr (max (saturating_sub current delta) BASE_FEE_MIN_Q32)))"

definition count_ones64 :: "u64 \<Rightarrow> nat" where
  "count_ones64 w = length (filter (bit w) [0..<64])"

definition saturating_mul :: "'a::len word \<Rightarrow> 'a word \<Rightarrow> 'a word" where
  "saturating_mul a b = (if unat a * unat b < 2 ^ LENGTH('a) then a * b else - 1)"

definition correction_step :: "u64 \<Rightarrow> u64 \<Rightarrow> NodeError + u64" where
  "correction_step current multiplier_q32 =
     (let v = drop_bit 32 ((ucast current :: u128) * ucast multiplier_q32)
      in if unat v < 2 ^ 64 then Inr (ucast v) else Inl (Msg ''difficulty correction overflow''))"

definition append_history_values :: "u8 \<Rightarrow> u64 \<Rightarrow> u64 \<Rightarrow> bool \<Rightarrow> NodeError + (u8 \<times> u64 \<times> u64)" where
  "append_history_values count bitmap correction success =
     (let result = (if success then 1 else 0) :: u64;
          (count, bitmap) =
            (if count < 64 then (count + 1, or bitmap (push_bit (unat count) result))
             else (count, or (drop_bit 1 bitmap) (push_bit 63 result)));
          r = ucast count :: u64;
          s = of_nat (count_ones64 bitmap) :: u64
      in if saturating_mul 64 s < saturating_mul 40 r
         then rbind (correction_step correction DIFFICULTY_EASIER_STEP_Q32) (\<lambda>c.
                Inr (count, bitmap, min c DIFFICULTY_C_MAX_Q32))
         else if saturating_mul 64 s > saturating_mul 41 r
         then rbind (correction_step correction DIFFICULTY_HARDER_STEP_Q32) (\<lambda>c.
                Inr (count, bitmap, max c DIFFICULTY_C_MIN_Q32))
         else Inr (count, bitmap, correction))"

definition append_difficulty_result :: "DevnetState \<Rightarrow> bool \<Rightarrow> NodeError + DevnetState" where
  "append_difficulty_result state success =
     rbind (append_history_values (ds_difficulty_history_count state)
              (ds_difficulty_history_bitmap state) (ds_difficulty_correction_q32 state) success)
       (\<lambda>(count, bitmap, correction).
          Inr (state\<lparr>ds_difficulty_history_count := count, ds_difficulty_history_bitmap := bitmap,
                     ds_difficulty_correction_q32 := correction\<rparr>))"

section \<open>Amounts of the command line\<close>

text \<open>A Rust string is its UTF-8 bytes, one \<open>char\<close> each. \<open>digits_value\<close>, \<open>parse_u64\<close>, \<open>show_nat\<close>
  and \<open>split_on\<close> are what the standard library's integer parser and formatter and \<open>str::split\<close> do
  on the strings used here.\<close>

definition is_ascii_digit :: "char \<Rightarrow> bool" where
  "is_ascii_digit c \<longleftrightarrow> 48 \<le> (of_char c :: nat) \<and> (of_char c :: nat) \<le> 57"

definition digit_value :: "char \<Rightarrow> nat" where
  "digit_value c = of_char c - 48"

definition digit_char :: "nat \<Rightarrow> char" where
  "digit_char d = char_of (48 + d)"

definition digits_value :: "string \<Rightarrow> nat" where
  "digits_value s = foldl (\<lambda>acc c. acc * 10 + digit_value c) 0 s"

definition parse_u64 :: "string \<Rightarrow> u64 option" where
  "parse_u64 s =
     (let ds = (if s \<noteq> [] \<and> hd s = CHR ''+'' then tl s else s)
      in if ds \<noteq> [] \<and> list_all is_ascii_digit ds \<and> digits_value ds < 2 ^ 64
         then Some (of_nat (digits_value ds)) else None)"

fun show_nat :: "nat \<Rightarrow> string" where
  "show_nat n = (if n < 10 then [digit_char n] else show_nat (n div 10) @ [digit_char (n mod 10)])"

declare show_nat.simps [simp del]

definition show_padded :: "nat \<Rightarrow> nat \<Rightarrow> string" where
  "show_padded k n = (let s = show_nat n in replicate (k - length s) CHR ''0'' @ s)"

fun split_on :: "char \<Rightarrow> string \<Rightarrow> string list" where
  "split_on d [] = [[]]"
| "split_on d (c # cs) =
     (if c = d then [] # split_on d cs
      else case split_on d cs of [] \<Rightarrow> [[c]] | w # ws \<Rightarrow> (c # w) # ws)"

definition parse_mut_amount :: "string \<Rightarrow> NodeError + u64" where
  "parse_mut_amount s =
     (if s = [] \<or> hd s = CHR ''-'' \<or> hd s = CHR ''+''
      then Inl (Msg ''amount must be a positive decimal MUT value'')
      else
        let parts = split_on (CHR ''.'') s;
            whole = hd parts;
            frac = (case tl parts of [] \<Rightarrow> [] | f # _ \<Rightarrow> f)
        in if length parts > 2 \<or> whole = [] \<or> length frac > 8
           then Inl (Msg ''amount must have at most 8 decimal places'')
           else if \<not> list_all is_ascii_digit whole \<or> \<not> list_all is_ascii_digit frac
           then Inl (Msg ''amount contains non-decimal characters'')
           else rbind (ok_or (Msg ''amount is too large'') (parse_u64 whole)) (\<lambda>whole_value.
             let frac_text = frac @ replicate (8 - length frac) CHR ''0''
             in rbind (if frac_text = [] then Inr 0
                       else ok_or (Msg ''invalid fractional amount'') (parse_u64 frac_text)) (\<lambda>frac_value.
                  ok_or (Msg ''amount is too large'')
                    (case checked_mul whole_value STRIKES_PER_MUT of None \<Rightarrow> None
                     | Some v \<Rightarrow> checked_add v frac_value))))"

definition format_mut :: "u64 \<Rightarrow> string" where
  "format_mut strikes =
     show_nat (unat (strikes div STRIKES_PER_MUT)) @ ''.'' @
     show_padded 8 (unat (strikes mod STRIKES_PER_MUT))"


section \<open>Hexadecimal text\<close>

lemma hex_decode_encode: "hex_sound X \<Longrightarrow> hex_decode X (hex_encode X bs) = Inr bs"
  by (simp add: hex_sound_def)

lemma hex_encode_inject: "hex_sound X \<Longrightarrow> hex_encode X a = hex_encode X b \<longleftrightarrow> a = b"
  by (metis hex_decode_encode sum.inject(2))

lemma decode32_encode: "hex_sound X \<Longrightarrow> length bs = 32 \<Longrightarrow> decode32 X (hex_encode X bs) = Inr bs"
  by (simp add: decode32_def hex_decode_encode)

lemma decode32_length: "decode32 X s = Inr bs \<Longrightarrow> length bs = 32"
  by (auto simp: decode32_def split: if_splits)

section \<open>Folds over results\<close>

lemma try_fold_sum:
  fixes a :: "'a::len word"
  shows "try_fold (\<lambda>acc x. ok_or e (checked_add acc (f x))) a xs = Inr b \<Longrightarrow>
    unat b = unat a + (\<Sum>x\<leftarrow>xs. unat (f x))"
  by (induction xs arbitrary: a) (auto simp: checked_add_Some_iff)

lemma try_fold_sum_ok:
  fixes a :: "'a::len word"
  shows "unat a + (\<Sum>x\<leftarrow>xs. unat (f x)) < 2 ^ LENGTH('a) \<Longrightarrow>
    \<exists>b. try_fold (\<lambda>acc x. ok_or e (checked_add acc (f x))) a xs = Inr b"
proof (induction xs arbitrary: a)
  case (Cons x xs)
  then obtain c where c: "checked_add a (f x) = Some c" "unat c = unat a + unat (f x)"
    using checked_add_ok [of a "f x"] by auto
  then show ?case using Cons by (simp add: add.assoc)
qed simp

lemma try_map_Inr_length: "try_map f xs = Inr ys \<Longrightarrow> length ys = length xs"
  by (induction xs arbitrary: ys) auto

lemma try_map_Inr_iff: "try_map f xs = Inr ys \<longleftrightarrow> list_all2 (\<lambda>x y. f x = Inr y) xs ys"
  by (induction xs arbitrary: ys) (auto simp: list_all2_Cons1)

section \<open>The decoders accept exactly the encodings\<close>

definition wf_transfer :: "LicenseTransferV1 \<Rightarrow> bool" where
  "wf_transfer t \<longleftrightarrow> arr 32 (tr_license_id t) \<and> arr 32 (tr_new_owner_public_key t) \<and>
     arr 32 (tr_new_mining_public_key t) \<and> arr 64 (tr_owner_signature t)"

definition wf_rotation :: "MiningKeyRotateV1 \<Rightarrow> bool" where
  "wf_rotation r \<longleftrightarrow> arr 32 (rot_license_id r) \<and> arr 32 (rot_new_mining_public_key r) \<and>
     arr 64 (rot_owner_signature r)"

definition wf_claim :: "DividendClaimV1 \<Rightarrow> bool" where
  "wf_claim c \<longleftrightarrow> arr 32 (dc_license_id c) \<and> arr 32 (dc_destination_address_id c) \<and>
     arr 32 (dc_payment_txid c) \<and> arr 64 (dc_owner_signature c)"

lemma take_take_drop: "take n xs @ take k (drop n xs) = take (n + k) xs"
  by (simp add: take_add)

lemma decode_license_transfer_iff:
  "decode_license_transfer_operation op = Inr t \<longleftrightarrow> wf_transfer t \<and> op = LicenseTransferV1_operation t"
proof
  assume d: "decode_license_transfer_operation op = Inr t"
  let ?p = "op_payload op"
  have len: "length ?p = 168" and ty: "op_op_type op = OP_LICENSE_TRANSFER" "op_op_version op = 1"
    and t: "t = \<lparr>tr_license_id = take 32 ?p, tr_expected_owner_sequence = from_be_bytes (take 4 (drop 32 ?p)),
       tr_expected_mining_sequence = from_be_bytes (take 4 (drop 36 ?p)), tr_new_owner_public_key = take 32 (drop 40 ?p),
       tr_new_mining_public_key = take 32 (drop 72 ?p), tr_owner_signature = take 64 (drop 104 ?p)\<rparr>"
    using d by (auto simp: decode_license_transfer_operation_def Let_def split: if_splits)
  have "take 32 ?p @ take 4 (drop 32 ?p) @ take 4 (drop 36 ?p) @ take 32 (drop 40 ?p) @ take 32 (drop 72 ?p)
      @ take 64 (drop 104 ?p) = ?p"
    using len by (simp add: append_assoc [symmetric] take_take_drop del: append_assoc)
  then have "LicenseTransferV1_unsigned_payload t @ tr_owner_signature t = ?p"
    using len by (simp add: t LicenseTransferV1_unsigned_payload_def Let_def to_from_be_bytes)
  then show "wf_transfer t \<and> op = LicenseTransferV1_operation t"
    using ty len by (simp add: LicenseTransferV1_operation_def wf_transfer_def t)
next
  assume "wf_transfer t \<and> op = LicenseTransferV1_operation t"
  then show "decode_license_transfer_operation op = Inr t"
    by (cases t) (simp add: decode_license_transfer_operation_def LicenseTransferV1_operation_def Let_def
        wf_transfer_def LicenseTransferV1_unsigned_payload_def from_to_be_bytes)
qed

lemma decode_mining_key_rotation_iff:
  "decode_mining_key_rotation_operation op = Inr r \<longleftrightarrow> wf_rotation r \<and> op = MiningKeyRotateV1_operation r"
proof
  assume d: "decode_mining_key_rotation_operation op = Inr r"
  let ?p = "op_payload op"
  have len: "length ?p = 136" and ty: "op_op_type op = OP_LICENSE_MINING_KEY_ROTATE" "op_op_version op = 1"
    and r: "r = \<lparr>rot_license_id = take 32 ?p, rot_expected_owner_sequence = from_be_bytes (take 4 (drop 32 ?p)),
       rot_expected_mining_sequence = from_be_bytes (take 4 (drop 36 ?p)), rot_new_mining_public_key = take 32 (drop 40 ?p),
       rot_owner_signature = take 64 (drop 72 ?p)\<rparr>"
    using d by (auto simp: decode_mining_key_rotation_operation_def Let_def split: if_splits)
  have "take 32 ?p @ take 4 (drop 32 ?p) @ take 4 (drop 36 ?p) @ take 32 (drop 40 ?p) @ take 64 (drop 72 ?p) = ?p"
    using len by (simp add: append_assoc [symmetric] take_take_drop del: append_assoc)
  then have "MiningKeyRotateV1_unsigned_payload r @ rot_owner_signature r = ?p"
    using len by (simp add: r MiningKeyRotateV1_unsigned_payload_def Let_def to_from_be_bytes)
  then show "wf_rotation r \<and> op = MiningKeyRotateV1_operation r"
    using ty len by (simp add: MiningKeyRotateV1_operation_def wf_rotation_def r)
next
  assume "wf_rotation r \<and> op = MiningKeyRotateV1_operation r"
  then show "decode_mining_key_rotation_operation op = Inr r"
    by (cases r) (simp add: decode_mining_key_rotation_operation_def MiningKeyRotateV1_operation_def Let_def
        wf_rotation_def MiningKeyRotateV1_unsigned_payload_def from_to_be_bytes)
qed

lemma decode_claim_iff:
  "decode_claim_operation op = Inr c \<longleftrightarrow> wf_claim c \<and> op = DividendClaimV1_operation c"
proof
  assume d: "decode_claim_operation op = Inr c"
  let ?p = "op_payload op"
  have len: "length ?p = 172" and ty: "op_op_type op = OP_DIVIDEND_CLAIM" "op_op_version op = 1"
    and c: "c = \<lparr>dc_license_id = take 32 ?p, dc_expected_owner_sequence = from_be_bytes (take 4 (drop 32 ?p)),
       dc_amount_strikes = from_be_bytes (take 8 (drop 36 ?p)), dc_destination_address_id = take 32 (drop 44 ?p),
       dc_payment_txid = take 32 (drop 76 ?p), dc_owner_signature = take 64 (drop 108 ?p)\<rparr>"
    using d by (auto simp: decode_claim_operation_def Let_def split: if_splits)
  have "take 32 ?p @ take 4 (drop 32 ?p) @ take 8 (drop 36 ?p) @ take 32 (drop 44 ?p) @ take 32 (drop 76 ?p)
      @ take 64 (drop 108 ?p) = ?p"
    using len by (simp add: append_assoc [symmetric] take_take_drop del: append_assoc)
  then have "DividendClaimV1_unsigned_payload c @ dc_owner_signature c = ?p"
    using len by (simp add: c DividendClaimV1_unsigned_payload_def Let_def to_from_be_bytes)
  then show "wf_claim c \<and> op = DividendClaimV1_operation c"
    using ty len by (simp add: DividendClaimV1_operation_def wf_claim_def c)
next
  assume "wf_claim c \<and> op = DividendClaimV1_operation c"
  then show "decode_claim_operation op = Inr c"
    by (cases c) (simp add: decode_claim_operation_def DividendClaimV1_operation_def Let_def
        wf_claim_def DividendClaimV1_unsigned_payload_def from_to_be_bytes)
qed


lemma decode_protocol_operation_iff:
  "decode_protocol_operation_bytes bs = Inr op \<longleftrightarrow>
     length (op_payload op) < 2 ^ 64 \<and> bs = ProtocolOperationV1_encode op"
proof
  assume d: "decode_protocol_operation_bytes bs = Inr op"
  then obtain pl input where r: "read_varuint (drop 4 bs) = Inr (pl, input)" and len: "length input = unat pl"
    and five: "5 \<le> length bs"
    and op: "op = \<lparr>op_op_type = from_be_bytes (take 2 bs), op_op_version = from_be_bytes (take 2 (drop 2 bs)), op_payload = input\<rparr>"
    by (auto simp: decode_protocol_operation_bytes_def Let_def not_less split: if_splits prod.splits)
  have bs: "bs = take 2 bs @ take 2 (drop 2 bs) @ encode_varuint pl @ input"
    using read_varuint_sound [OF r]
    by (metis append_assoc append_take_drop_id drop_drop numeral_Bit0 one_add_one)
  have pl: "pl = of_nat (length input)" by (simp add: len)
  have l: "length (take 2 bs) = 2" "length (take 2 (drop 2 bs)) = 2" using five by auto
  have "ProtocolOperationV1_encode op = take 2 bs @ take 2 (drop 2 bs) @ encode_varuint pl @ input"
    using l by (simp add: ProtocolOperationV1_encode_def op Let_def wire_simps to_from_be_bytes pl)
  then show "length (op_payload op) < 2 ^ 64 \<and> bs = ProtocolOperationV1_encode op"
    using bs unat_less_2p [of pl] by (simp add: op len)
next
  assume a: "length (op_payload op) < 2 ^ 64 \<and> bs = ProtocolOperationV1_encode op"
  have ne: "encode_varuint v \<noteq> []" for v
    using read_varuint_encode [of v "[]"] by (auto simp: read_varuint_def Let_def read_varuint_loop.simps)
  have "bs = to_be_bytes (op_op_type op) @ to_be_bytes (op_op_version op)
      @ encode_varuint (of_nat (length (op_payload op))) @ op_payload op"
    using a by (simp add: ProtocolOperationV1_encode_def Let_def wire_simps)
  moreover have "0 < length (encode_varuint (of_nat (length (op_payload op))))"
    using ne by simp
  ultimately have "bs = to_be_bytes (op_op_type op) @ to_be_bytes (op_op_version op)
      @ encode_varuint (of_nat (length (op_payload op))) @ op_payload op" and "\<not> length bs < 5"
    by simp_all
  moreover have "unat (of_nat (length (op_payload op)) :: u64) = length (op_payload op)"
    using a by (simp add: unat_of_nat)
  ultimately show "decode_protocol_operation_bytes bs = Inr op"
    by (simp add: decode_protocol_operation_bytes_def Let_def read_varuint_encode from_to_be_bytes)
qed

section \<open>Monetary schedule\<close>

lemma unat_subsidy:
  "unat (subsidy e) = (if unat e div 2 ^ 21 < 64 then 800000000 div 2 ^ (unat e div 2 ^ 21) else 0)"
proof -
  have era: "unat (e div ERA_LENGTH) = unat e div 2 ^ 21"
    by (simp add: ERA_LENGTH_def unat_div)
  have ge: "e div ERA_LENGTH \<ge> 64 \<longleftrightarrow> \<not> unat e div 2 ^ 21 < 64"
    by (simp add: word_le_nat_alt era not_less)
  have "unat (drop_bit n (800000000 :: u64)) = 800000000 div 2 ^ n" for n
    by (simp only: unat_drop_bit_eq) (simp add: drop_bit_eq_div)
  then show ?thesis
    unfolding subsidy_def Let_def ge era by (simp add: STRIKES_PER_MUT_def)
qed

lemma sum_by_era: "(\<Sum>e<K * L. f (e div L)) = L * (\<Sum>k<K. f k)" for f :: "nat \<Rightarrow> nat"
proof (cases "L = 0")
  case False
  have "(\<Sum>e\<in>{k * L..<k * L + L}. f (e div L)) = L * f k" for k
  proof -
    have "e div L = k" if "e \<in> {k * L..<k * L + L}" for e
      using that False by (auto intro!: div_nat_eqI simp: mult.commute algebra_simps)
    then show ?thesis by simp
  qed
  then show ?thesis
    using sum.nat_group [of "\<lambda>e. f (e div L)" L K] by (simp add: sum_distrib_left)
qed simp

lemma subsidy_sum_le: "(\<Sum>e\<in>A. unat (subsidy e)) \<le> 33554432 * 10 ^ 8" for A :: "u64 set"
proof -
  let ?f = "\<lambda>k. if k < 64 then 800000000 div 2 ^ k else (0 :: nat)"
  have "(\<Sum>e\<in>A. unat (subsidy e)) \<le> (\<Sum>e\<in>UNIV. unat (subsidy e))"
    by (rule sum_mono2) auto
  also have "\<dots> = (\<Sum>n\<in>unat ` (UNIV :: u64 set). ?f (n div 2 ^ 21))"
    by (subst sum.reindex) (auto simp: unat_subsidy intro!: inj_onI word_unat_eq_iff [THEN iffD2])
  also have "\<dots> = (\<Sum>n\<in>unat ` (UNIV :: u64 set) \<inter> {..<64 * 2 ^ 21}. ?f (n div 2 ^ 21))"
    by (rule sum.mono_neutral_right) (auto simp: not_less less_mult_imp_div_less div_less_iff_less_mult)
  also have "\<dots> \<le> (\<Sum>n<64 * 2 ^ 21. ?f (n div 2 ^ 21))"
    by (rule sum_mono2) auto
  also have "\<dots> = 2 ^ 21 * (\<Sum>k<64. ?f k)"
    by (rule sum_by_era)
  also have "\<dots> \<le> 33554432 * 10 ^ 8"
    by (simp add: lessThan_nat_numeral lessThan_Suc)
  finally show ?thesis .
qed


text \<open>The base fee rate over the natural numbers: it moves by the deviation from the target weight,
  at most by a sixty-fourth, within its bounds.\<close>

definition fee_rate_spec :: "nat \<Rightarrow> nat \<Rightarrow> nat" where
  "fee_rate_spec c w =
     (if 2 ^ 16 \<le> w then min (c + c * (w - 2 ^ 16) div 2 ^ 22) (2 ^ 52)
      else max (c - c * (2 ^ 16 - w) div 2 ^ 22) (2 ^ 32))"

lemma fee_delta_le: "d \<le> 2 ^ 16 \<Longrightarrow> c * d div 2 ^ 22 \<le> c" for c d :: nat
proof -
  assume "d \<le> 2 ^ 16"
  then have "c * d \<le> c * 2 ^ 22" by (intro mult_le_mono) auto
  then show ?thesis by (metis div_le_mono nonzero_mult_div_cancel_right power_not_zero zero_neq_numeral)
qed

lemma adjusted_base_fee_rate_spec:
  assumes c: "BASE_FEE_MIN_Q32 \<le> c" "c \<le> BASE_FEE_MAX_Q32" and w: "w \<le> BLOCK_WEIGHT_MAX"
  shows "\<exists>r. adjusted_base_fee_rate c w = Inr r \<and> unat r = fee_rate_spec (unat c) (unat w)"
proof -
  have cb: "2 ^ 32 \<le> unat c" "unat c \<le> 2 ^ 52" and wb: "unat w \<le> 2 ^ 17"
    using c w by (simp_all add: word_le_nat_alt BASE_FEE_MIN_Q32_def BASE_FEE_MAX_Q32_def BLOCK_WEIGHT_MAX_def)
  have t: "unat BLOCK_WEIGHT_TARGET = 2 ^ 16" by (simp add: BLOCK_WEIGHT_TARGET_def)
  show ?thesis
  proof (cases "w = BLOCK_WEIGHT_TARGET")
    case True
    then show ?thesis
      using cb by (simp add: adjusted_base_fee_rate_def fee_rate_spec_def t)
  next
    case False
    then have ne: "unat w \<noteq> 2 ^ 16" by (metis t word_unat_eq_iff)
    define d where "d = (if w > BLOCK_WEIGHT_TARGET then w - BLOCK_WEIGHT_TARGET else BLOCK_WEIGHT_TARGET - w)"
    have gt: "w > BLOCK_WEIGHT_TARGET \<longleftrightarrow> 2 ^ 16 < unat w"
      by (simp add: word_less_nat_alt t)
    have ud: "unat d = (if 2 ^ 16 < unat w then unat w - 2 ^ 16 else 2 ^ 16 - unat w)"
      using ne by (auto simp: d_def gt unat_sub word_le_nat_alt t)
    have d16: "unat d \<le> 2 ^ 16" using wb by (auto simp: ud)
    have prod: "unat c * unat d \<le> 2 ^ 52 * 2 ^ 16" using cb d16 by (intro mult_le_mono) auto
    then have small: "unat c * unat d < 2 ^ 128" by (rule le_less_trans) simp
    define num where "num = (ucast c :: u128) * ucast d"
    have mul: "checked_mul (ucast c :: u128) (ucast d) = Some num"
      using small by (simp add: checked_mul_def num_def unat_ucast_up)
    have unum: "unat num = unat c * unat d"
      using small by (simp add: num_def unat_word_ariths unat_ucast_up)
    have den: "64 * (ucast BLOCK_WEIGHT_TARGET :: u128) = 2 ^ 22"
      by (simp add: BLOCK_WEIGHT_TARGET_def)
    define q where "q = num div (64 * (ucast BLOCK_WEIGHT_TARGET :: u128))"
    have uq: "unat q = unat c * unat d div 2 ^ 22"
      unfolding q_def den by (simp add: unat_div unum)
    have ql: "unat q \<le> unat c" unfolding uq by (rule fee_delta_le [OF d16])
    then have q64: "unat q < 2 ^ 64" using cb(2) by (rule le_less_trans [OF order_trans]) simp
    have uq64: "unat (ucast q :: u64) = unat q"
      using q64 by (simp add: unsigned_ucast_eq take_bit_nat_eq_self)
    have eq: "adjusted_base_fee_rate c w =
      (if BLOCK_WEIGHT_TARGET < w then Inr (min (saturating_add c (ucast q)) BASE_FEE_MAX_Q32)
       else Inr (max (saturating_sub c (ucast q)) BASE_FEE_MIN_Q32))"
      using False mul q64
      by (cases "w > BLOCK_WEIGHT_TARGET") (simp_all add: adjusted_base_fee_rate_def d_def q_def)
    have sadd: "unat (saturating_add c (ucast q)) = unat c + unat q"
    proof -
      have "unat c + unat (ucast q :: u64) < 2 ^ 64" using ql cb(2) by (simp add: uq64)
      then show ?thesis by (simp add: saturating_add_def unat_add_lem [THEN iffD1] uq64)
    qed
    have ssub: "unat (saturating_sub c (ucast q)) = unat c - unat q"
      using ql by (simp add: saturating_sub_def word_le_nat_alt unat_sub uq64)
    have mn: "unat (min a b) = min (unat a) (unat b)" and mx: "unat (max a b) = max (unat a) (unat b)" for a b :: u64
      by (simp_all add: min_def max_def word_le_nat_alt)
    have bounds: "unat BASE_FEE_MIN_Q32 = 2 ^ 32" "unat BASE_FEE_MAX_Q32 = 2 ^ 52"
      by (simp_all add: BASE_FEE_MIN_Q32_def BASE_FEE_MAX_Q32_def)
    show ?thesis
      using ne unfolding eq gt
      by (cases "2 ^ 16 < unat w") (simp_all add: mn mx bounds sadd ssub uq ud fee_rate_spec_def)
  qed
qed

section \<open>The difficulty controller\<close>

text \<open>The bitmap and its count stand for the list of the last outcomes, the oldest first.\<close>

definition history_of :: "u8 \<Rightarrow> u64 \<Rightarrow> bool list \<Rightarrow> bool" where
  "history_of count bitmap hs \<longleftrightarrow>
     length hs = unat count \<and> length hs \<le> 64 \<and> (\<forall>i<64. bit bitmap i \<longleftrightarrow> i < length hs \<and> hs ! i)"

definition push_outcome :: "bool list \<Rightarrow> bool \<Rightarrow> bool list" where
  "push_outcome hs b = (if length hs < 64 then hs @ [b] else tl hs @ [b])"

definition correction_spec :: "bool list \<Rightarrow> nat \<Rightarrow> nat" where
  "correction_spec hs c =
     (let r = length hs; s = length (filter id hs)
      in if 64 * s < 40 * r then min (c * 4341736423 div 2 ^ 32) (2 ^ 48)
         else if 41 * r < 64 * s then max (c * 4248701965 div 2 ^ 32) (2 ^ 16)
         else c)"

lemma count_ones_history:
  assumes "history_of count bitmap hs"
  shows "count_ones64 bitmap = length (filter id hs)"
proof -
  have "count_ones64 bitmap = card {i. i < 64 \<and> bit bitmap i}"
    by (simp add: count_ones64_def length_filter_conv_card cong: conj_cong)
  also have "{i. i < 64 \<and> bit bitmap i} = {i. i < length hs \<and> id (hs ! i)}"
    using assms by (auto simp: history_of_def)
  finally show ?thesis by (simp add: length_filter_conv_card)
qed

lemma history_of_push:
  assumes h: "history_of count bitmap hs"
  shows "history_of (if count < 64 then count + 1 else count)
     (if count < 64 then or bitmap (push_bit (unat count) (if b then 1 else 0))
      else or (drop_bit 1 bitmap) (push_bit 63 (if b then 1 else 0))) (push_outcome hs b)"
proof (cases "count < 64")
  case True
  then have c: "unat count < 64" by (simp add: word_less_nat_alt)
  then have "unat (count + 1) = Suc (unat count)"
    by (simp add: unat_add_lem [THEN iffD1] unat_plus_simple [THEN iffD1])
  then show ?thesis
    using True c h
    by (auto simp: history_of_def push_outcome_def bit_simps nth_append less_Suc_eq)
next
  case False
  then have "64 \<le> unat count" by (simp add: word_le_nat_alt not_less)
  then have c: "length hs = 64" "unat count = 64" using h by (auto simp: history_of_def)
  moreover have "\<not> bit bitmap (Suc i)" if "\<not> i < 63" for i
    using that bit_imp_le_length [of bitmap "Suc i"] by auto
  ultimately show ?thesis
    using False h
    by (auto simp: history_of_def push_outcome_def bit_simps nth_append nth_tl)
qed


lemma correction_step_spec:
  assumes "unat c \<le> 2 ^ 48" "unat m < 2 ^ 33"
  shows "\<exists>v. correction_step c m = Inr v \<and> unat v = unat c * unat m div 2 ^ 32"
proof -
  have "unat c * unat m \<le> 2 ^ 48 * 2 ^ 33" using assms by (intro mult_le_mono) auto
  then have small: "unat c * unat m < 2 ^ 82" by (rule le_less_trans) simp
  define v where "v = drop_bit 32 ((ucast c :: u128) * ucast m)"
  have uv: "unat v = unat c * unat m div 2 ^ 32"
    using small by (simp add: v_def unat_drop_bit_eq drop_bit_eq_div unat_word_ariths unat_ucast_up)
  then have "unat v < 2 ^ 64"
    using small by (simp add: div_less_iff_less_mult)
  moreover from this have "unat (ucast v :: u64) = unat v"
    by (simp add: unsigned_ucast_eq take_bit_nat_eq_self)
  ultimately show ?thesis
    by (simp add: correction_step_def v_def [symmetric] uv)
qed

lemma append_history_spec:
  assumes h: "history_of count bitmap hs" and c: "DIFFICULTY_C_MIN_Q32 \<le> c" "c \<le> DIFFICULTY_C_MAX_Q32"
  shows "\<exists>count' bitmap' c'. append_history_values count bitmap c b = Inr (count', bitmap', c') \<and>
     history_of count' bitmap' (push_outcome hs b) \<and>
     unat c' = correction_spec (push_outcome hs b) (unat c) \<and>
     DIFFICULTY_C_MIN_Q32 \<le> c' \<and> c' \<le> DIFFICULTY_C_MAX_Q32"
proof -
  define count' where "count' = (if count < 64 then count + 1 else count)"
  define bitmap' where "bitmap' = (if count < 64 then or bitmap (push_bit (unat count) (if b then 1 else 0))
      else or (drop_bit 1 bitmap) (push_bit 63 (if b then 1 else 0)))"
  let ?hs = "push_outcome hs b"
  have h': "history_of count' bitmap' ?hs"
    unfolding count'_def bitmap'_def by (rule history_of_push [OF h])
  let ?r = "length ?hs" and ?s = "length (filter id ?hs)"
  have r: "unat (ucast count' :: u64) = ?r" and r64: "?r \<le> 64"
    using h' by (auto simp: history_of_def unat_ucast_up)
  have s64: "?s \<le> 64" using r64 length_filter_le [of id ?hs] by linarith
  have s: "unat (of_nat (count_ones64 bitmap') :: u64) = ?s"
    using s64 by (simp add: count_ones_history [OF h'] unat_of_nat)
  have m: "unat (saturating_mul k x) = unat k * unat x" if "unat x \<le> 64" "unat k \<le> 64" for k x :: u64
  proof -
    have "unat k * unat x \<le> 64 * 64" using that by (intro mult_le_mono)
    then show ?thesis by (simp add: saturating_mul_def unat_word_ariths)
  qed
  have cond: "saturating_mul 64 (of_nat (count_ones64 bitmap')) < saturating_mul 40 (ucast count' :: u64) \<longleftrightarrow> 64 * ?s < 40 * ?r"
    "saturating_mul 41 (ucast count' :: u64) < saturating_mul 64 (of_nat (count_ones64 bitmap')) \<longleftrightarrow> 41 * ?r < 64 * ?s"
    using r64 s64 by (simp_all add: word_less_nat_alt m r s)
  have eq: "append_history_values count bitmap c b =
     (if 64 * ?s < 40 * ?r then rbind (correction_step c DIFFICULTY_EASIER_STEP_Q32) (\<lambda>c. Inr (count', bitmap', min c DIFFICULTY_C_MAX_Q32))
      else if 41 * ?r < 64 * ?s then rbind (correction_step c DIFFICULTY_HARDER_STEP_Q32) (\<lambda>c. Inr (count', bitmap', max c DIFFICULTY_C_MIN_Q32))
      else Inr (count', bitmap', c))"
    unfolding cond [symmetric] by (simp add: append_history_values_def count'_def bitmap'_def Let_def)
  have cb: "2 ^ 16 \<le> unat c" "unat c \<le> 2 ^ 48"
    using c by (simp_all add: word_le_nat_alt DIFFICULTY_C_MIN_Q32_def DIFFICULTY_C_MAX_Q32_def)
  have lim: "unat DIFFICULTY_C_MIN_Q32 = 2 ^ 16" "unat DIFFICULTY_C_MAX_Q32 = 2 ^ 48"
    by (simp_all add: DIFFICULTY_C_MIN_Q32_def DIFFICULTY_C_MAX_Q32_def)
  have mn: "unat (min x y) = min (unat x) (unat y)" and mx: "unat (max x y) = max (unat x) (unat y)" for x y :: u64
    by (simp_all add: min_def max_def word_le_nat_alt)
  have steps: "unat DIFFICULTY_EASIER_STEP_Q32 = 4341736423" "unat DIFFICULTY_HARDER_STEP_Q32 = 4248701965"
    by (simp_all add: DIFFICULTY_EASIER_STEP_Q32_def DIFFICULTY_HARDER_STEP_Q32_def)
  obtain e where e: "correction_step c DIFFICULTY_EASIER_STEP_Q32 = Inr e" "unat e = unat c * 4341736423 div 2 ^ 32"
    using correction_step_spec [OF cb(2), of DIFFICULTY_EASIER_STEP_Q32] by (auto simp: steps)
  obtain d where d: "correction_step c DIFFICULTY_HARDER_STEP_Q32 = Inr d" "unat d = unat c * 4248701965 div 2 ^ 32"
    using correction_step_spec [OF cb(2), of DIFFICULTY_HARDER_STEP_Q32] by (auto simp: steps)
  have "2 ^ 16 \<le> unat e" using cb(1) by (simp add: e(2))
  moreover have "unat d \<le> 2 ^ 48" using cb(2) by (simp add: d(2))
  ultimately show ?thesis
    unfolding eq e(1) d(1) using h' cb
    by (simp add: word_le_nat_alt lim mn mx e(2) d(2) correction_spec_def Let_def)
qed

section \<open>Amounts\<close>

lemma digits_value_snoc: "digits_value (s @ [c]) = digits_value s * 10 + digit_value c"
  by (simp add: digits_value_def)

lemma digit_char_props:
  assumes "d < 10"
  shows "is_ascii_digit (digit_char d)" "digit_value (digit_char d) = d"
  using assms by (simp_all add: is_ascii_digit_def digit_value_def digit_char_def take_bit_nat_eq_self)

lemma digits_value_show_nat: "digits_value (show_nat n) = n"
proof (induction n rule: show_nat.induct)
  case (1 n)
  show ?case
    using 1 by (subst show_nat.simps)
      (simp add: digits_value_snoc digit_char_props digits_value_def [of "[_]"])
qed

lemma show_nat_digits: "list_all is_ascii_digit (show_nat n)" "show_nat n \<noteq> []"
proof (induction n rule: show_nat.induct)
  case (1 n) {
    case 1 then show ?case
      using "1.IH"(1) by (subst show_nat.simps) (simp add: digit_char_props)
  next
    case 2 then show ?case by (subst show_nat.simps) simp
  }
qed

lemma length_show_nat: "n < 10 ^ k \<Longrightarrow> 0 < k \<Longrightarrow> length (show_nat n) \<le> k"
proof (induction n arbitrary: k rule: show_nat.induct)
  case (1 n)
  show ?case
  proof (cases "n < 10")
    case True
    then show ?thesis using 1 by (subst show_nat.simps) simp
  next
    case False
    then obtain j where k: "k = Suc j" "0 < j"
      using 1 by (cases k; cases "k - 1") auto
    then have "n div 10 < 10 ^ j" using 1(2) by (simp add: div_less_iff_less_mult mult.commute)
    then show ?thesis using 1 False k by (subst show_nat.simps) auto
  qed
qed

lemma digits_value_zeros: "digits_value (replicate k CHR ''0'' @ s) = digits_value s"
proof (induction k)
  case (Suc k)
  then show ?case by (simp add: digits_value_def digit_value_def)
qed simp

lemma split_on_none: "d \<notin> set s \<Longrightarrow> split_on d s = [s]"
  by (induction s) auto

lemma split_on_append: "d \<notin> set a \<Longrightarrow> split_on d (a @ d # b) = a # split_on d b"
  by (induction a) auto

lemma digits_plain:
  assumes "list_all is_ascii_digit s"
  shows "CHR ''.'' \<notin> set s" "s \<noteq> [] \<Longrightarrow> hd s \<noteq> CHR ''-''" "s \<noteq> [] \<Longrightarrow> hd s \<noteq> CHR ''+''"
  using assms by (auto simp: list_all_iff is_ascii_digit_def dest!: hd_in_set)

lemma parse_u64_digits:
  assumes "list_all is_ascii_digit s" "s \<noteq> []" "digits_value s < 2 ^ 64"
  shows "parse_u64 s = Some (of_nat (digits_value s))"
  using digits_plain(3) [OF assms(1,2)] assms by (simp add: parse_u64_def)


lemma parse_format_mut: "parse_mut_amount (format_mut x) = Inr x"
proof -
  let ?w = "x div STRIKES_PER_MUT" and ?f = "x mod STRIKES_PER_MUT"
  let ?whole = "show_nat (unat ?w)" and ?frac = "show_padded 8 (unat ?f)"
  have m: "unat STRIKES_PER_MUT = 10 ^ 8" by (simp add: STRIKES_PER_MUT_def)
  have w: "unat ?w = unat x div 10 ^ 8" and f: "unat ?f = unat x mod 10 ^ 8"
    by (simp_all only: unat_div unat_mod m)
  have fl: "unat ?f < 10 ^ 8" by (simp only: f) simp
  have len: "length (show_nat (unat ?f)) \<le> 8" by (rule length_show_nat [OF fl]) simp
  have dw: "list_all is_ascii_digit ?whole" "?whole \<noteq> []" by (rule show_nat_digits)+
  have df: "list_all is_ascii_digit ?frac" "?frac \<noteq> []" "length ?frac = 8" "digits_value ?frac = unat ?f"
  proof -
    have "is_ascii_digit (CHR ''0'')" by (simp add: is_ascii_digit_def)
    then show "list_all is_ascii_digit ?frac"
      using show_nat_digits(1) [of "unat ?f"] by (auto simp: show_padded_def Let_def list_all_iff)
    show "?frac \<noteq> []" "length ?frac = 8" "digits_value ?frac = unat ?f"
      using len by (simp_all add: show_padded_def Let_def show_nat_digits digits_value_zeros digits_value_show_nat)
  qed
  have split: "split_on (CHR ''.'') (format_mut x) = [?whole, ?frac]"
    using digits_plain(1) [OF dw(1)] digits_plain(1) [OF df(1)]
    by (simp add: format_mut_def split_on_append split_on_none)
  have pw: "parse_u64 ?whole = Some ?w"
    using parse_u64_digits [OF dw] unat_less_2p [of ?w] by (simp add: digits_value_show_nat)
  have pf: "parse_u64 ?frac = Some ?f"
    using parse_u64_digits [OF df(1,2)] unat_less_2p [of ?f] by (simp add: df(4))
  have hd: "format_mut x \<noteq> []" "hd (format_mut x) = hd ?whole"
    using dw(2) by (simp_all add: format_mut_def)
  have sum: "unat ?w * unat STRIKES_PER_MUT + unat ?f = unat x"
    by (simp only: w f m) (rule div_mult_mod_eq)
  then have "unat ?w * unat STRIKES_PER_MUT < 2 ^ 64" using unat_less_2p [of x] by simp
  then obtain v where v: "checked_mul ?w STRIKES_PER_MUT = Some v" "unat v = unat ?w * unat STRIKES_PER_MUT"
    by (simp add: checked_mul_def unat_word_ariths)
  have "checked_add v ?f = Some x"
    using sum unat_less_2p [of x] by (simp add: checked_add_Some_iff v(2))
  then show ?thesis
    using digits_plain(2,3) [OF dw(1) dw(2)] hd dw df
    by (simp add: parse_mut_amount_def split Let_def pw pf v(1))
qed


section \<open>Properties\<close>

text \<open>C35. Whatever set of epochs produces blocks, the subsidies paid are at most 33,554,432 MUT
  in total, so the count of issued strikes never leaves 64 bits.\<close>

theorem subsidies_bounded:
  "(\<Sum>e\<in>A. unat (subsidy e)) \<le> 33554432 * 10 ^ 8 \<and> (33554432 * 10 ^ 8 :: nat) < 2 ^ 64"
  using subsidy_sum_le by simp

text \<open>C36. The base fee rate update is total and exact: for a rate within its bounds and a block
  within the weight limit it returns the rate moved in proportion to the deviation from the target
  weight, by at most a sixty-fourth, clamped to the bounds, which the new rate obeys again.\<close>

theorem base_fee_rate_exact:
  assumes "BASE_FEE_MIN_Q32 \<le> c" "c \<le> BASE_FEE_MAX_Q32" "w \<le> BLOCK_WEIGHT_MAX"
  shows "\<exists>r. adjusted_base_fee_rate c w = Inr r \<and> unat r = fee_rate_spec (unat c) (unat w) \<and>
     BASE_FEE_MIN_Q32 \<le> r \<and> r \<le> BASE_FEE_MAX_Q32"
proof -
  obtain r where r: "adjusted_base_fee_rate c w = Inr r" "unat r = fee_rate_spec (unat c) (unat w)"
    using adjusted_base_fee_rate_spec [OF assms] by blast
  have "2 ^ 32 \<le> unat c" "unat c \<le> 2 ^ 52"
    using assms by (simp_all add: word_le_nat_alt BASE_FEE_MIN_Q32_def BASE_FEE_MAX_Q32_def)
  then have "2 ^ 32 \<le> unat r" "unat r \<le> 2 ^ 52" by (auto simp: r(2) fee_rate_spec_def)
  then show ?thesis
    using r by (simp add: word_le_nat_alt BASE_FEE_MIN_Q32_def BASE_FEE_MAX_Q32_def)
qed

theorem base_fee_rate_exact_witness:
  "\<exists>r. adjusted_base_fee_rate (push_bit 33 1) (push_bit 17 1) = Inr r \<and>
     unat r = fee_rate_spec (2 ^ 33) (2 ^ 17) \<and> BASE_FEE_MIN_Q32 \<le> r \<and> r \<le> BASE_FEE_MAX_Q32"
  using base_fee_rate_exact [of "push_bit 33 1" "push_bit 17 1"]
  by (simp add: BASE_FEE_MIN_Q32_def BASE_FEE_MAX_Q32_def BLOCK_WEIGHT_MAX_def)

text \<open>C15. The difficulty controller refines a list of outcomes: when the count and bitmap stand for
  the last outcomes and the correction is within its bounds, recording an outcome succeeds, the new
  count and bitmap stand for the list with that outcome appended and the oldest of 64 dropped, and
  the correction follows the success rate of that list within the same bounds.\<close>

theorem difficulty_history_refines:
  assumes "history_of count bitmap hs" "DIFFICULTY_C_MIN_Q32 \<le> c" "c \<le> DIFFICULTY_C_MAX_Q32"
  shows "\<exists>count' bitmap' c'. append_history_values count bitmap c b = Inr (count', bitmap', c') \<and>
     history_of count' bitmap' (push_outcome hs b) \<and>
     unat c' = correction_spec (push_outcome hs b) (unat c) \<and>
     DIFFICULTY_C_MIN_Q32 \<le> c' \<and> c' \<le> DIFFICULTY_C_MAX_Q32"
  by (rule append_history_spec [OF assms])

theorem difficulty_history_refines_witness:
  "\<exists>count' bitmap' c'. append_history_values 0 0 (push_bit 32 1) True = Inr (count', bitmap', c') \<and>
     history_of count' bitmap' (push_outcome [] True) \<and>
     unat c' = correction_spec (push_outcome [] True) (2 ^ 32) \<and>
     DIFFICULTY_C_MIN_Q32 \<le> c' \<and> c' \<le> DIFFICULTY_C_MAX_Q32"
  using difficulty_history_refines [of 0 0 "[]" "push_bit 32 1" True]
  by (simp add: history_of_def DIFFICULTY_C_MIN_Q32_def DIFFICULTY_C_MAX_Q32_def)

text \<open>Amounts survive printing: parsing the decimal text of any amount gives that amount.\<close>

theorem mut_amounts_roundtrip: "parse_mut_amount (format_mut x) = Inr x"
  by (rule parse_format_mut)

text \<open>C37. The node's operation decoders accept exactly the encodings: an operation decodes from
  bytes if and only if they are its encoding, and a transfer, a mining key rotation or a dividend
  claim decodes from an operation if and only if it has the array lengths of its type and the
  operation is the one that carries it.\<close>

theorem operation_decoders_exact:
  "(decode_protocol_operation_bytes bs = Inr op \<longleftrightarrow>
      length (op_payload op) < 2 ^ 64 \<and> bs = ProtocolOperationV1_encode op) \<and>
   (decode_license_transfer_operation op = Inr t \<longleftrightarrow> wf_transfer t \<and> op = LicenseTransferV1_operation t) \<and>
   (decode_mining_key_rotation_operation op = Inr r \<longleftrightarrow> wf_rotation r \<and> op = MiningKeyRotateV1_operation r) \<and>
   (decode_claim_operation op = Inr c \<longleftrightarrow> wf_claim c \<and> op = DividendClaimV1_operation c)"
  by (simp add: decode_protocol_operation_iff decode_license_transfer_iff decode_mining_key_rotation_iff
      decode_claim_iff)

end
