(* ===== verification/Funds.thy ===== *)
theory Funds
  imports Node
begin

text \<open>
  The node's unspent outputs: how a transaction's outputs enter the set
  (\<open>add_outputs_as_utxos\<close>), how a dividend payment spends Treasury outputs
  (mutiny-node/src/dividends.rs) and how the block's transactions are validated and applied one
  after the other (\<open>validate_and_apply_mempool\<close>). The lemmas show that value is conserved up to
  the fee, that only a signed dividend claim moves Treasury value, and that an output leaves the
  set only through a transaction entitled to it.
\<close>

section \<open>Operations\<close>

definition treasury_id_for_network :: "(bytes \<Rightarrow> bytes) \<Rightarrow> u32 \<Rightarrow> bytes" where
  "treasury_id_for_network H network_id = sha256_domain H TREASURY_ID [to_be_bytes network_id]"

fun push_outputs ::
    "hex_lib \<Rightarrow> string \<Rightarrow> u64 \<Rightarrow> u64 \<Rightarrow> bool \<Rightarrow> nat \<Rightarrow> TxOutput list \<Rightarrow> UtxoState list \<Rightarrow> NodeError + UtxoState list" where
  "push_outputs X txid epoch height coinbase i [] utxos = Inr utxos"
| "push_outputs X txid epoch height coinbase i (output # outputs) utxos =
     (if i \<ge> 2 ^ 16 then Inl (Msg ''output index overflow'')
      else push_outputs X txid epoch height coinbase (Suc i) outputs
             (utxos @ [\<lparr>us_txid = txid, us_output_index = of_nat i,
                        us_amount_strikes = out_amount_strikes output,
                        us_output_type = out_output_type output,
                        us_payload = hex_encode X (out_payload output),
                        us_creation_epoch = epoch, us_creation_height = height,
                        us_coinbase = coinbase\<rparr>]))"

definition add_outputs_as_utxos ::
    "(bytes \<Rightarrow> bytes) \<Rightarrow> hex_lib \<Rightarrow> UtxoState list \<Rightarrow> TransactionV1 \<Rightarrow> u64 \<Rightarrow> u64 \<Rightarrow> bool \<Rightarrow> NodeError + UtxoState list" where
  "add_outputs_as_utxos H X utxos tx epoch height coinbase =
     push_outputs X (hex_encode X (tx_txid H tx)) epoch height coinbase 0 (core_outputs (tx_core tx)) utxos"

text \<open>The outpoint of an unspent output, and the search for one.\<close>

definition outpoint_of :: "UtxoState \<Rightarrow> string \<times> u16" where
  "outpoint_of u = (us_txid u, us_output_index u)"

definition find_utxo :: "string \<times> u16 \<Rightarrow> UtxoState list \<Rightarrow> UtxoState option" where
  "find_utxo k utxos = List.find (\<lambda>u. outpoint_of u = k) utxos"

text \<open>\<open>position\<close> followed by \<open>remove\<close>: the first unspent output with the outpoint goes.\<close>

fun remove_utxo :: "string \<times> u16 \<Rightarrow> UtxoState list \<Rightarrow> UtxoState list option" where
  "remove_utxo k [] = None"
| "remove_utxo k (u # us) =
     (if outpoint_of u = k then Some us
      else case remove_utxo k us of None \<Rightarrow> None | Some us' \<Rightarrow> Some (u # us'))"

fun remove_consumed :: "NodeError \<Rightarrow> (string \<times> u16) list \<Rightarrow> UtxoState list \<Rightarrow> NodeError + UtxoState list" where
  "remove_consumed e [] utxos = Inr utxos"
| "remove_consumed e (k # ks) utxos =
     rbind (ok_or e (remove_utxo k utxos)) (remove_consumed e ks)"

fun claim_operations_loop ::
    "ProtocolOperationV1 list \<Rightarrow> bytes \<Rightarrow> ProtocolOperationV1 option \<Rightarrow> NodeError + ProtocolOperationV1 option" where
  "claim_operations_loop [] txid found = Inr found"
| "claim_operations_loop (op # ops) txid found =
     (if op_op_type op \<noteq> OP_DIVIDEND_CLAIM then claim_operations_loop ops txid found
      else rbind (decode_claim_operation op) (\<lambda>claim.
        if dc_payment_txid claim = txid
        then if found \<noteq> None
             then Inl (Msg ''more than one dividend claim references the same payment TXID'')
             else claim_operations_loop ops txid (Some op)
        else claim_operations_loop ops txid found))"

definition claim_operation_for_tx ::
    "ProtocolOperationV1 list \<Rightarrow> bytes \<Rightarrow> NodeError + ProtocolOperationV1 option" where
  "claim_operation_for_tx operations txid = claim_operations_loop operations txid None"

definition treasury_controlled :: "u8 \<Rightarrow> bool" where
  "treasury_controlled ty \<longleftrightarrow> ty = OUTPUT_TREASURY \<or> ty = OUTPUT_LICENSE_PAYMENT"

text \<open>The input loop of a dividend payment: \<open>i\<close> is the index of the first input still to be
  looked at.\<close>

fun payment_inputs ::
    "hex_lib \<Rightarrow> bytes \<Rightarrow> UtxoState list \<Rightarrow> u64 \<Rightarrow> WitnessV1 list \<Rightarrow> (string \<times> u16) list \<Rightarrow> u64 \<Rightarrow> nat \<Rightarrow>
     TxInput list \<Rightarrow> NodeError + ((string \<times> u16) list \<times> u64)" where
  "payment_inputs X opid utxos height witnesses consumed input_sum i [] = Inr (consumed, input_sum)"
| "payment_inputs X opid utxos height witnesses consumed input_sum i (input # inputs) =
     (case input of
        Coinbase _ \<Rightarrow> Inl (Msg ''dividend payment cannot contain coinbase input'')
      | Outpoint previous_txid previous_output_index \<Rightarrow>
          let k = (hex_encode X previous_txid, previous_output_index)
          in if k \<in> set consumed then Inl (Msg ''dividend payment duplicates an input'')
             else rbind (ok_or (Msg ''dividend payment references missing Treasury UTXO'')
                          (find_utxo k utxos)) (\<lambda>utxo.
               if \<not> treasury_controlled (us_output_type utxo)
               then Inl (Msg ''dividend payment may spend only Treasury-controlled outputs'')
               else if \<not> spendable_at_height utxo height
               then Inl (Msg ''dividend payment spends immature Treasury coinbase output'')
               else if wit_witness_type (witnesses ! i) \<noteq> WITNESS_PROTOCOL_AUTH \<or> wit_payload (witnesses ! i) \<noteq> opid
               then Inl (Msg ''dividend Treasury input lacks matching PROTOCOL_AUTH witness'')
               else rbind (ok_or (Msg ''dividend payment input overflow'')
                            (checked_add input_sum (us_amount_strikes utxo))) (\<lambda>input_sum.
                 payment_inputs X opid utxos height witnesses (consumed @ [k]) input_sum (Suc i) inputs)))"

definition payment_header_ok :: "DevnetState \<Rightarrow> TransactionV1 \<Rightarrow> u64 \<Rightarrow> NodeError + unit" where
  "payment_header_ok state tx epoch =
     (let core = tx_core tx
      in if core_version core \<noteq> 1 \<or> core_network_id core \<noteq> ds_network_id state
         then Inl (Msg ''dividend payment has wrong version/network'')
         else if epoch < core_valid_from_epoch core \<or>
                 (core_expiry_epoch core \<noteq> 0 \<and> epoch > core_expiry_epoch core)
         then Inl (Msg ''dividend payment is outside its epoch validity window'')
         else if core_inputs core = [] \<or> length (core_inputs core) > 1024 \<or>
                 core_outputs core = [] \<or> length (core_outputs core) > 2
         then Inl (Msg ''dividend payment has invalid input/output count'')
         else if length (tx_witnesses tx) \<noteq> length (core_inputs core)
         then Inl (Msg ''dividend payment witness count mismatch'')
         else Inr ())"

definition payment_outputs_ok ::
    "(bytes \<Rightarrow> bytes) \<Rightarrow> DevnetState \<Rightarrow> DividendClaimV1 \<Rightarrow> TxOutput list \<Rightarrow> u64 \<Rightarrow> NodeError + unit" where
  "payment_outputs_ok H state claim outputs input_sum =
     (let first = outputs ! 0
      in if out_output_type first \<noteq> OUTPUT_PUBKEY_HASH \<or>
            out_amount_strikes first \<noteq> dc_amount_strikes claim \<or>
            out_payload first \<noteq> dc_destination_address_id claim
         then Inl (Msg ''dividend payment first output does not exactly pay the signed claim destination/amount'')
         else if input_sum < dc_amount_strikes claim
         then Inl (Msg ''dividend payment Treasury inputs are insufficient'')
         else
           let change = input_sum - dc_amount_strikes claim
           in rbind (if change = 0
                     then if length outputs = 1 then Inr ()
                          else Inl (Msg ''zero Treasury change output is non-canonical'')
                     else if length outputs = 2
                     then if out_amount_strikes (outputs ! 1) \<noteq> change \<or>
                             out_output_type (outputs ! 1) \<noteq> OUTPUT_TREASURY \<or>
                             out_payload (outputs ! 1) \<noteq> treasury_id_for_network H (ds_network_id state)
                          then Inl (Msg ''dividend payment Treasury change output is non-canonical'')
                          else Inr ()
                     else Inl (Msg ''dividend payment is missing canonical Treasury change'')) (\<lambda>_.
              rbind (try_fold (\<lambda>acc q. ok_or (Msg ''dividend payment output overflow'')
                       (checked_add acc (out_amount_strikes q))) 0 outputs) (\<lambda>output_sum.
                if output_sum \<noteq> input_sum
                then Inl (Msg ''protocol-authorized dividend payment must be fee-exempt and value preserving'')
                else Inr ())))"

definition validate_and_apply_payment ::
    "(bytes \<Rightarrow> bytes) \<Rightarrow> hex_lib \<Rightarrow> DevnetState \<Rightarrow> UtxoState list \<Rightarrow> TransactionV1 \<Rightarrow> ProtocolOperationV1 \<Rightarrow>
     u64 \<Rightarrow> u64 \<Rightarrow> NodeError + UtxoState list" where
  "validate_and_apply_payment H X state working_utxos tx op epoch height =
     rbind (decode_claim_operation op) (\<lambda>claim.
     if tx_txid H tx \<noteq> dc_payment_txid claim
     then Inl (Msg ''dividend payment TXID does not match claim'')
     else rbind (payment_header_ok state tx epoch) (\<lambda>_.
     rbind (payment_inputs X (operation_id H op) working_utxos height (tx_witnesses tx) [] 0 0
              (core_inputs (tx_core tx))) (\<lambda>(consumed, input_sum).
     rbind (payment_outputs_ok H state claim (core_outputs (tx_core tx)) input_sum) (\<lambda>_.
     rbind (remove_consumed (Msg ''Treasury UTXO disappeared during dividend payment'')
              consumed working_utxos) (\<lambda>working_utxos.
       add_outputs_as_utxos H X working_utxos tx epoch height False)))))"

record ValidatedTx =
  vt_pending :: PendingTxState
  vt_tx :: TransactionV1
  vt_fee :: u64
  vt_base_fee :: u64

text \<open>The input loop of an ordinary transaction.\<close>

fun ordinary_inputs ::
    "(bytes \<Rightarrow> bytes) \<Rightarrow> 'k ed25519_lib \<Rightarrow> hex_lib \<Rightarrow> string \<Rightarrow> UtxoState list \<Rightarrow> u64 \<Rightarrow> TransactionV1 \<Rightarrow>
     (string \<times> u16) list \<Rightarrow> u128 \<Rightarrow> nat \<Rightarrow> TxInput list \<Rightarrow> NodeError + ((string \<times> u16) list \<times> u128)" where
  "ordinary_inputs H E X ptxid utxos height tx consumed input_sum i [] = Inr (consumed, input_sum)"
| "ordinary_inputs H E X ptxid utxos height tx consumed input_sum i (input # inputs) =
     (case input of
        Coinbase _ \<Rightarrow> Inl (Msg ''ordinary transaction cannot contain coinbase input'')
      | Outpoint previous_txid previous_output_index \<Rightarrow>
          let k = (hex_encode X previous_txid, previous_output_index)
          in if k \<in> set consumed then Inl (MsgFor ''transaction {} duplicates an input'' ptxid)
             else rbind (ok_or (MsgFor ''transaction {} references missing UTXO'' ptxid)
                          (find_utxo k utxos)) (\<lambda>utxo.
               if \<not> spendable_at_height utxo height
               then Inl (MsgFor ''transaction {} spends immature coinbase'' ptxid)
               else if us_output_type utxo \<noteq> OUTPUT_PUBKEY_HASH
               then Inl (Msg ''Integrated V1 send path cannot spend output type {}'')
               else rbind (decode32 X (us_payload utxo)) (\<lambda>address.
                 rbind (prevout X utxo) (\<lambda>previous.
                 rbind (map_err TxErr (verify_pubkey_hash_witness H E address
                          (sighash_all H (tx_txid H tx) (of_nat i) previous) (tx_witnesses tx ! i))) (\<lambda>_.
                 rbind (ok_or (Msg ''input sum overflow'')
                          (checked_add input_sum (ucast (us_amount_strikes utxo)))) (\<lambda>input_sum.
                   ordinary_inputs H E X ptxid utxos height tx (consumed @ [k]) input_sum (Suc i) inputs))))))"

definition ordinary_output :: "string \<Rightarrow> u128 \<Rightarrow> TxOutput \<Rightarrow> NodeError + u128" where
  "ordinary_output ptxid output_sum output =
     (if out_amount_strikes output = 0 then Inl (MsgFor ''transaction {} contains zero-value output'' ptxid)
      else rbind (if out_output_type output = OUTPUT_PUBKEY_HASH
                  then if length (out_payload output) \<noteq> 32
                       then Inl (MsgFor ''transaction {} has invalid address payload'' ptxid) else Inr ()
                  else if out_output_type output = OUTPUT_LICENSE_PAYMENT
                  then if length (out_payload output) \<noteq> 32
                       then Inl (MsgFor ''transaction {} has invalid LICENSE_PAYMENT manifest hash'' ptxid)
                       else Inr ()
                  else Inl (Msg ''Integrated Build 5.0 ordinary transaction output type unsupported: {}'')) (\<lambda>_.
             ok_or (Msg ''output sum overflow'')
               (checked_add output_sum (ucast (out_amount_strikes output)))))"

definition mempool_header_ok ::
    "(bytes \<Rightarrow> bytes) \<Rightarrow> hex_lib \<Rightarrow> DevnetState \<Rightarrow> PendingTxState \<Rightarrow> TransactionV1 \<Rightarrow> u64 \<Rightarrow> NodeError + unit" where
  "mempool_header_ok H X state pending tx epoch =
     (let core = tx_core tx; ptxid = pt_txid pending
      in if hex_encode X (tx_txid H tx) \<noteq> ptxid \<or> hex_encode X (wtxid H tx) \<noteq> pt_wtxid pending
         then Inl (MsgFor ''mempool transaction {} ID mismatch'' ptxid)
         else if core_version core \<noteq> 1 \<or> core_network_id core \<noteq> ds_network_id state
         then Inl (MsgFor ''transaction {} has wrong version/network'' ptxid)
         else if epoch < core_valid_from_epoch core \<or>
                 (core_expiry_epoch core \<noteq> 0 \<and> epoch > core_expiry_epoch core)
         then Inl (MsgFor ''transaction {} is outside its epoch validity window'' ptxid)
         else if core_inputs core = [] \<or> core_outputs core = [] \<or>
                 length (core_inputs core) > 1024 \<or> length (core_outputs core) > 1024
         then Inl (MsgFor ''transaction {} has invalid input/output count'' ptxid)
         else if length (tx_witnesses tx) \<noteq> length (core_inputs core)
         then Inl (MsgFor ''transaction {} witness count mismatch'' ptxid)
         else Inr ())"

definition apply_ordinary ::
    "(bytes \<Rightarrow> bytes) \<Rightarrow> 'k ed25519_lib \<Rightarrow> hex_lib \<Rightarrow> DevnetState \<Rightarrow> UtxoState list \<Rightarrow> PendingTxState \<Rightarrow>
     TransactionV1 \<Rightarrow> u64 \<Rightarrow> u64 \<Rightarrow> NodeError + (ValidatedTx \<times> UtxoState list)" where
  "apply_ordinary H E X state working_utxos pending tx epoch height =
     rbind (ordinary_inputs H E X (pt_txid pending) working_utxos height tx [] 0 0
              (core_inputs (tx_core tx))) (\<lambda>(consumed, input_sum).
     rbind (try_fold (ordinary_output (pt_txid pending)) 0 (core_outputs (tx_core tx))) (\<lambda>output_sum.
     if input_sum < output_sum then Inl (MsgFor ''transaction {} creates value'' (pt_txid pending))
     else
       let fee_u128 = input_sum - output_sum
       in if unat fee_u128 \<ge> 2 ^ 64 then Inl (Msg ''fee overflow'')
          else
            let fee = ucast fee_u128 :: u64
            in rbind (map_err TxErr (required_base_fee (ds_base_fee_rate_q32 state)
                        (of_nat (serialized_len tx)))) (\<lambda>base_fee.
               if fee < base_fee then Inl (MsgFor ''transaction {} underpays Base Fee'' (pt_txid pending))
               else rbind (remove_consumed (Msg ''UTXO disappeared during block application'')
                             consumed working_utxos) (\<lambda>working_utxos.
                    rbind (add_outputs_as_utxos H X working_utxos tx epoch height False) (\<lambda>working_utxos.
                      Inr (\<lparr>vt_pending = pending, vt_tx = tx, vt_fee = fee, vt_base_fee = base_fee\<rparr>,
                           working_utxos))))))"

definition apply_pending ::
    "(bytes \<Rightarrow> bytes) \<Rightarrow> 'k ed25519_lib \<Rightarrow> hex_lib \<Rightarrow> DevnetState \<Rightarrow> u64 \<Rightarrow> u64 \<Rightarrow> ProtocolOperationV1 list \<Rightarrow>
     UtxoState list \<Rightarrow> PendingTxState \<Rightarrow> NodeError + (ValidatedTx \<times> UtxoState list)" where
  "apply_pending H E X state epoch height operations working_utxos pending =
     rbind (to_transaction_for_network X pending (ds_network_id state)) (\<lambda>tx.
     rbind (mempool_header_ok H X state pending tx epoch) (\<lambda>_.
     rbind (claim_operation_for_tx operations (tx_txid H tx)) (\<lambda>found.
       case found of
         Some op \<Rightarrow>
           rbind (validate_and_apply_payment H X state working_utxos tx op epoch height) (\<lambda>working_utxos.
             Inr (\<lparr>vt_pending = pending, vt_tx = tx, vt_fee = 0, vt_base_fee = 0\<rparr>, working_utxos))
       | None \<Rightarrow> apply_ordinary H E X state working_utxos pending tx epoch height)))"

fun apply_pendings ::
    "(bytes \<Rightarrow> bytes) \<Rightarrow> 'k ed25519_lib \<Rightarrow> hex_lib \<Rightarrow> DevnetState \<Rightarrow> u64 \<Rightarrow> u64 \<Rightarrow> ProtocolOperationV1 list \<Rightarrow>
     UtxoState list \<Rightarrow> PendingTxState list \<Rightarrow> NodeError + (ValidatedTx list \<times> UtxoState list)" where
  "apply_pendings H E X state epoch height operations working_utxos [] = Inr ([], working_utxos)"
| "apply_pendings H E X state epoch height operations working_utxos (pending # pendings) =
     rbind (apply_pending H E X state epoch height operations working_utxos pending) (\<lambda>(v, working_utxos).
     rbind (apply_pendings H E X state epoch height operations working_utxos pendings) (\<lambda>(out, working_utxos).
       Inr (v # out, working_utxos)))"

definition validate_and_apply_mempool ::
    "(bytes \<Rightarrow> bytes) \<Rightarrow> 'k ed25519_lib \<Rightarrow> hex_lib \<Rightarrow> DevnetState \<Rightarrow> UtxoState list \<Rightarrow> u64 \<Rightarrow> u64 \<Rightarrow>
     ProtocolOperationV1 list \<Rightarrow> NodeError + (ValidatedTx list \<times> UtxoState list)" where
  "validate_and_apply_mempool H E X state working_utxos epoch height operations =
     apply_pendings H E X state epoch height operations working_utxos (ds_mempool state)"


section \<open>Value held by a set of unspent outputs\<close>

definition held :: "(UtxoState \<Rightarrow> nat) \<Rightarrow> UtxoState list \<Rightarrow> nat" where
  "held f us = (\<Sum>u\<leftarrow>us. f u)"

definition amount :: "UtxoState \<Rightarrow> nat" where
  "amount u = unat (us_amount_strikes u)"

definition treasury_amount :: "UtxoState \<Rightarrow> nat" where
  "treasury_amount u = (if treasury_controlled (us_output_type u) then amount u else 0)"

abbreviation total_value :: "UtxoState list \<Rightarrow> nat" where
  "total_value \<equiv> held amount"

abbreviation treasury_value :: "UtxoState list \<Rightarrow> nat" where
  "treasury_value \<equiv> held treasury_amount"

lemma held_simps [simp]:
  "held f [] = 0" "held f (u # us) = f u + held f us" "held f (us @ vs) = held f us + held f vs"
  by (simp_all add: held_def)

lemma find_utxo_simps [simp]:
  "find_utxo k [] = None"
  "find_utxo k (u # us) = (if outpoint_of u = k then Some u else find_utxo k us)"
  by (simp_all add: find_utxo_def)

lemma find_utxo_Some: "find_utxo k us = Some u \<Longrightarrow> u \<in> set us \<and> outpoint_of u = k"
  by (induction us) (auto split: if_splits)

lemma remove_utxo_found:
  assumes "find_utxo k us = Some u"
  obtains us' where "remove_utxo k us = Some us'" and "\<And>f. held f us' + f u = held f us"
    and "\<And>k'. k' \<noteq> k \<Longrightarrow> find_utxo k' us' = find_utxo k' us" and "set us \<subseteq> insert u (set us')"
    and "set us' \<subseteq> set us"
proof -
  have "\<exists>us'. remove_utxo k us = Some us' \<and> (\<forall>f. held f us' + f u = held f us) \<and>
      (\<forall>k'. k' \<noteq> k \<longrightarrow> find_utxo k' us' = find_utxo k' us) \<and> set us \<subseteq> insert u (set us') \<and> set us' \<subseteq> set us"
    using assms
  proof (induction us)
    case (Cons v us)
    then show ?case by (cases "outpoint_of v = k") (auto simp: algebra_simps)
  qed simp
  then show thesis using that by blast
qed

abbreviation spent :: "UtxoState list \<Rightarrow> string \<times> u16 \<Rightarrow> UtxoState" where
  "spent us k \<equiv> the (find_utxo k us)"

lemma remove_consumed_found:
  assumes "distinct ks" and "\<forall>k\<in>set ks. find_utxo k us \<noteq> None"
  obtains us' where "remove_consumed e ks us = Inr us'"
    and "\<And>f. held f us' + (\<Sum>k\<leftarrow>ks. f (spent us k)) = held f us"
    and "set us \<subseteq> spent us ` set ks \<union> set us'" and "set us' \<subseteq> set us"
proof -
  have "\<exists>us'. remove_consumed e ks us = Inr us' \<and>
      (\<forall>f. held f us' + (\<Sum>k\<leftarrow>ks. f (spent us k)) = held f us) \<and>
      set us \<subseteq> spent us ` set ks \<union> set us' \<and> set us' \<subseteq> set us"
    using assms
  proof (induction ks arbitrary: us)
    case (Cons k ks)
    then obtain u where u: "find_utxo k us = Some u" by auto
    obtain us1 where us1: "remove_utxo k us = Some us1" "\<And>f. held f us1 + f u = held f us"
      "\<And>k'. k' \<noteq> k \<Longrightarrow> find_utxo k' us1 = find_utxo k' us" "set us \<subseteq> insert u (set us1)" "set us1 \<subseteq> set us"
      using remove_utxo_found [OF u] by blast
    have same: "find_utxo k' us1 = find_utxo k' us" if "k' \<in> set ks" for k'
      by (rule us1(3)) (use that Cons.prems(1) in auto)
    obtain us' where us': "remove_consumed e ks us1 = Inr us'"
      "\<forall>f. held f us' + (\<Sum>k\<leftarrow>ks. f (spent us1 k)) = held f us1"
      "set us1 \<subseteq> spent us1 ` set ks \<union> set us'" "set us' \<subseteq> set us1"
      using Cons.IH [of us1] Cons.prems same by auto
    have m: "map (\<lambda>k. f (spent us1 k)) ks = map (\<lambda>k. f (spent us k)) ks" for f :: "UtxoState \<Rightarrow> nat"
      using same by simp
    have im: "spent us1 ` set ks = spent us ` set ks" using same by (intro image_cong) auto
    have "held f us' + (\<Sum>k\<leftarrow>k # ks. f (spent us k)) = held f us" for f
      using us'(2) [rule_format, of f] us1(2) [of f] u by (simp add: m)
    moreover have "set us \<subseteq> spent us ` set (k # ks) \<union> set us'"
      using us1(4) us'(3) u by (auto simp: im)
    ultimately show ?case
      using us1 us' by auto
  qed simp
  then show thesis using that by blast
qed

lemma push_outputs_appends:
  assumes "push_outputs X t e h c i outs us = Inr us'"
  obtains new where "us' = us @ new" and "map us_amount_strikes new = map out_amount_strikes outs"
    and "map us_output_type new = map out_output_type outs"
proof -
  have "\<exists>new. us' = us @ new \<and> map us_amount_strikes new = map out_amount_strikes outs \<and>
      map us_output_type new = map out_output_type outs"
    using assms
  proof (induction outs arbitrary: i us)
    case (Cons q outs)
    let ?u = "\<lparr>us_txid = t, us_output_index = of_nat i, us_amount_strikes = out_amount_strikes q,
        us_output_type = out_output_type q, us_payload = hex_encode X (out_payload q),
        us_creation_epoch = e, us_creation_height = h, us_coinbase = c\<rparr>"
    obtain new where "us' = (us @ [?u]) @ new" "map us_amount_strikes new = map out_amount_strikes outs"
      "map us_output_type new = map out_output_type outs"
      using Cons.IH [of "Suc i" "us @ [?u]"] Cons.prems by (auto split: if_splits)
    then show ?case by (intro exI [of _ "?u # new"]) simp
  qed simp
  then show thesis using that by blast
qed

definition treasury_out :: "TxOutput \<Rightarrow> nat" where
  "treasury_out q = (if treasury_controlled (out_output_type q) then unat (out_amount_strikes q) else 0)"

lemma add_outputs_value:
  assumes "add_outputs_as_utxos H X us tx e h c = Inr us'"
  shows "total_value us' = total_value us + (\<Sum>q\<leftarrow>core_outputs (tx_core tx). unat (out_amount_strikes q))"
    and "treasury_value us' = treasury_value us + (\<Sum>q\<leftarrow>core_outputs (tx_core tx). treasury_out q)"
    and "set us \<subseteq> set us'"
proof -
  let ?outs = "core_outputs (tx_core tx)"
  obtain new where us': "us' = us @ new" and a: "map us_amount_strikes new = map out_amount_strikes ?outs"
    and ty: "map us_output_type new = map out_output_type ?outs"
    using push_outputs_appends assms unfolding add_outputs_as_utxos_def by blast
  have f2: "list_all2 (\<lambda>u q. us_amount_strikes u = out_amount_strikes q \<and> us_output_type u = out_output_type q) new ?outs"
    using a ty by (auto simp: list_all2_conv_all_nth list_eq_iff_nth_eq)
  then have "held amount new = (\<Sum>q\<leftarrow>?outs. unat (out_amount_strikes q))"
    "held treasury_amount new = (\<Sum>q\<leftarrow>?outs. treasury_out q)"
    by (induction rule: list_all2_induct) (simp_all add: amount_def treasury_amount_def treasury_out_def)
  then show "total_value us' = total_value us + (\<Sum>q\<leftarrow>?outs. unat (out_amount_strikes q))"
    "treasury_value us' = treasury_value us + (\<Sum>q\<leftarrow>?outs. treasury_out q)" "set us \<subseteq> set us'"
    by (auto simp: us')
qed


section \<open>The input loops\<close>

text \<open>What one accepted input of a dividend payment, and of an ordinary transaction, has shown.\<close>

definition payment_input_ok ::
    "hex_lib \<Rightarrow> bytes \<Rightarrow> UtxoState list \<Rightarrow> u64 \<Rightarrow> WitnessV1 list \<Rightarrow> nat \<Rightarrow> TxInput \<Rightarrow> string \<times> u16 \<Rightarrow> bool" where
  "payment_input_ok X opid us height ws i input k \<longleftrightarrow>
     (\<exists>t n. input = Outpoint t n \<and> k = (hex_encode X t, n)) \<and> find_utxo k us \<noteq> None \<and>
     treasury_controlled (us_output_type (spent us k)) \<and> spendable_at_height (spent us k) height \<and>
     wit_witness_type (ws ! i) = WITNESS_PROTOCOL_AUTH \<and> wit_payload (ws ! i) = opid"

definition ordinary_input_ok ::
    "(bytes \<Rightarrow> bytes) \<Rightarrow> 'k ed25519_lib \<Rightarrow> hex_lib \<Rightarrow> UtxoState list \<Rightarrow> u64 \<Rightarrow> TransactionV1 \<Rightarrow> nat \<Rightarrow> TxInput \<Rightarrow> string \<times> u16 \<Rightarrow> bool" where
  "ordinary_input_ok H E X us height tx i input k \<longleftrightarrow>
     (\<exists>t n. input = Outpoint t n \<and> k = (hex_encode X t, n)) \<and> find_utxo k us \<noteq> None \<and>
     us_output_type (spent us k) = OUTPUT_PUBKEY_HASH \<and> spendable_at_height (spent us k) height \<and>
     (\<exists>address previous. decode32 X (us_payload (spent us k)) = Inr address \<and> prevout X (spent us k) = Inr previous \<and>
        verify_pubkey_hash_witness H E address (sighash_all H (tx_txid H tx) (of_nat i) previous)
          (tx_witnesses tx ! i) = Inr ())"

lemma payment_inputs_ok:
  assumes "payment_inputs X opid us height ws consumed s i inputs = Inr (ks, s')" and "distinct consumed"
  shows "\<exists>new. ks = consumed @ new \<and> distinct ks \<and> length new = length inputs \<and>
     (\<forall>j<length inputs. payment_input_ok X opid us height ws (i + j) (inputs ! j) (new ! j)) \<and>
     unat s' = unat s + (\<Sum>k\<leftarrow>new. amount (spent us k))"
  using assms
proof (induction inputs arbitrary: consumed s i)
  case (Cons input inputs)
  obtain t n where input: "input = Outpoint t n" using Cons.prems by (cases input) auto
  let ?k = "(hex_encode X t, n)"
  obtain u s1 where u: "find_utxo ?k us = Some u" and new: "?k \<notin> set consumed"
    and ok: "payment_input_ok X opid us height ws i input ?k"
    and s1: "checked_add s (us_amount_strikes u) = Some s1"
    and rest: "payment_inputs X opid us height ws (consumed @ [?k]) s1 (Suc i) inputs = Inr (ks, s')"
    using Cons.prems(1) unfolding input
    by (auto simp: Let_def payment_input_ok_def input split: if_splits)
  obtain new' where new': "ks = (consumed @ [?k]) @ new'" "distinct ks" "length new' = length inputs"
    "\<forall>j<length inputs. payment_input_ok X opid us height ws (Suc i + j) (inputs ! j) (new' ! j)"
    "unat s' = unat s1 + (\<Sum>k\<leftarrow>new'. amount (spent us k))"
    using Cons.IH [OF rest] Cons.prems(2) new by auto
  have "payment_input_ok X opid us height ws (i + j) ((input # inputs) ! j) ((?k # new') ! j)"
    if "j < length (input # inputs)" for j
    using that ok new'(4) by (cases j) auto
  moreover have "unat s' = unat s + (\<Sum>k\<leftarrow>?k # new'. amount (spent us k))"
    using new'(5) s1 u by (simp add: checked_add_Some_iff amount_def)
  ultimately show ?case
    using new' by (intro exI [of _ "?k # new'"]) simp
qed simp

lemma ordinary_inputs_ok:
  assumes "ordinary_inputs H E X ptxid us height tx consumed s i inputs = Inr (ks, s')" and "distinct consumed"
  shows "\<exists>new. ks = consumed @ new \<and> distinct ks \<and> length new = length inputs \<and>
     (\<forall>j<length inputs. ordinary_input_ok H E X us height tx (i + j) (inputs ! j) (new ! j)) \<and>
     unat s' = unat s + (\<Sum>k\<leftarrow>new. amount (spent us k))"
  using assms
proof (induction inputs arbitrary: consumed s i)
  case (Cons input inputs)
  obtain t n where input: "input = Outpoint t n" using Cons.prems by (cases input) auto
  let ?k = "(hex_encode X t, n)"
  obtain u s1 where u: "find_utxo ?k us = Some u" and new: "?k \<notin> set consumed"
    and ok: "ordinary_input_ok H E X us height tx i input ?k"
    and s1: "checked_add s (ucast (us_amount_strikes u)) = Some s1"
    and rest: "ordinary_inputs H E X ptxid us height tx (consumed @ [?k]) s1 (Suc i) inputs = Inr (ks, s')"
    using Cons.prems(1) unfolding input
    by (auto simp: Let_def ordinary_input_ok_def input split: if_splits)
  obtain new' where new': "ks = (consumed @ [?k]) @ new'" "distinct ks" "length new' = length inputs"
    "\<forall>j<length inputs. ordinary_input_ok H E X us height tx (Suc i + j) (inputs ! j) (new' ! j)"
    "unat s' = unat s1 + (\<Sum>k\<leftarrow>new'. amount (spent us k))"
    using Cons.IH [OF rest] Cons.prems(2) new by auto
  have "ordinary_input_ok H E X us height tx (i + j) ((input # inputs) ! j) ((?k # new') ! j)"
    if "j < length (input # inputs)" for j
    using that ok new'(4) by (cases j) auto
  moreover have "unat s' = unat s + (\<Sum>k\<leftarrow>?k # new'. amount (spent us k))"
    using new'(5) s1 u by (simp add: checked_add_Some_iff amount_def unat_ucast_up)
  ultimately show ?case
    using new' by (intro exI [of _ "?k # new'"]) simp
qed simp

lemma ordinary_outputs_sum:
  assumes "try_fold (ordinary_output ptxid) s outs = Inr s'"
  shows "unat s' = unat s + (\<Sum>q\<leftarrow>outs. unat (out_amount_strikes q))"
    and "\<forall>q\<in>set outs. out_output_type q = OUTPUT_PUBKEY_HASH \<or> out_output_type q = OUTPUT_LICENSE_PAYMENT"
  using assms
  by (induction outs arbitrary: s)
    (auto simp: ordinary_output_def checked_add_Some_iff unat_ucast_up split: if_splits)

lemma output_types_differ [simp]:
  "OUTPUT_PUBKEY_HASH \<noteq> OUTPUT_TREASURY" "OUTPUT_TREASURY \<noteq> OUTPUT_PUBKEY_HASH"
  "OUTPUT_PUBKEY_HASH \<noteq> OUTPUT_LICENSE_PAYMENT" "OUTPUT_LICENSE_PAYMENT \<noteq> OUTPUT_PUBKEY_HASH"
  "OUTPUT_TREASURY \<noteq> OUTPUT_LICENSE_PAYMENT" "OUTPUT_LICENSE_PAYMENT \<noteq> OUTPUT_TREASURY"
  by (simp_all add: OUTPUT_PUBKEY_HASH_def OUTPUT_TREASURY_def OUTPUT_LICENSE_PAYMENT_def)

lemma PUBKEY_HASH_not_treasury: "\<not> treasury_controlled OUTPUT_PUBKEY_HASH"
  by (simp add: treasury_controlled_def)

section \<open>One transaction\<close>

definition license_paid :: "TransactionV1 \<Rightarrow> nat" where
  "license_paid tx =
     (\<Sum>q\<leftarrow>core_outputs (tx_core tx). if out_output_type q = OUTPUT_LICENSE_PAYMENT then unat (out_amount_strikes q) else 0)"

lemma apply_ordinary_value:
  assumes "apply_ordinary H E X state us pending tx epoch height = Inr (v, us')"
  shows "total_value us' + unat (vt_fee v) = total_value us"
    and "treasury_value us' = treasury_value us + license_paid tx"
    and "v = \<lparr>vt_pending = pending, vt_tx = tx, vt_fee = vt_fee v, vt_base_fee = vt_base_fee v\<rparr>"
    and "vt_base_fee v \<le> vt_fee v"
    and "\<And>u. u \<in> set us \<Longrightarrow> u \<notin> set us' \<Longrightarrow> \<exists>j<length (core_inputs (tx_core tx)).
      \<exists>k. spent us k = u \<and> ordinary_input_ok H E X us height tx j (core_inputs (tx_core tx) ! j) k"
proof -
  let ?ins = "core_inputs (tx_core tx)" and ?outs = "core_outputs (tx_core tx)"
  obtain ks ins outs fee bf us1 where
    ins: "ordinary_inputs H E X (pt_txid pending) us height tx [] 0 0 ?ins = Inr (ks, ins)"
    and outs: "try_fold (ordinary_output (pt_txid pending)) 0 ?outs = Inr outs"
    and le: "outs \<le> ins" and fits: "unat (ins - outs) < 2 ^ 64" and fee: "fee = (ucast (ins - outs) :: u64)"
    and bf: "bf \<le> fee"
    and rem: "remove_consumed (Msg ''UTXO disappeared during block application'') ks us = Inr us1"
    and add: "add_outputs_as_utxos H X us1 tx epoch height False = Inr us'"
    and v: "v = \<lparr>vt_pending = pending, vt_tx = tx, vt_fee = fee, vt_base_fee = bf\<rparr>"
    using assms by (auto simp: apply_ordinary_def Let_def not_less split: if_splits prod.splits)
  obtain ks_ok: "distinct ks" and len: "length ks = length ?ins"
    and each: "\<And>j. j < length ?ins \<Longrightarrow> ordinary_input_ok H E X us height tx j (?ins ! j) (ks ! j)"
    and isum: "unat ins = (\<Sum>k\<leftarrow>ks. amount (spent us k))"
    using ordinary_inputs_ok [OF ins] by auto
  have all: "\<exists>j<length ?ins. ks ! j = k \<and> ordinary_input_ok H E X us height tx j (?ins ! j) k" if "k \<in> set ks" for k
    using that each len by (metis in_set_conv_nth)
  have found: "\<forall>k\<in>set ks. find_utxo k us \<noteq> None"
    using all by (auto simp: ordinary_input_ok_def)
  have plain: "treasury_amount (spent us k) = 0" if "k \<in> set ks" for k
    using all [OF that] by (auto simp: ordinary_input_ok_def treasury_amount_def PUBKEY_HASH_not_treasury)
  obtain us1' where r: "remove_consumed (Msg ''UTXO disappeared during block application'') ks us = Inr us1'"
    "\<And>f. held f us1' + (\<Sum>k\<leftarrow>ks. f (spent us k)) = held f us" "set us \<subseteq> spent us ` set ks \<union> set us1'"
    by (rule remove_consumed_found [OF ks_ok found]) blast
  have us1: "us1' = us1" using r(1) rem by simp
  have osum: "unat outs = (\<Sum>q\<leftarrow>?outs. unat (out_amount_strikes q))"
    using ordinary_outputs_sum(1) [OF outs] by simp
  have ufee: "unat fee = unat ins - unat outs"
    using le fits by (simp add: fee unsigned_ucast_eq take_bit_nat_eq_self unat_sub word_le_nat_alt)
  show "total_value us' + unat (vt_fee v) = total_value us"
    using r(2) [of amount] le add_outputs_value(1) [OF add] osum isum ufee us1
    by (simp add: v word_le_nat_alt)
  have "map (\<lambda>k. treasury_amount (spent us k)) ks = map (\<lambda>k. 0) ks"
    using plain by simp
  then have "(\<Sum>k\<leftarrow>ks. treasury_amount (spent us k)) = 0"
    by (simp only: sum_list_0)
  moreover have "(\<Sum>q\<leftarrow>?outs. treasury_out q) = license_paid tx"
    using ordinary_outputs_sum(2) [OF outs] unfolding license_paid_def
    by (intro arg_cong [where f = sum_list] map_cong)
      (auto simp: treasury_out_def treasury_controlled_def)
  ultimately show "treasury_value us' = treasury_value us + license_paid tx"
    using r(2) [of treasury_amount, unfolded us1] add_outputs_value(2) [OF add] by linarith
  show "v = \<lparr>vt_pending = pending, vt_tx = tx, vt_fee = vt_fee v, vt_base_fee = vt_base_fee v\<rparr>" "vt_base_fee v \<le> vt_fee v"
    using bf by (simp_all add: v)
  show "\<exists>j<length ?ins. \<exists>k. spent us k = u \<and> ordinary_input_ok H E X us height tx j (?ins ! j) k"
    if "u \<in> set us" "u \<notin> set us'" for u
    using that r(3) add_outputs_value(3) [OF add] us1 all by blast
qed


lemma payment_outputs_shape:
  assumes "payment_outputs_ok H state claim outs s = Inr ()" and "outs \<noteq> []"
  shows "(\<Sum>q\<leftarrow>outs. unat (out_amount_strikes q)) = unat s"
    and "(\<Sum>q\<leftarrow>outs. treasury_out q) + unat (dc_amount_strikes claim) = unat s"
proof -
  let ?c = "dc_amount_strikes claim"
  obtain first rest where outs: "outs = first # rest" using assms(2) by (cases outs) auto
  have f: "out_output_type first = OUTPUT_PUBKEY_HASH" "out_amount_strikes first = ?c" and le: "?c \<le> s"
    and shape: "s - ?c = 0 \<and> rest = [] \<or>
      (\<exists>q. rest = [q] \<and> out_amount_strikes q = s - ?c \<and> out_output_type q = OUTPUT_TREASURY)"
    using assms(1) unfolding outs
    by (auto simp: payment_outputs_ok_def Let_def not_less length_Suc_conv split: if_splits)
  have "unat (s - ?c) + unat ?c = unat s" using le by (simp add: unat_sub word_le_nat_alt)
  then show "(\<Sum>q\<leftarrow>outs. unat (out_amount_strikes q)) = unat s"
    and "(\<Sum>q\<leftarrow>outs. treasury_out q) + unat ?c = unat s"
    using shape f le unfolding outs
    by (auto simp: treasury_out_def PUBKEY_HASH_not_treasury treasury_controlled_def)
qed

lemma payment_value:
  assumes "validate_and_apply_payment H X state us tx op epoch height = Inr us'"
  obtains claim where "decode_claim_operation op = Inr claim" and "dc_payment_txid claim = tx_txid H tx"
    and "total_value us' = total_value us"
    and "treasury_value us' + unat (dc_amount_strikes claim) = treasury_value us"
    and "\<And>u. u \<in> set us \<Longrightarrow> u \<notin> set us' \<Longrightarrow> \<exists>j<length (core_inputs (tx_core tx)).
      \<exists>k. spent us k = u \<and> payment_input_ok X (operation_id H op) us height (tx_witnesses tx) j (core_inputs (tx_core tx) ! j) k"
proof -
  let ?ins = "core_inputs (tx_core tx)" and ?outs = "core_outputs (tx_core tx)"
  let ?ok = "payment_input_ok X (operation_id H op) us height (tx_witnesses tx)"
  let ?e = "Msg ''Treasury UTXO disappeared during dividend payment''"
  obtain claim ks s us1 where
    c: "decode_claim_operation op = Inr claim" "dc_payment_txid claim = tx_txid H tx"
    and hdr: "payment_header_ok state tx epoch = Inr ()"
    and ins: "payment_inputs X (operation_id H op) us height (tx_witnesses tx) [] 0 0 ?ins = Inr (ks, s)"
    and outs: "payment_outputs_ok H state claim ?outs s = Inr ()"
    and rem: "remove_consumed ?e ks us = Inr us1"
    and add: "add_outputs_as_utxos H X us1 tx epoch height False = Inr us'"
    using assms by (auto simp: validate_and_apply_payment_def split: if_splits prod.splits)
  have ne: "?outs \<noteq> []" using hdr by (auto simp: payment_header_ok_def Let_def split: if_splits)
  obtain ks_ok: "distinct ks" and len: "length ks = length ?ins"
    and each: "\<And>j. j < length ?ins \<Longrightarrow> ?ok j (?ins ! j) (ks ! j)"
    and isum: "unat s = (\<Sum>k\<leftarrow>ks. amount (spent us k))"
    using payment_inputs_ok [OF ins] by auto
  have all: "\<exists>j<length ?ins. ks ! j = k \<and> ?ok j (?ins ! j) k" if "k \<in> set ks" for k
    using that each len by (metis in_set_conv_nth)
  have found: "\<forall>k\<in>set ks. find_utxo k us \<noteq> None" using all by (auto simp: payment_input_ok_def)
  have treas: "map (\<lambda>k. treasury_amount (spent us k)) ks = map (\<lambda>k. amount (spent us k)) ks"
    using all by (auto simp: payment_input_ok_def treasury_amount_def)
  obtain us1' where r: "remove_consumed ?e ks us = Inr us1'"
    "\<And>f. held f us1' + (\<Sum>k\<leftarrow>ks. f (spent us k)) = held f us" "set us \<subseteq> spent us ` set ks \<union> set us1'"
    by (rule remove_consumed_found [OF ks_ok found]) blast
  have us1: "us1' = us1" using r(1) rem by simp
  show thesis
  proof (rule that [OF c])
    show "total_value us' = total_value us"
      using r(2) [of amount] add_outputs_value(1) [OF add] payment_outputs_shape(1) [OF outs ne] isum us1 by simp
    show "treasury_value us' + unat (dc_amount_strikes claim) = treasury_value us"
      using r(2) [of treasury_amount] add_outputs_value(2) [OF add] payment_outputs_shape(2) [OF outs ne] isum us1
      by (simp add: treas)
    show "\<exists>j<length ?ins. \<exists>k. spent us k = u \<and> ?ok j (?ins ! j) k" if "u \<in> set us" "u \<notin> set us'" for u
      using that r(3) add_outputs_value(3) [OF add] us1 all by blast
  qed
qed

section \<open>A block's transactions\<close>

text \<open>The Treasury value that a transaction of the block claims, by the dividend claim that names
  it, and the licence payments that an ordinary transaction makes.\<close>

definition claimed :: "(bytes \<Rightarrow> bytes) \<Rightarrow> ProtocolOperationV1 list \<Rightarrow> TransactionV1 \<Rightarrow> nat" where
  "claimed H ops tx =
     (case claim_operation_for_tx ops (tx_txid H tx) of
        Inr (Some op) \<Rightarrow> (case decode_claim_operation op of Inr c \<Rightarrow> unat (dc_amount_strikes c) | Inl _ \<Rightarrow> 0)
      | _ \<Rightarrow> 0)"

definition paid_in :: "(bytes \<Rightarrow> bytes) \<Rightarrow> ProtocolOperationV1 list \<Rightarrow> TransactionV1 \<Rightarrow> nat" where
  "paid_in H ops tx =
     (case claim_operation_for_tx ops (tx_txid H tx) of Inr None \<Rightarrow> license_paid tx | _ \<Rightarrow> 0)"

text \<open>A transaction is entitled to an unspent output by an input that names it: an ordinary one
  through a signature of the key behind the output's address over the spend, a dividend payment
  through the identifier of its claim in the witness, and then only to a Treasury output.\<close>

definition entitled ::
    "(bytes \<Rightarrow> bytes) \<Rightarrow> 'k ed25519_lib \<Rightarrow> hex_lib \<Rightarrow> ProtocolOperationV1 list \<Rightarrow> u64 \<Rightarrow> TransactionV1 \<Rightarrow> UtxoState \<Rightarrow> bool" where
  "entitled H E X ops height tx u \<longleftrightarrow>
     (\<exists>j<length (core_inputs (tx_core tx)). \<exists>t n.
        core_inputs (tx_core tx) ! j = Outpoint t n \<and> outpoint_of u = (hex_encode X t, n) \<and>
        spendable_at_height u height \<and>
        ((claim_operation_for_tx ops (tx_txid H tx) = Inr None \<and> us_output_type u = OUTPUT_PUBKEY_HASH \<and>
          (\<exists>address previous. decode32 X (us_payload u) = Inr address \<and> prevout X u = Inr previous \<and>
             verify_pubkey_hash_witness H E address (sighash_all H (tx_txid H tx) (of_nat j) previous)
               (tx_witnesses tx ! j) = Inr ())) \<or>
         (\<exists>op. claim_operation_for_tx ops (tx_txid H tx) = Inr (Some op) \<and> treasury_controlled (us_output_type u) \<and>
          wit_witness_type (tx_witnesses tx ! j) = WITNESS_PROTOCOL_AUTH \<and>
          wit_payload (tx_witnesses tx ! j) = operation_id H op)))"

lemma entitled_ordinary:
  assumes "j < length (core_inputs (tx_core tx))" "spent us k = u"
    "ordinary_input_ok H E X us height tx j (core_inputs (tx_core tx) ! j) k"
    "claim_operation_for_tx ops (tx_txid H tx) = Inr None"
  shows "entitled H E X ops height tx u"
proof -
  have f: "find_utxo k us = Some u" using assms(2,3) by (auto simp: ordinary_input_ok_def)
  then have "outpoint_of u = k" by (simp add: find_utxo_Some)
  moreover obtain t n where "core_inputs (tx_core tx) ! j = Outpoint t n" "k = (hex_encode X t, n)"
    using assms(3) by (auto simp: ordinary_input_ok_def)
  ultimately show ?thesis
    unfolding entitled_def using assms(1,3,4) f
    by (intro exI [of _ j] exI [of _ t] exI [of _ n]) (auto simp: ordinary_input_ok_def)
qed

lemma entitled_payment:
  assumes "j < length (core_inputs (tx_core tx))" "spent us k = u"
    "payment_input_ok X (operation_id H op) us height (tx_witnesses tx) j (core_inputs (tx_core tx) ! j) k"
    "claim_operation_for_tx ops (tx_txid H tx) = Inr (Some op)"
  shows "entitled H E X ops height tx u"
proof -
  have f: "find_utxo k us = Some u" using assms(2,3) by (auto simp: payment_input_ok_def)
  then have "outpoint_of u = k" by (simp add: find_utxo_Some)
  moreover obtain t n where "core_inputs (tx_core tx) ! j = Outpoint t n" "k = (hex_encode X t, n)"
    using assms(3) by (auto simp: payment_input_ok_def)
  ultimately show ?thesis
    unfolding entitled_def using assms(1,3,4) f
    by (intro exI [of _ j] exI [of _ t] exI [of _ n]) (auto simp: payment_input_ok_def)
qed

lemma apply_pending_value:
  assumes "apply_pending H E X state epoch height ops us pending = Inr (v, us')"
  shows "total_value us' + unat (vt_fee v) = total_value us"
    and "treasury_value us' + claimed H ops (vt_tx v) = treasury_value us + paid_in H ops (vt_tx v)"
    and "vt_base_fee v \<le> vt_fee v" and "vt_pending v = pending"
    and "\<And>u. u \<in> set us \<Longrightarrow> u \<notin> set us' \<Longrightarrow> entitled H E X ops height (vt_tx v) u"
proof -
  obtain tx found where c: "claim_operation_for_tx ops (tx_txid H tx) = Inr found"
    and run: "(case found of Some op \<Rightarrow>
           rbind (validate_and_apply_payment H X state us tx op epoch height) (\<lambda>working_utxos.
             Inr (\<lparr>vt_pending = pending, vt_tx = tx, vt_fee = 0, vt_base_fee = 0\<rparr>, working_utxos))
       | None \<Rightarrow> apply_ordinary H E X state us pending tx epoch height) = Inr (v, us')"
    using assms by (auto simp: apply_pending_def)
  have "total_value us' + unat (vt_fee v) = total_value us \<and>
    treasury_value us' + claimed H ops (vt_tx v) = treasury_value us + paid_in H ops (vt_tx v) \<and>
    vt_base_fee v \<le> vt_fee v \<and> vt_pending v = pending \<and>
    (\<forall>u. u \<in> set us \<longrightarrow> u \<notin> set us' \<longrightarrow> entitled H E X ops height (vt_tx v) u)"
  proof (cases found)
    case None
    then have o: "apply_ordinary H E X state us pending tx epoch height = Inr (v, us')" using run by simp
    have tx: "vt_tx v = tx" and p: "vt_pending v = pending"
      by (subst apply_ordinary_value(3) [OF o], simp)+
    have "entitled H E X ops height tx u" if u: "u \<in> set us" "u \<notin> set us'" for u
      using apply_ordinary_value(5) [OF o u] entitled_ordinary c None by blast
    then show ?thesis
      using apply_ordinary_value(1,2,4) [OF o] c None by (simp add: tx p claimed_def paid_in_def)
  next
    case (Some op)
    then have r: "validate_and_apply_payment H X state us tx op epoch height = Inr us'"
      and v: "v = \<lparr>vt_pending = pending, vt_tx = tx, vt_fee = 0, vt_base_fee = 0\<rparr>"
      using run by auto
    obtain claim where cl: "decode_claim_operation op = Inr claim"
      "total_value us' = total_value us" "treasury_value us' + unat (dc_amount_strikes claim) = treasury_value us"
      and sp: "\<And>u. u \<in> set us \<Longrightarrow> u \<notin> set us' \<Longrightarrow> \<exists>j<length (core_inputs (tx_core tx)).
        \<exists>k. spent us k = u \<and> payment_input_ok X (operation_id H op) us height (tx_witnesses tx) j (core_inputs (tx_core tx) ! j) k"
      using payment_value [OF r] by blast
    have "entitled H E X ops height tx u" if u: "u \<in> set us" "u \<notin> set us'" for u
      using sp [OF u] entitled_payment c Some by blast
    then show ?thesis
      using cl c Some by (simp add: v claimed_def paid_in_def)
  qed
  then show "total_value us' + unat (vt_fee v) = total_value us"
    "treasury_value us' + claimed H ops (vt_tx v) = treasury_value us + paid_in H ops (vt_tx v)"
    "vt_base_fee v \<le> vt_fee v" "vt_pending v = pending"
    "\<And>u. u \<in> set us \<Longrightarrow> u \<notin> set us' \<Longrightarrow> entitled H E X ops height (vt_tx v) u"
    by blast+
qed

lemma apply_pendings_value:
  assumes "apply_pendings H E X state epoch height ops us pendings = Inr (out, us')"
  shows "total_value us' + (\<Sum>v\<leftarrow>out. unat (vt_fee v)) = total_value us \<and>
    treasury_value us' + (\<Sum>v\<leftarrow>out. claimed H ops (vt_tx v)) = treasury_value us + (\<Sum>v\<leftarrow>out. paid_in H ops (vt_tx v)) \<and>
    (\<forall>v\<in>set out. vt_base_fee v \<le> vt_fee v) \<and> map vt_pending out = pendings \<and>
    (\<forall>u. u \<in> set us \<longrightarrow> u \<notin> set us' \<longrightarrow> (\<exists>v\<in>set out. entitled H E X ops height (vt_tx v) u))"
  using assms
proof (induction pendings arbitrary: us out)
  case (Cons p ps)
  obtain v us1 out1 where v: "apply_pending H E X state epoch height ops us p = Inr (v, us1)"
    and rest: "apply_pendings H E X state epoch height ops us1 ps = Inr (out1, us')" and out: "out = v # out1"
    using Cons.prems by auto
  show ?case
    using Cons.IH [OF rest] apply_pending_value [OF v] unfolding out by auto
qed simp


section \<open>Inputs on which the properties are evaluated\<close>

text \<open>A text form of bytes (one character each), a signature scheme whose signature is the digest
  twice, a state with one unspent output, and a transaction that spends it.\<close>

definition text_hex :: hex_lib where
  "text_hex = \<lparr>hex_encode = map (\<lambda>b. char_of (unat b)), hex_decode = (\<lambda>s. Inr (map (\<lambda>c. of_nat (of_char c)) s))\<rparr>"

lemma text_hex_sound: "hex_sound text_hex"
proof -
  have "(of_nat (of_char (char_of (unat b) :: char) :: nat) :: u8) = b" for b :: u8
    using unat_less_2p [of b] by (simp add: take_bit_nat_eq_self)
  then show ?thesis by (simp add: hex_sound_def text_hex_def comp_def)
qed

definition echo_ed25519 :: "bytes ed25519_lib" where
  "echo_ed25519 = \<lparr>vk_from_bytes = Some, vk_verify = (\<lambda>k d s. s = d @ d)\<rparr>"

definition blank_state :: DevnetState where
  "blank_state = \<lparr>ds_format_version = 10, ds_network_id = DEVNET_NETWORK_ID, ds_motto = MOTTO,
     ds_genesis_time_ms = 0, ds_genesis_hash = DEVNET_GENESIS_ID_HEX, ds_epoch_ms = 1, ds_height = 1,
     ds_tip_hash = [], ds_tip_epoch = 1, ds_anchor_epoch = 0, ds_anchor_license_id = [],
     ds_anchor_ticket_index = 0, ds_anchor_argon2_proof = [], ds_total_issued_strikes = 0,
     ds_difficulty_history_count = 0, ds_difficulty_history_bitmap = 0,
     ds_difficulty_correction_q32 = push_bit 32 1, ds_base_fee_rate_q32 = BASE_FEE_MIN_Q32,
     ds_current_state_root = [], ds_licenses = [], ds_consumed_native_payments = [],
     ds_consumed_bitcoin_payments = [], ds_consumed_evidence = [], ds_offense_events = [],
     ds_treasury_reserved_dividend_strikes = 0, ds_dividend_accounts = [],
     ds_historical_license_keys = [], ds_mining_presence = [], ds_bitcoin_headers = [],
     ds_bitcoin_best_chain = None, ds_utxos = [], ds_mempool = [], ds_pending_protocol_operations = [],
     ds_confirmed_transactions = [], ds_blocks = [], ds_side_branches = []\<rparr>"

definition sample_address :: bytes where
  "sample_address = address_id tail_hash (replicate 32 5)"

definition sample_utxo :: UtxoState where
  "sample_utxo = \<lparr>us_txid = hex_encode text_hex (replicate 32 9), us_output_index = 0,
     us_amount_strikes = 5000, us_output_type = OUTPUT_PUBKEY_HASH,
     us_payload = hex_encode text_hex sample_address, us_creation_epoch = 0, us_creation_height = 0,
     us_coinbase = False\<rparr>"

definition sample_core :: TransactionCoreV1 where
  "sample_core = \<lparr>core_version = 1, core_network_id = DEVNET_NETWORK_ID, core_valid_from_epoch = 0,
     core_expiry_epoch = 0, core_inputs = [Outpoint (replicate 32 9) 0],
     core_outputs = [\<lparr>out_amount_strikes = 4000, out_output_type = OUTPUT_PUBKEY_HASH,
        out_payload = sample_address\<rparr>]\<rparr>"

definition sample_witness :: WitnessV1 where
  "sample_witness =
     (let digest = sighash_all tail_hash (core_txid tail_hash sample_core) 0
            \<lparr>prev_previous_txid = replicate 32 9, prev_previous_output_index = 0, prev_amount_strikes = 5000,
             prev_output_type = OUTPUT_PUBKEY_HASH, prev_payload = sample_address\<rparr>
      in pubkey_hash_witness (replicate 32 5) (digest @ digest))"

definition sample_spend :: TransactionV1 where
  "sample_spend = \<lparr>tx_core = sample_core, tx_witnesses = [sample_witness]\<rparr>"

definition sample_pending :: PendingTxState where
  "sample_pending = \<lparr>pt_txid = hex_encode text_hex (tx_txid tail_hash sample_spend),
     pt_wtxid = hex_encode text_hex (wtxid tail_hash sample_spend), pt_valid_from_epoch = 0,
     pt_expiry_epoch = 0,
     pt_inputs = [\<lparr>sti_previous_txid = hex_encode text_hex (replicate 32 9), sti_previous_output_index = 0\<rparr>],
     pt_outputs = [\<lparr>sto_amount_strikes = 4000, sto_output_type = OUTPUT_PUBKEY_HASH,
        sto_payload = hex_encode text_hex sample_address\<rparr>],
     pt_witnesses = [\<lparr>stw_witness_type = wit_witness_type sample_witness,
        stw_payload = hex_encode text_hex (wit_payload sample_witness)\<rparr>],
     pt_fee_strikes = 0, pt_base_fee_strikes = 0, pt_from_license = 0, pt_to_license = 0,
     pt_amount_strikes = 0\<rparr>"

definition sample_mempool_run :: "NodeError + (ValidatedTx list \<times> UtxoState list)" where
  "sample_mempool_run =
     validate_and_apply_mempool tail_hash echo_ed25519 text_hex (blank_state\<lparr>ds_mempool := [sample_pending]\<rparr>)
       [sample_utxo] 5 2 []"

lemma encode_varuint_small: "unat v < 128 \<Longrightarrow> length (encode_varuint v) = 1"
  by (simp add: encode_varuint_eq leb128.simps)

lemma length_sha256_domain: "length (sha256_domain tail_hash t xs) = 32"
  by (simp add: sha256_domain_def length_tail_hash)

lemma sample_lengths:
  "length sample_address = 32" "length (wit_payload sample_witness) = 96"
  "length (tx_txid tail_hash sample_spend) = 32"
  by (simp_all add: sample_address_def address_id_def sample_witness_def Let_def pubkey_hash_witness_def
      sighash_all_def tx_txid_def core_txid_def length_sha256_domain)

lemma sample_spend_len: "serialized_len sample_spend = 198"
  by (simp add: serialized_len_def encode_full_eq TransactionCoreV1_encode_eq sample_spend_def sample_core_def
      TxOutput_encode_def WitnessV1_encode_def Let_def wire_simps encode_varuint_small sample_lengths)

lemma sample_base_fee: "required_base_fee BASE_FEE_MIN_Q32 198 = Inr 198"
  by (simp add: required_base_fee_eq BASE_FEE_MIN_Q32_def)

lemma sample_to_transaction: "to_transaction_for_network text_hex sample_pending DEVNET_NETWORK_ID = Inr sample_spend"
  by (simp add: to_transaction_for_network_def sample_pending_def decode32_encode [OF text_hex_sound]
      hex_decode_encode [OF text_hex_sound] sample_spend_def sample_core_def sample_lengths)


lemma sample_header: "mempool_header_ok tail_hash text_hex (blank_state\<lparr>ds_mempool := ps\<rparr>) sample_pending sample_spend 5 = Inr ()"
  by (simp add: mempool_header_ok_def Let_def sample_pending_def sample_spend_def sample_core_def blank_state_def)

lemma sample_inputs:
  "ordinary_inputs tail_hash echo_ed25519 text_hex ptxid [sample_utxo] 2 sample_spend [] 0 0 (core_inputs (tx_core sample_spend))
   = Inr ([outpoint_of sample_utxo], 5000)"
proof -
  have "prevout text_hex sample_utxo = Inr \<lparr>prev_previous_txid = replicate 32 9, prev_previous_output_index = 0,
      prev_amount_strikes = 5000, prev_output_type = OUTPUT_PUBKEY_HASH, prev_payload = sample_address\<rparr>"
    by (simp add: prevout_def sample_utxo_def decode32_encode [OF text_hex_sound] hex_decode_encode [OF text_hex_sound])
  moreover have "decode32 text_hex (us_payload sample_utxo) = Inr sample_address"
    by (simp add: sample_utxo_def decode32_encode [OF text_hex_sound] sample_lengths)
  moreover have "outpoint_of sample_utxo = (hex_encode text_hex (replicate 32 9), 0)"
    by (simp add: outpoint_of_def sample_utxo_def)
  moreover have "spendable_at_height sample_utxo 2" "us_output_type sample_utxo = OUTPUT_PUBKEY_HASH" "us_amount_strikes sample_utxo = 5000"
    by (simp_all add: spendable_at_height_def sample_utxo_def)
  ultimately show ?thesis
    by (simp add: sample_spend_def sample_core_def Let_def checked_add_def verify_pubkey_hash_witness_def sample_lengths)
      (simp add: sample_witness_def pubkey_hash_witness_def Let_def echo_ed25519_def tx_txid_def sample_address_def sample_core_def)
qed

lemma sample_outputs: "try_fold (ordinary_output ptxid) 0 (core_outputs (tx_core sample_spend)) = Inr 4000"
  by (simp add: sample_spend_def sample_core_def ordinary_output_def sample_lengths checked_add_def)

lemma sample_run:
  "sample_mempool_run = Inr ([\<lparr>vt_pending = sample_pending, vt_tx = sample_spend, vt_fee = 1000, vt_base_fee = 198\<rparr>],
     [sample_utxo\<lparr>us_txid := hex_encode text_hex (tx_txid tail_hash sample_spend), us_amount_strikes := 4000,
        us_creation_epoch := 5, us_creation_height := 2\<rparr>])"
proof -
  have "add_outputs_as_utxos tail_hash text_hex [] sample_spend 5 2 False =
     Inr [sample_utxo\<lparr>us_txid := hex_encode text_hex (tx_txid tail_hash sample_spend), us_amount_strikes := 4000,
        us_creation_epoch := 5, us_creation_height := 2\<rparr>]"
    by (simp add: add_outputs_as_utxos_def) (simp add: sample_spend_def sample_core_def sample_utxo_def)
  moreover have "ds_network_id blank_state = DEVNET_NETWORK_ID" "ds_base_fee_rate_q32 blank_state = BASE_FEE_MIN_Q32"
    by (simp_all add: blank_state_def)
  ultimately show ?thesis
    by (simp add: sample_mempool_run_def validate_and_apply_mempool_def apply_pending_def sample_to_transaction
        sample_header claim_operation_for_tx_def apply_ordinary_def sample_inputs sample_outputs sample_spend_len sample_base_fee)
qed


section \<open>Properties\<close>

text \<open>C2. Applying the block's transactions conserves value: the unspent outputs afterwards and the
  fees together hold what the unspent outputs held before, every pending transaction is applied in
  order, and each fee covers the base fee.\<close>

theorem mempool_conserves_value:
  assumes "validate_and_apply_mempool H E X state us epoch height ops = Inr (out, us')"
  shows "total_value us' + (\<Sum>v\<leftarrow>out. unat (vt_fee v)) = total_value us \<and>
    map vt_pending out = ds_mempool state \<and> (\<forall>v\<in>set out. vt_base_fee v \<le> vt_fee v)"
  using apply_pendings_value [OF assms [unfolded validate_and_apply_mempool_def]] by blast

theorem mempool_conserves_value_witness:
  "\<exists>out us'. sample_mempool_run = Inr (out, us') \<and>
    total_value us' + (\<Sum>v\<leftarrow>out. unat (vt_fee v)) = total_value [sample_utxo] \<and>
    map vt_pending out = [sample_pending] \<and> (\<forall>v\<in>set out. vt_base_fee v \<le> vt_fee v)"
  using mempool_conserves_value [OF sample_run [unfolded sample_mempool_run_def]] by (simp add: sample_run)

text \<open>Treasury value moves only by the rules: after the block's transactions the Treasury
  outputs hold what they held before, less the amounts of the dividend claims that the transactions
  pay, plus the licence payments of the others.\<close>

theorem treasury_moves_by_claims:
  assumes "validate_and_apply_mempool H E X state us epoch height ops = Inr (out, us')"
  shows "treasury_value us' + (\<Sum>v\<leftarrow>out. claimed H ops (vt_tx v)) =
    treasury_value us + (\<Sum>v\<leftarrow>out. paid_in H ops (vt_tx v))"
  using apply_pendings_value [OF assms [unfolded validate_and_apply_mempool_def]] by blast

theorem treasury_moves_by_claims_witness:
  "\<exists>out us'. sample_mempool_run = Inr (out, us') \<and>
    treasury_value us' + (\<Sum>v\<leftarrow>out. claimed tail_hash [] (vt_tx v)) =
    treasury_value [sample_utxo] + (\<Sum>v\<leftarrow>out. paid_in tail_hash [] (vt_tx v))"
  using treasury_moves_by_claims [OF sample_run [unfolded sample_mempool_run_def]] by (simp add: sample_run)

text \<open>C3. No output is spent without title: an unspent output that the block's transactions remove
  is named by an input of one of them, is mature, and either carries an address whose key signed
  that spend, or is a Treasury output spent by the payment of a dividend claim that the witness
  names.\<close>

theorem spent_outputs_entitled:
  assumes "validate_and_apply_mempool H E X state us epoch height ops = Inr (out, us')"
    and "u \<in> set us" and "u \<notin> set us'"
  shows "\<exists>v\<in>set out. entitled H E X ops height (vt_tx v) u"
  using apply_pendings_value [OF assms(1) [unfolded validate_and_apply_mempool_def]] assms(2,3) by blast

theorem spent_outputs_entitled_witness:
  "entitled tail_hash echo_ed25519 text_hex [] 2 sample_spend sample_utxo"
proof -
  have ne: "sample_utxo \<noteq> sample_utxo\<lparr>us_txid := t, us_amount_strikes := 4000, us_creation_epoch := 5, us_creation_height := 2\<rparr>" for t
    by (simp add: sample_utxo_def)
  show ?thesis
    using spent_outputs_entitled [OF sample_run [unfolded sample_mempool_run_def], of sample_utxo] ne by auto
qed

end
