(* ===== verification/Dividends.thy ===== *)
theory Dividends
  imports Funds "HOL-Library.Multiset"
begin

text \<open>
  The Treasury and the dividend accounts of the node (mutiny-node/src/dividends.rs): the epoch
  transition that expires and awards, the application of a claim, and the consistency check of the
  node. The lemmas show that both transitions keep that check passing, so the reserve is always the
  sum of what the licences may claim and is always backed by Treasury outputs.
\<close>

section \<open>Operations\<close>

definition DividendAccountState_account ::
    "hex_lib \<Rightarrow> DividendAccountState \<Rightarrow> NodeError + LicenseDividendAccountV1" where
  "DividendAccountState_account X s =
     rbind (decode32 X (da_license_id s)) (\<lambda>license_id.
       Inr \<lparr>div_license_id = license_id, div_award_epoch = da_award_epoch s,
            div_claim_deadline_epoch = da_claim_deadline_epoch s,
            div_claimable_strikes = da_claimable_strikes s\<rparr>)"

definition update_from :: "DividendAccountState \<Rightarrow> LicenseDividendAccountV1 \<Rightarrow> DividendAccountState" where
  "update_from s account =
     s\<lparr>da_award_epoch := div_award_epoch account,
       da_claim_deadline_epoch := div_claim_deadline_epoch account,
       da_claimable_strikes := div_claimable_strikes account\<rparr>"

definition treasury_total :: "UtxoState list \<Rightarrow> NodeError + u64" where
  "treasury_total utxos =
     try_fold (\<lambda>acc u. ok_or (Msg ''Treasury overflow'') (checked_add acc (us_amount_strikes u))) 0
       (filter (\<lambda>u. treasury_controlled (us_output_type u)) utxos)"

definition treasury_state :: "DevnetState \<Rightarrow> UtxoState list \<Rightarrow> NodeError + TreasuryStateV1" where
  "treasury_state state utxos =
     rbind (treasury_total utxos) (\<lambda>total.
     rbind (ok_or (Msg ''Treasury reserved dividends exceed Treasury UTXO backing'')
              (checked_sub total (ds_treasury_reserved_dividend_strikes state))) (\<lambda>available.
       Inr \<lparr>tre_available_strikes = available,
            tre_reserved_dividend_strikes = ds_treasury_reserved_dividend_strikes state\<rparr>))"

fun expire_accounts ::
    "u64 \<Rightarrow> u64 \<Rightarrow> DividendAccountState list \<Rightarrow> NodeError + (u64 \<times> DividendAccountState list)" where
  "expire_accounts epoch returned [] = Inr (returned, [])"
| "expire_accounts epoch returned (account # accounts) =
     (if epoch \<ge> da_claim_deadline_epoch account
      then rbind (ok_or (Msg ''expired dividend return overflow'')
                   (checked_add returned (da_claimable_strikes account))) (\<lambda>returned.
             expire_accounts epoch returned accounts)
      else rbind (expire_accounts epoch returned accounts) (\<lambda>(returned, retained).
             Inr (returned, account # retained)))"

text \<open>Queue hygiene: a pending operation stays unless it is a dividend claim that no active account
  can pay.\<close>

definition claim_retained ::
    "hex_lib \<Rightarrow> DividendAccountState list \<Rightarrow> u64 \<Rightarrow> PendingProtocolOperationState \<Rightarrow> bool" where
  "claim_retained X active_accounts epoch pending =
     (case pending_operation X pending of
        Inl _ \<Rightarrow> True
      | Inr op \<Rightarrow>
          if op_op_type op \<noteq> OP_DIVIDEND_CLAIM then True
          else case decode_claim_operation op of
                 Inl _ \<Rightarrow> True
               | Inr claim \<Rightarrow>
                   (\<exists>a\<in>set active_accounts. da_license_id a = hex_encode X (dc_license_id claim) \<and>
                      epoch \<ge> da_award_epoch a \<and> epoch < da_claim_deadline_epoch a \<and>
                      dc_amount_strikes claim > 0 \<and> dc_amount_strikes claim \<le> da_claimable_strikes a))"

definition drop_stale_claims :: "hex_lib \<Rightarrow> u64 \<Rightarrow> DevnetState \<Rightarrow> DevnetState" where
  "drop_stale_claims X epoch state =
     (let keep = claim_retained X (ds_dividend_accounts state) epoch;
          pending = ds_pending_protocol_operations state;
          stale = set (map po_required_txid (filter (\<lambda>p. \<not> keep p \<and> po_required_txid p \<noteq> []) pending))
      in state\<lparr>ds_pending_protocol_operations := filter keep pending,
               ds_mempool := filter (\<lambda>tx. pt_txid tx \<notin> stale) (ds_mempool state)\<rparr>)"

definition award_dividends :: "DevnetState \<Rightarrow> u64 \<Rightarrow> u64 \<Rightarrow> NodeError + ((u64 \<times> nat \<times> u64) \<times> DevnetState)" where
  "award_dividends state returned epoch =
     (if \<exists>a\<in>set (ds_dividend_accounts state). da_award_epoch a = epoch
      then Inl (Msg ''duplicate dividend award epoch transition'')
      else
        let eligible = map ls_license_id (filter (\<lambda>l. is_eligible l epoch) (ds_licenses state))
        in rbind (treasury_state state (ds_utxos state)) (\<lambda>treasury.
           rbind (map_err ProtErr (calculate_dividend_award (tre_available_strikes treasury)
                    (of_nat (length eligible)))) (\<lambda>calc.
           if dac_total_reserved_strikes calc = 0 then Inr ((returned, length eligible, 0), state)
           else
             rbind (ok_or (Msg ''dividend claim deadline overflow'')
                      (checked_add epoch DIVIDEND_CLAIM_WINDOW)) (\<lambda>deadline.
             rbind (ok_or (Msg ''Treasury dividend reserve overflow'')
                      (checked_add (ds_treasury_reserved_dividend_strikes state)
                         (dac_total_reserved_strikes calc))) (\<lambda>reserved.
               let accounts =
                     sort_key da_license_id (ds_dividend_accounts state @
                       map (\<lambda>license_id. \<lparr>da_license_id = license_id, da_award_epoch = epoch,
                                da_claim_deadline_epoch = deadline,
                                da_claimable_strikes = dac_per_license_strikes calc\<rparr>) eligible)
               in Inr ((returned, length (filter (\<lambda>a. da_award_epoch a = epoch) accounts),
                        dac_total_reserved_strikes calc),
                       state\<lparr>ds_treasury_reserved_dividend_strikes := reserved,
                             ds_dividend_accounts := accounts\<rparr>))))))"

definition process_epoch :: "hex_lib \<Rightarrow> DevnetState \<Rightarrow> u64 \<Rightarrow> NodeError + ((u64 \<times> nat \<times> u64) \<times> DevnetState)" where
  "process_epoch X state epoch =
     rbind (expire_accounts epoch 0 (ds_dividend_accounts state)) (\<lambda>(returned, retained).
     rbind (if returned > 0
            then ok_or (Msg ''Treasury reserved-dividend accounting underflow during expiry'')
                   (checked_sub (ds_treasury_reserved_dividend_strikes state) returned)
            else Inr (ds_treasury_reserved_dividend_strikes state)) (\<lambda>reserved.
     let state = drop_stale_claims X epoch
                   (state\<lparr>ds_dividend_accounts := retained, ds_treasury_reserved_dividend_strikes := reserved\<rparr>)
     in if epoch = 0 \<or> epoch mod DIVIDEND_AWARD_INTERVAL \<noteq> 0 then Inr ((returned, 0, 0), state)
        else award_dividends state returned epoch))"

text \<open>\<open>position\<close> of the first element with a key, and the element there.\<close>

fun position :: "('a \<Rightarrow> bool) \<Rightarrow> 'a list \<Rightarrow> nat option" where
  "position P [] = None"
| "position P (x # xs) = (if P x then Some 0 else map_option Suc (position P xs))"

definition apply_claim_operation ::
    "(bytes \<Rightarrow> bytes) \<Rightarrow> 'k ed25519_lib \<Rightarrow> hex_lib \<Rightarrow> DevnetState \<Rightarrow> TransactionV1 list \<Rightarrow> ProtocolOperationV1 \<Rightarrow>
     u64 \<Rightarrow> NodeError + DevnetState" where
  "apply_claim_operation H E X state txs op block_epoch =
     rbind (decode_claim_operation op) (\<lambda>claim.
     if \<not> (\<exists>tx\<in>set (tl txs). tx_txid H tx = dc_payment_txid claim)
     then Inl (Msg ''dividend claim is missing its same-block Treasury payment transaction'')
     else
       rbind (ok_or (Msg ''dividend claim references unknown LicenseID'')
                (position (\<lambda>l. ls_license_id l = hex_encode X (dc_license_id claim)) (ds_licenses state))) (\<lambda>license_index.
       rbind (ok_or (Msg ''dividend claim has no active dividend account'')
                (position (\<lambda>a. da_license_id a = ls_license_id (ds_licenses state ! license_index))
                   (ds_dividend_accounts state))) (\<lambda>account_index.
       rbind (license_record X (ds_licenses state ! license_index)) (\<lambda>record.
       rbind (DividendAccountState_account X (ds_dividend_accounts state ! account_index)) (\<lambda>account.
       let treasury = \<lparr>tre_available_strikes = 0,
                       tre_reserved_dividend_strikes = ds_treasury_reserved_dividend_strikes state\<rparr>
       in case apply_dividend_claim H E record account treasury claim block_epoch of
            (_, Inl e) \<Rightarrow> Inl (ProtErr e)
          | ((account, treasury), Inr _) \<Rightarrow>
              Inr (state\<lparr>ds_dividend_accounts := (ds_dividend_accounts state)
                            [account_index := update_from (ds_dividend_accounts state ! account_index) account],
                         ds_treasury_reserved_dividend_strikes := tre_reserved_dividend_strikes treasury\<rparr>))))))"

fun check_accounts ::
    "hex_lib \<Rightarrow> LicenseState list \<Rightarrow> string list \<Rightarrow> u64 \<Rightarrow> DividendAccountState list \<Rightarrow> NodeError + u64" where
  "check_accounts X licenses seen claimable_sum [] = Inr claimable_sum"
| "check_accounts X licenses seen claimable_sum (account # accounts) =
     rbind (decode32 X (da_license_id account)) (\<lambda>_.
     if da_license_id account \<in> set seen
     then Inl (Msg ''duplicate active dividend account for Mining License'')
     else if da_award_epoch account = 0 \<or> da_award_epoch account mod DIVIDEND_AWARD_INTERVAL \<noteq> 0
     then Inl (Msg ''dividend account award epoch is not a canonical 2^17 boundary'')
     else rbind (ok_or (Msg ''dividend deadline overflow'')
                  (checked_add (da_award_epoch account) DIVIDEND_CLAIM_WINDOW)) (\<lambda>deadline.
       if da_claim_deadline_epoch account \<noteq> deadline
       then Inl (Msg ''dividend account claim deadline mismatch'')
       else if \<not> (\<exists>l\<in>set licenses. ls_license_id l = da_license_id account)
       then Inl (Msg ''dividend account references unknown Mining License'')
       else rbind (ok_or (Msg ''dividend claimable sum overflow'')
                    (checked_add claimable_sum (da_claimable_strikes account))) (\<lambda>claimable_sum.
              check_accounts X licenses (da_license_id account # seen) claimable_sum accounts)))"

definition check_dividends :: "hex_lib \<Rightarrow> DevnetState \<Rightarrow> NodeError + unit" where
  "check_dividends X state =
     rbind (treasury_total (ds_utxos state)) (\<lambda>total.
     if ds_treasury_reserved_dividend_strikes state > total
     then Inl (Msg ''Treasury reserved dividends exceed Treasury UTXO backing'')
     else rbind (check_accounts X (ds_licenses state) [] 0 (ds_dividend_accounts state)) (\<lambda>claimable_sum.
            if claimable_sum \<noteq> ds_treasury_reserved_dividend_strikes state
            then Inl (Msg ''Treasury dividend reserve mismatch'') else Inr ()))"


section \<open>What the node's check says\<close>

lemma held_treasury: "treasury_value us = (\<Sum>u\<leftarrow>filter (\<lambda>u. treasury_controlled (us_output_type u)) us. unat (us_amount_strikes u))"
  by (induction us) (simp_all add: treasury_amount_def amount_def)

lemma treasury_total_iff: "treasury_total us = Inr t \<longleftrightarrow> unat t = treasury_value us"
proof
  assume "treasury_total us = Inr t"
  then show "unat t = treasury_value us"
    using try_fold_sum [of "Msg ''Treasury overflow''" us_amount_strikes 0] by (simp add: treasury_total_def held_treasury)
next
  assume t: "unat t = treasury_value us"
  then have "treasury_value us < 2 ^ 64" using unat_less_2p [of t] by simp
  then obtain b where "treasury_total us = Inr b"
    using try_fold_sum_ok [of "0 :: u64" us_amount_strikes _ "Msg ''Treasury overflow''"]
    by (auto simp: treasury_total_def held_treasury)
  moreover from this have "unat b = treasury_value us"
    using try_fold_sum [of "Msg ''Treasury overflow''" us_amount_strikes 0] by (simp add: treasury_total_def held_treasury)
  ultimately show "treasury_total us = Inr t" using t by (simp add: word_unat_eq_iff)
qed

definition account_ok :: "hex_lib \<Rightarrow> LicenseState list \<Rightarrow> DividendAccountState \<Rightarrow> bool" where
  "account_ok X licenses a \<longleftrightarrow>
     (\<exists>b. decode32 X (da_license_id a) = Inr b) \<and> da_award_epoch a \<noteq> 0 \<and>
     da_award_epoch a mod DIVIDEND_AWARD_INTERVAL = 0 \<and>
     checked_add (da_award_epoch a) DIVIDEND_CLAIM_WINDOW = Some (da_claim_deadline_epoch a) \<and>
     (\<exists>l\<in>set licenses. ls_license_id l = da_license_id a)"

definition claimable :: "DividendAccountState list \<Rightarrow> nat" where
  "claimable as = (\<Sum>a\<leftarrow>as. unat (da_claimable_strikes a))"

lemma claimable_simps [simp]:
  "claimable [] = 0" "claimable (a # as) = unat (da_claimable_strikes a) + claimable as"
  "claimable (as @ bs) = claimable as + claimable bs"
  by (simp_all add: claimable_def)

lemma check_accounts_iff:
  "check_accounts X licenses seen s as = Inr s' \<longleftrightarrow>
     (\<forall>a\<in>set as. account_ok X licenses a) \<and> distinct (map da_license_id as) \<and>
     da_license_id ` set as \<inter> set seen = {} \<and> unat s' = unat s + claimable as"
proof (induction as arbitrary: seen s)
  case Nil
  show ?case by (auto simp: word_unat_eq_iff)
next
  case (Cons a as)
  have sum: "(\<exists>c. checked_add s (da_claimable_strikes a) = Some c \<and> unat s' = unat c + claimable as) \<longleftrightarrow>
      unat s' = unat s + (unat (da_claimable_strikes a) + claimable as)"
  proof
    assume e: "unat s' = unat s + (unat (da_claimable_strikes a) + claimable as)"
    then have "unat s + unat (da_claimable_strikes a) < 2 ^ LENGTH(64)" using unat_less_2p [of s'] by simp
    then obtain c where "checked_add s (da_claimable_strikes a) = Some c" "unat c = unat s + unat (da_claimable_strikes a)"
      by (rule checked_add_ok)
    then show "\<exists>c. checked_add s (da_claimable_strikes a) = Some c \<and> unat s' = unat c + claimable as" using e by auto
  qed (auto simp: checked_add_Some_iff)
  define z where "z = da_award_epoch a mod DIVIDEND_AWARD_INTERVAL"
  have "check_accounts X licenses seen s (a # as) = Inr s' \<longleftrightarrow>
     account_ok X licenses a \<and> da_license_id a \<notin> set seen \<and>
     (\<exists>c. checked_add s (da_claimable_strikes a) = Some c \<and>
       check_accounts X licenses (da_license_id a # seen) c as = Inr s')"
    by (auto simp: account_ok_def z_def [symmetric])
  also have "\<dots> \<longleftrightarrow> account_ok X licenses a \<and> da_license_id a \<notin> set seen \<and>
     (\<forall>a\<in>set as. account_ok X licenses a) \<and> distinct (map da_license_id as) \<and>
     da_license_id ` set as \<inter> set (da_license_id a # seen) = {} \<and>
     unat s' = unat s + (unat (da_claimable_strikes a) + claimable as)"
    unfolding Cons.IH sum [symmetric] by blast
  also have "\<dots> \<longleftrightarrow> (\<forall>b\<in>set (a # as). account_ok X licenses b) \<and> distinct (map da_license_id (a # as)) \<and>
     da_license_id ` set (a # as) \<inter> set seen = {} \<and> unat s' = unat s + claimable (a # as)"
    by auto
  finally show ?case .
qed

lemma check_dividends_iff:
  "check_dividends X st = Inr () \<longleftrightarrow>
     treasury_value (ds_utxos st) < 2 ^ 64 \<and>
     unat (ds_treasury_reserved_dividend_strikes st) \<le> treasury_value (ds_utxos st) \<and>
     (\<forall>a\<in>set (ds_dividend_accounts st). account_ok X (ds_licenses st) a) \<and>
     distinct (map da_license_id (ds_dividend_accounts st)) \<and>
     unat (ds_treasury_reserved_dividend_strikes st) = claimable (ds_dividend_accounts st)"
  (is "_ \<longleftrightarrow> ?R")
proof
  assume "check_dividends X st = Inr ()"
  then obtain total where "treasury_total (ds_utxos st) = Inr total"
    "ds_treasury_reserved_dividend_strikes st \<le> total"
    "check_accounts X (ds_licenses st) [] 0 (ds_dividend_accounts st) = Inr (ds_treasury_reserved_dividend_strikes st)"
    by (auto simp: check_dividends_def not_less split: if_splits)
  then show ?R
    using unat_less_2p [of total] by (auto simp: treasury_total_iff check_accounts_iff word_le_nat_alt)
next
  assume r: ?R
  define total where "total = (of_nat (treasury_value (ds_utxos st)) :: u64)"
  have "unat total = treasury_value (ds_utxos st)" using r by (simp add: total_def unat_of_nat)
  then have "treasury_total (ds_utxos st) = Inr total" "ds_treasury_reserved_dividend_strikes st \<le> total"
    using r by (simp_all add: treasury_total_iff word_le_nat_alt)
  moreover have "check_accounts X (ds_licenses st) [] 0 (ds_dividend_accounts st) = Inr (ds_treasury_reserved_dividend_strikes st)"
    using r by (simp add: check_accounts_iff)
  ultimately show "check_dividends X st = Inr ()"
    by (simp add: check_dividends_def not_less)
qed

lemma expire_accounts_iff:
  "expire_accounts e r as = Inr (r', kept) \<longleftrightarrow>
     kept = filter (\<lambda>a. e < da_claim_deadline_epoch a) as \<and>
     unat r' = unat r + claimable (filter (\<lambda>a. \<not> e < da_claim_deadline_epoch a) as)"
proof (induction as arbitrary: r kept)
  case Nil
  show ?case by (auto simp: word_unat_eq_iff)
next
  case (Cons a as)
  show ?case
  proof (cases "e < da_claim_deadline_epoch a")
    case True
    then have "expire_accounts e r (a # as) = Inr (r', kept) \<longleftrightarrow>
        (\<exists>rest. expire_accounts e r as = Inr (r', rest) \<and> kept = a # rest)"
      by (auto simp: not_le)
    then show ?thesis unfolding Cons.IH using True by auto
  next
    case False
    let ?rest = "claimable (filter (\<lambda>a. \<not> e < da_claim_deadline_epoch a) as)"
    have "(\<exists>c. checked_add r (da_claimable_strikes a) = Some c \<and> unat r' = unat c + ?rest) \<longleftrightarrow>
      unat r' = unat r + (unat (da_claimable_strikes a) + ?rest)"
    proof
      assume eq: "unat r' = unat r + (unat (da_claimable_strikes a) + ?rest)"
      then have "unat r + unat (da_claimable_strikes a) < 2 ^ LENGTH(64)" using unat_less_2p [of r'] by simp
      then obtain c where "checked_add r (da_claimable_strikes a) = Some c" "unat c = unat r + unat (da_claimable_strikes a)"
        by (rule checked_add_ok)
      then show "\<exists>c. checked_add r (da_claimable_strikes a) = Some c \<and> unat r' = unat c + ?rest" using eq by auto
    qed (auto simp: checked_add_Some_iff)
    moreover have "expire_accounts e r (a # as) = Inr (r', kept) \<longleftrightarrow>
        (\<exists>c. checked_add r (da_claimable_strikes a) = Some c \<and> expire_accounts e c as = Inr (r', kept))"
      using False by (simp add: not_less)
    ultimately show ?thesis unfolding Cons.IH using False by simp blast
  qed
qed


section \<open>The transitions keep the check\<close>

lemma interval_mod: "e mod DIVIDEND_AWARD_INTERVAL = 0 \<longleftrightarrow> unat e mod 2 ^ 17 = 0"
  by (subst word_unat_eq_iff) (simp add: unat_mod DIVIDEND_AWARD_INTERVAL_def)

lemma award_deadline:
  "checked_add e DIVIDEND_CLAIM_WINDOW = Some d \<longleftrightarrow> unat e + 2 ^ 16 < 2 ^ 64 \<and> unat d = unat e + 2 ^ 16"
  by (simp add: checked_add_Some_iff DIVIDEND_CLAIM_WINDOW_def)

lemma award_epochs_apart:
  fixes a e :: nat
  assumes "a mod 2 ^ 17 = 0" "e mod 2 ^ 17 = 0" "a < e"
  shows "a + 2 ^ 16 \<le> e"
proof -
  obtain x y where "a = 2 ^ 17 * x" "e = 2 ^ 17 * y" using assms(1,2) by (auto simp: mod_eq_0_iff_dvd dvd_def)
  moreover from this have "Suc x \<le> y" using assms(3) by auto
  then have "2 ^ 17 * Suc x \<le> 2 ^ 17 * y" by (rule mult_le_mono2)
  ultimately show ?thesis by simp
qed

lemma claimable_sort: "claimable (sort_key f as) = claimable as"
proof -
  let ?g = "\<lambda>a. unat (da_claimable_strikes a)"
  have "sum_mset (image_mset ?g (mset (sort_key f as))) = sum_mset (image_mset ?g (mset as))" by simp
  then show ?thesis
    unfolding claimable_def by (simp only: mset_map [symmetric] sum_mset_sum_list)
qed

lemma distinct_map_sort: "distinct (map f (sort_key g as)) \<longleftrightarrow> distinct (map f as)"
  by (rule mset_eq_imp_distinct_iff) simp

lemma drop_stale_same [simp]:
  "ds_dividend_accounts (drop_stale_claims X e st) = ds_dividend_accounts st"
  "ds_treasury_reserved_dividend_strikes (drop_stale_claims X e st) = ds_treasury_reserved_dividend_strikes st"
  "ds_utxos (drop_stale_claims X e st) = ds_utxos st"
  "ds_licenses (drop_stale_claims X e st) = ds_licenses st"
  by (simp_all add: drop_stale_claims_def Let_def)

lemma claimable_filter: "claimable (filter P as) + claimable (filter (\<lambda>a. \<not> P a) as) = claimable as"
  by (induction as) auto

definition awards_before :: "DevnetState \<Rightarrow> u64 \<Rightarrow> bool" where
  "awards_before st e \<longleftrightarrow> (\<forall>a\<in>set (ds_dividend_accounts st). da_award_epoch a < e)"

definition registry_ok :: "hex_lib \<Rightarrow> DevnetState \<Rightarrow> bool" where
  "registry_ok X st \<longleftrightarrow>
     distinct (map ls_license_id (ds_licenses st)) \<and> length (ds_licenses st) < 2 ^ 64 \<and>
     (\<forall>l\<in>set (ds_licenses st). \<exists>b. decode32 X (ls_license_id l) = Inr b)"

lemma award_dividends_ok:
  assumes check: "check_dividends X st = Inr ()" and none: "ds_dividend_accounts st = []" and reg: "registry_ok X st"
    and e: "e \<noteq> 0" "e mod DIVIDEND_AWARD_INTERVAL = 0" "unat e + 2 ^ 16 < 2 ^ 64"
  shows "\<exists>r st'. award_dividends st ret e = Inr (r, st') \<and> check_dividends X st' = Inr () \<and>
     ds_utxos st' = ds_utxos st \<and> ds_licenses st' = ds_licenses st \<and>
     (\<forall>a\<in>set (ds_dividend_accounts st'). da_award_epoch a = e \<and> e < da_claim_deadline_epoch a)"
proof -
  define elig where "elig = map ls_license_id (filter (\<lambda>l. is_eligible l e) (ds_licenses st))"
  let ?n = "of_nat (length elig) :: u64"
  have "length elig \<le> length (ds_licenses st)" by (simp add: elig_def)
  then have nlen: "length elig < 2 ^ 64"
    by (rule le_less_trans) (use reg in \<open>simp add: registry_ok_def\<close>)
  have dist: "distinct elig" using reg by (simp add: elig_def registry_ok_def distinct_map_filter)
  have tv: "treasury_value (ds_utxos st) < 2 ^ 64" and res: "unat (ds_treasury_reserved_dividend_strikes st) = 0"
    using check none by (simp_all add: check_dividends_iff)
  define avail where "avail = (of_nat (treasury_value (ds_utxos st)) :: u64)"
  have ua: "unat avail = treasury_value (ds_utxos st)" using tv by (simp add: avail_def unat_of_nat)
  have r0: "ds_treasury_reserved_dividend_strikes st = 0" using res by (simp add: unat_eq_0)
  have ts: "treasury_state st (ds_utxos st) = Inr \<lparr>tre_available_strikes = avail, tre_reserved_dividend_strikes = 0\<rparr>"
    using ua by (simp add: treasury_state_def treasury_total_iff [THEN iffD2, OF ua] r0 checked_sub_def)
  obtain c where c: "calculate_dividend_award avail ?n = Inr c"
    "unat (dac_total_reserved_strikes c) = unat (dac_per_license_strikes c) * unat ?n"
    "unat (dac_total_reserved_strikes c) \<le> unat avail div 2"
    using calculate_dividend_award_total [of avail ?n] by (metis le_add1)
  obtain d where d: "checked_add e DIVIDEND_CLAIM_WINDOW = Some d" "unat d = unat e + 2 ^ 16"
    using e(3) checked_add_ok [of e DIVIDEND_CLAIM_WINDOW] by (auto simp: DIVIDEND_CLAIM_WINDOW_def)
  let ?new = "map (\<lambda>i. \<lparr>da_license_id = i, da_award_epoch = e, da_claim_deadline_epoch = d,
      da_claimable_strikes = dac_per_license_strikes c\<rparr>) elig"
  let ?st' = "st\<lparr>ds_treasury_reserved_dividend_strikes := dac_total_reserved_strikes c,
      ds_dividend_accounts := sort_key da_license_id ?new\<rparr>"
  have add0: "checked_add 0 (dac_total_reserved_strikes c) = Some (dac_total_reserved_strikes c)"
    using unat_less_2p [of "dac_total_reserved_strikes c"] by (simp add: checked_add_def)
  have run: "award_dividends st ret e = (if dac_total_reserved_strikes c = 0 then Inr ((ret, length elig, 0), st)
      else Inr ((ret, length (filter (\<lambda>a. da_award_epoch a = e) (sort_key da_license_id ?new)), dac_total_reserved_strikes c), ?st'))"
    by (simp add: award_dividends_def none Let_def elig_def [symmetric] ts c(1) d(1) r0 add0)
  have cl: "claimable ?new = length elig * unat (dac_per_license_strikes c)"
    by (simp add: claimable_def comp_def sum_list_triv)
  have ids: "map da_license_id ?new = elig" by (simp add: comp_def)
  have "account_ok X (ds_licenses st) a" if "a \<in> set ?new" for a
    using that reg e d(1) by (auto simp: account_ok_def elig_def registry_ok_def interval_mod)
  then have "check_dividends X ?st' = Inr ()"
    using tv c(2,3) nlen dist ua ids cl
    by (simp add: check_dividends_iff claimable_sort distinct_map_sort unat_of_nat mult.commute del: map_map)
  moreover have "\<forall>a\<in>set (sort_key da_license_id ?new). da_award_epoch a = e \<and> e < da_claim_deadline_epoch a"
    using d(2) by (auto simp: word_less_nat_alt)
  ultimately show ?thesis
    unfolding run using check none by (cases "dac_total_reserved_strikes c = 0") auto
qed

lemma process_epoch_ok:
  assumes check: "check_dividends X st = Inr ()" and reg: "registry_ok X st" and past: "awards_before st e"
    and room: "unat e + 2 ^ 16 < 2 ^ 64"
  shows "\<exists>r st'. process_epoch X st e = Inr (r, st') \<and> check_dividends X st' = Inr () \<and>
     ds_utxos st' = ds_utxos st \<and> ds_licenses st' = ds_licenses st \<and>
     (\<forall>a\<in>set (ds_dividend_accounts st'). da_award_epoch a \<le> e \<and> e < da_claim_deadline_epoch a)"
proof -
  let ?as = "ds_dividend_accounts st" and ?res = "ds_treasury_reserved_dividend_strikes st"
  let ?kept = "filter (\<lambda>a. e < da_claim_deadline_epoch a) ?as"
  let ?gone = "claimable (filter (\<lambda>a. \<not> e < da_claim_deadline_epoch a) ?as)"
  have inv: "treasury_value (ds_utxos st) < 2 ^ 64" "unat ?res \<le> treasury_value (ds_utxos st)"
    "\<forall>a\<in>set ?as. account_ok X (ds_licenses st) a" "distinct (map da_license_id ?as)" "unat ?res = claimable ?as"
    using check by (simp_all add: check_dividends_iff)
  have split: "claimable ?kept + ?gone = unat ?res" by (simp only: inv(5) claimable_filter)
  then have fits: "?gone < 2 ^ 64" using unat_less_2p [of ?res] by simp
  define r where "r = (of_nat ?gone :: u64)"
  have ur: "unat r = ?gone" using fits by (simp add: r_def unat_of_nat)
  have ex: "expire_accounts e 0 ?as = Inr (r, ?kept)" by (simp add: expire_accounts_iff ur)
  have rle: "r \<le> ?res" using split ur by (simp add: word_le_nat_alt)
  let ?st1 = "drop_stale_claims X e (st\<lparr>ds_dividend_accounts := ?kept, ds_treasury_reserved_dividend_strikes := ?res - r\<rparr>)"
  have "unat (?res - r) = claimable ?kept"
    using rle split ur by (simp add: unat_sub word_le_nat_alt)
  then have check1: "check_dividends X ?st1 = Inr ()"
    using inv split by (auto simp: check_dividends_iff distinct_map_filter)
  have run: "process_epoch X st e =
      (if e = 0 \<or> e mod DIVIDEND_AWARD_INTERVAL \<noteq> 0 then Inr ((r, 0, 0), ?st1) else award_dividends ?st1 r e)"
    using rle by (simp add: process_epoch_def ex Let_def checked_sub_def word_neq_0_conv [symmetric])
  show ?thesis
  proof (cases "e = 0 \<or> e mod DIVIDEND_AWARD_INTERVAL \<noteq> 0")
    case True
    then show ?thesis
      unfolding run using check1 past by (auto simp: awards_before_def)
  next
    case False
    have "?kept = []"
    proof (rule ccontr)
      assume "?kept \<noteq> []"
      then obtain a where a: "a \<in> set ?as" "e < da_claim_deadline_epoch a" by (auto simp: filter_empty_conv)
      then have "unat (da_award_epoch a) + 2 ^ 16 \<le> unat e"
        using inv(3) past False
        by (intro award_epochs_apart) (auto simp: account_ok_def interval_mod awards_before_def word_less_nat_alt)
      then show False
        using a inv(3) by (auto simp: account_ok_def award_deadline word_less_nat_alt)
    qed
    then have "ds_dividend_accounts ?st1 = []" by simp
    moreover have "registry_ok X ?st1" using reg by (simp add: registry_ok_def)
    ultimately obtain rr st' where aw: "award_dividends ?st1 r e = Inr (rr, st')" and st': "check_dividends X st' = Inr ()"
      "ds_utxos st' = ds_utxos st" "ds_licenses st' = ds_licenses st"
      "\<forall>a\<in>set (ds_dividend_accounts st'). da_award_epoch a = e \<and> e < da_claim_deadline_epoch a"
      using award_dividends_ok [OF check1 _ _ _ _ room, of r] False by (auto simp: interval_mod)
    have "process_epoch X st e = Inr (rr, st')" using run False aw by (simp only: if_False)
    then show ?thesis using st' by (intro exI [of _ rr] exI [of _ st']) auto
  qed
qed


lemma position_Some: "position P xs = Some i \<Longrightarrow> i < length xs \<and> P (xs ! i)"
  by (induction xs arbitrary: i) (auto split: if_splits)

lemma claimable_update:
  "i < length as \<Longrightarrow> claimable (as[i := a]) + unat (da_claimable_strikes (as ! i)) = claimable as + unat (da_claimable_strikes a)"
  by (induction as arbitrary: i) (auto split: nat.split)

lemma claim_case_Inr_iff:
  "(case p of (_, Inl e) \<Rightarrow> Inl (ProtErr e) | ((a, t), Inr _) \<Rightarrow> Inr (F a t)) = Inr y \<longleftrightarrow>
     (\<exists>a t u. p = ((a, t), Inr u) \<and> y = F a t)"
  by (cases p; cases "snd p") (auto split: prod.splits)

lemma apply_claim_effect:
  assumes "apply_claim_operation H E X st txs op ep = Inr st'"
  obtains c i where "decode_claim_operation op = Inr c" and "\<exists>tx\<in>set (tl txs). tx_txid H tx = dc_payment_txid c"
    and "i < length (ds_dividend_accounts st)"
    and "da_license_id (ds_dividend_accounts st ! i) = hex_encode X (dc_license_id c)"
    and "dc_amount_strikes c \<le> da_claimable_strikes (ds_dividend_accounts st ! i)" and "0 < dc_amount_strikes c"
    and "dc_amount_strikes c \<le> ds_treasury_reserved_dividend_strikes st"
    and "st' = st\<lparr>ds_dividend_accounts := (ds_dividend_accounts st)
           [i := (ds_dividend_accounts st ! i)\<lparr>da_claimable_strikes := da_claimable_strikes (ds_dividend_accounts st ! i) - dc_amount_strikes c\<rparr>],
         ds_treasury_reserved_dividend_strikes := ds_treasury_reserved_dividend_strikes st - dc_amount_strikes c\<rparr>"
  using assms unfolding apply_claim_operation_def Let_def rbind_eq_Inr_iff ok_or_eq_Inr_iff guard_eq_Inr_iff not_not claim_case_Inr_iff
proof (elim exE conjE, goal_cases)
  case (1 c li i rec acc acc' tre' u)
  have a: "div_award_epoch acc = da_award_epoch (ds_dividend_accounts st ! i)"
    "div_claim_deadline_epoch acc = da_claim_deadline_epoch (ds_dividend_accounts st ! i)"
    "div_claimable_strikes acc = da_claimable_strikes (ds_dividend_accounts st ! i)"
    using 1(7) by (auto simp: DividendAccountState_account_def)
  show ?case
    using position_Some [OF 1(4)] position_Some [OF 1(5)] 1(8,9) a
    by (intro 1(1) [OF 1(2,3)]) (auto simp: apply_dividend_claim_iff update_from_def)
qed

lemma apply_claim_ok:
  assumes run: "apply_claim_operation H E X st txs op ep = Inr st'" and check: "check_dividends X st = Inr ()"
  shows "check_dividends X st' = Inr ()"
proof -
  obtain c i where "decode_claim_operation op = Inr c" "\<exists>tx\<in>set (tl txs). tx_txid H tx = dc_payment_txid c"
    and i: "i < length (ds_dividend_accounts st)" and "da_license_id (ds_dividend_accounts st ! i) = hex_encode X (dc_license_id c)"
    and le1: "dc_amount_strikes c \<le> da_claimable_strikes (ds_dividend_accounts st ! i)" and "0 < dc_amount_strikes c"
    and le2: "dc_amount_strikes c \<le> ds_treasury_reserved_dividend_strikes st"
    and st': "st' = st\<lparr>ds_dividend_accounts := (ds_dividend_accounts st)
           [i := (ds_dividend_accounts st ! i)\<lparr>da_claimable_strikes := da_claimable_strikes (ds_dividend_accounts st ! i) - dc_amount_strikes c\<rparr>],
         ds_treasury_reserved_dividend_strikes := ds_treasury_reserved_dividend_strikes st - dc_amount_strikes c\<rparr>"
    by (rule apply_claim_effect [OF run])
  let ?as = "ds_dividend_accounts st"
  let ?a = "(?as ! i)\<lparr>da_claimable_strikes := da_claimable_strikes (?as ! i) - dc_amount_strikes c\<rparr>"
  have "map da_license_id (?as[i := ?a]) = map da_license_id ?as"
    using i by (simp add: map_update list_update_same_conv)
  moreover have "account_ok X (ds_licenses st) b" if "b \<in> set (?as[i := ?a])" for b
    using that check i set_update_subset_insert [of ?as i ?a]
    by (auto simp: check_dividends_iff account_ok_def)
  moreover have "claimable (?as[i := ?a]) + unat (dc_amount_strikes c) = claimable ?as"
    using claimable_update [OF i, of ?a] le1 by (simp add: unat_sub word_le_nat_alt)
  ultimately show ?thesis
    using check le2 unfolding st' by (auto simp: check_dividends_iff unat_sub word_le_nat_alt)
qed


section \<open>Epochs and claims as steps\<close>

text \<open>The node's state together with the last epoch processed: a later epoch is processed, or a
  claim of a block is applied.\<close>

inductive dividend_step ::
    "(bytes \<Rightarrow> bytes) \<Rightarrow> 'k ed25519_lib \<Rightarrow> hex_lib \<Rightarrow> u64 \<times> DevnetState \<Rightarrow> u64 \<times> DevnetState \<Rightarrow> bool"
  for H :: "bytes \<Rightarrow> bytes" and E :: "'k ed25519_lib" and X :: hex_lib where
  epoch: "now < e \<Longrightarrow> unat e + 2 ^ 16 < 2 ^ 64 \<Longrightarrow> process_epoch X st e = Inr (r, st') \<Longrightarrow>
    dividend_step H E X (now, st) (e, st')"
| claim: "apply_claim_operation H E X st txs op now = Inr st' \<Longrightarrow> dividend_step H E X (now, st) (now, st')"

definition dividends_ok :: "hex_lib \<Rightarrow> u64 \<times> DevnetState \<Rightarrow> bool" where
  "dividends_ok X s \<longleftrightarrow>
     check_dividends X (snd s) = Inr () \<and> registry_ok X (snd s) \<and>
     (\<forall>a\<in>set (ds_dividend_accounts (snd s)). da_award_epoch a \<le> fst s)"

lemma dividend_step_ok:
  assumes "dividend_step H E X s t" and "dividends_ok X s"
  shows "dividends_ok X t"
  using assms
proof (induction rule: dividend_step.induct)
  case (epoch now e st r st')
  then have c: "check_dividends X st = Inr ()" "registry_ok X st" "awards_before st e"
    by (auto simp: dividends_ok_def awards_before_def)
  from process_epoch_ok [OF c epoch.hyps(2)] epoch.hyps(3) c(2) show ?case
    by (auto simp: dividends_ok_def registry_ok_def)
next
  case (claim st txs op now st')
  then have keep: "check_dividends X st' = Inr ()"
    using apply_claim_ok [OF claim.hyps] by (simp add: dividends_ok_def)
  have eff: "ds_licenses st' = ds_licenses st"
    "da_award_epoch ` set (ds_dividend_accounts st') \<subseteq> da_award_epoch ` set (ds_dividend_accounts st)"
    using claim.hyps
    by (auto elim!: apply_claim_effect dest!: set_update_subset_insert [THEN subsetD])
  have "da_award_epoch a \<le> now" if "a \<in> set (ds_dividend_accounts st')" for a
  proof -
    have "da_award_epoch a \<in> da_award_epoch ` set (ds_dividend_accounts st)" using that eff(2) by blast
    then show ?thesis using claim.prems by (auto simp: dividends_ok_def)
  qed
  then show ?case
    using claim.prems keep eff(1) by (simp add: dividends_ok_def registry_ok_def)
qed

interpretation divs: step_invariant "dividend_step H E X" "dividends_ok X"
  by unfold_locales (rule dividend_step_ok)

section \<open>Properties\<close>

definition dividend_sample :: DevnetState where
  "dividend_sample = blank_state\<lparr>
     ds_utxos := [sample_utxo\<lparr>us_output_type := OUTPUT_TREASURY, us_amount_strikes := 100\<rparr>],
     ds_licenses := [\<lparr>ls_index = 0, ls_license_id = hex_encode text_hex (replicate 32 1), ls_purchase_id = [],
        ls_owner_public_key = [], ls_mining_public_key = [], ls_payment_address_id = [],
        ls_status = LICENSE_STATUS_ACTIVE, ls_purchase_method = PURCHASE_METHOD_BTC, ls_owner_key_sequence = 0,
        ls_mining_key_sequence = 0, ls_issued_epoch = 0, ls_activation_epoch = 64, ls_strike_weight = 0,
        ls_suspended_until_epoch = 0, ls_revocation_epoch = 0\<rparr>]\<rparr>"

lemma dividend_sample_ok:
  "check_dividends text_hex dividend_sample = Inr ()" "registry_ok text_hex dividend_sample"
  "awards_before dividend_sample e"
  by (simp_all add: check_dividends_iff registry_ok_def awards_before_def dividend_sample_def blank_state_def
      treasury_amount_def treasury_controlled_def amount_def decode32_encode [OF text_hex_sound])

text \<open>C16. Processing an epoch never fails on a consistent state: if the node's dividend check passes,
  the licence registry is sound and all awards are of earlier epochs, \<open>process_epoch\<close> succeeds, the
  check passes again, and no account that is left has expired; outputs and licences are untouched.\<close>

theorem dividend_epoch_total:
  assumes "check_dividends X st = Inr ()" and "registry_ok X st" and "awards_before st e"
    and "unat e + 2 ^ 16 < 2 ^ 64"
  shows "\<exists>r st'. process_epoch X st e = Inr (r, st') \<and> check_dividends X st' = Inr () \<and>
     ds_utxos st' = ds_utxos st \<and> ds_licenses st' = ds_licenses st \<and>
     (\<forall>a\<in>set (ds_dividend_accounts st'). da_award_epoch a \<le> e \<and> e < da_claim_deadline_epoch a)"
  by (rule process_epoch_ok [OF assms])

theorem dividend_epoch_total_witness:
  "\<exists>r st'. process_epoch text_hex dividend_sample (push_bit 17 1) = Inr (r, st') \<and>
     check_dividends text_hex st' = Inr ()"
  using dividend_epoch_total [OF dividend_sample_ok, of "push_bit 17 1"] by auto



end
