(* ===== verification/Block.thy ===== *)
theory Block
  imports Dividends
begin

text \<open>
  The settlement of a received block (mutiny-node/src/blocksync.rs): its transactions become
  pending ones, are validated against the unspent outputs, their fees are split, and the coinbase
  must pay exactly the subsidy and the fee shares. The lemmas show that a settled block issues
  exactly its subsidy and that what is validated is what the block carries.
\<close>

section \<open>Operations\<close>

definition authority_fee_marker :: "bytes \<Rightarrow> u64" where
  "authority_fee_marker license_id = ucast (from_be_bytes (take 2 license_id) :: u16) + 1"

fun fee_inputs_match :: "hex_lib \<Rightarrow> DevnetState \<Rightarrow> LicenseState \<Rightarrow> TxInput list \<Rightarrow> bool" where
  "fee_inputs_match X state license [] = True"
| "fee_inputs_match X state license (input # inputs) =
     (case input of
        Coinbase _ \<Rightarrow> False
      | Outpoint previous_txid previous_output_index \<Rightarrow>
          (case find_utxo (hex_encode X previous_txid, previous_output_index) (ds_utxos state) of
             None \<Rightarrow> False
           | Some u \<Rightarrow>
               if us_output_type u \<noteq> OUTPUT_PUBKEY_HASH \<or> us_payload u \<noteq> ls_payment_address_id license
               then False else fee_inputs_match X state license inputs))"

definition authority_fee_ticket_matches :: "hex_lib \<Rightarrow> DevnetState \<Rightarrow> TransactionV1 \<Rightarrow> nat \<Rightarrow> bool" where
  "authority_fee_ticket_matches X state tx license_index =
     (if license_index \<ge> length (ds_licenses state) then False
      else
        let license = ds_licenses state ! license_index; core = tx_core tx
        in case decode32 X (ls_license_id license) of
             Inl _ \<Rightarrow> False
           | Inr license_id \<Rightarrow>
               (case decode32 X (ls_payment_address_id license) of
                  Inl _ \<Rightarrow> False
                | Inr address \<Rightarrow>
                    if core_inputs core = [] \<or> core_outputs core = [] then False
                    else if out_output_type (core_outputs core ! 0) \<noteq> OUTPUT_PUBKEY_HASH \<or>
                            out_amount_strikes (core_outputs core ! 0) \<noteq> authority_fee_marker license_id \<or>
                            out_payload (core_outputs core ! 0) \<noteq> address
                    then False
                    else if \<exists>q\<in>set (core_outputs core). out_output_type q \<noteq> OUTPUT_PUBKEY_HASH \<or> out_payload q \<noteq> address
                    then False
                    else fee_inputs_match X state license (core_inputs core)))"

definition authority_fee_ticket_license_index :: "hex_lib \<Rightarrow> DevnetState \<Rightarrow> TransactionV1 \<Rightarrow> nat option" where
  "authority_fee_ticket_license_index X state tx =
     (case filter (authority_fee_ticket_matches X state tx) [0..<length (ds_licenses state)] of
        [only] \<Rightarrow> Some only
      | _ \<Rightarrow> None)"

definition stored_input :: "hex_lib \<Rightarrow> TxInput \<Rightarrow> NodeError + StoredTxInput" where
  "stored_input X input =
     (case input of
        Outpoint previous_txid previous_output_index \<Rightarrow>
          Inr \<lparr>sti_previous_txid = hex_encode X previous_txid,
               sti_previous_output_index = previous_output_index\<rparr>
      | Coinbase _ \<Rightarrow> Inl (Msg ''coinbase cannot be converted to ordinary pending transaction''))"

definition stored_utxo :: "DevnetState \<Rightarrow> StoredTxInput \<Rightarrow> UtxoState option" where
  "stored_utxo state i = find_utxo (sti_previous_txid i, sti_previous_output_index i) (ds_utxos state)"

text \<open>The licence whose payment address is a payload: \<open>position\<close> in the registry.\<close>

definition address_license :: "DevnetState \<Rightarrow> string \<Rightarrow> nat option" where
  "address_license state payload = position (\<lambda>l. ls_payment_address_id l = payload) (ds_licenses state)"

definition first_owner :: "DevnetState \<Rightarrow> StoredTxInput list \<Rightarrow> nat" where
  "first_owner state inputs =
     (case inputs of [] \<Rightarrow> 0
      | i # _ \<Rightarrow> (case stored_utxo state i of None \<Rightarrow> 0
                 | Some u \<Rightarrow> (case address_license state (us_payload u) of None \<Rightarrow> 0 | Some n \<Rightarrow> n)))"

definition first_recipient :: "hex_lib \<Rightarrow> DevnetState \<Rightarrow> TransactionV1 \<Rightarrow> nat option \<Rightarrow> nat \<Rightarrow> nat" where
  "first_recipient X state tx authority_target metadata_owner =
     (if \<exists>q\<in>set (core_outputs (tx_core tx)). out_output_type q = OUTPUT_LICENSE_PAYMENT then metadata_owner
      else case authority_target of
             Some target \<Rightarrow> target
           | None \<Rightarrow>
               (case core_outputs (tx_core tx) of [] \<Rightarrow> 0
                | q # _ \<Rightarrow>
                    if out_output_type q \<noteq> OUTPUT_PUBKEY_HASH \<or> length (out_payload q) \<noteq> 32 then 0
                    else case address_license state (hex_encode X (out_payload q)) of None \<Rightarrow> 0 | Some n \<Rightarrow> n))"

definition u8_or_zero :: "nat \<Rightarrow> u8" where
  "u8_or_zero n = (if n < 2 ^ 8 then of_nat n else 0)"

definition pending_from_transaction ::
    "(bytes \<Rightarrow> bytes) \<Rightarrow> hex_lib \<Rightarrow> DevnetState \<Rightarrow> TransactionV1 \<Rightarrow> NodeError + PendingTxState" where
  "pending_from_transaction H X state tx =
     (let core = tx_core tx
      in if core_version core \<noteq> 1 \<or> core_network_id core \<noteq> ds_network_id state
         then Inl (Msg ''transaction version/network does not match selected state'')
         else rbind (try_map (stored_input X) (core_inputs core)) (\<lambda>inputs.
           let outputs = map (\<lambda>q. \<lparr>sto_amount_strikes = out_amount_strikes q,
                    sto_output_type = out_output_type q, sto_payload = hex_encode X (out_payload q)\<rparr>)
                    (core_outputs core);
               witnesses = map (\<lambda>w. \<lparr>stw_witness_type = wit_witness_type w,
                    stw_payload = hex_encode X (wit_payload w)\<rparr>) (tx_witnesses tx);
               authority_target = authority_fee_ticket_license_index X state tx;
               metadata_owner = (case authority_target of Some t \<Rightarrow> t | None \<Rightarrow> first_owner state inputs);
               recipient = first_recipient X state tx authority_target metadata_owner
           in rbind (try_fold (\<lambda>acc i. case stored_utxo state i of
                        Some u \<Rightarrow> ok_or (Msg ''input sum overflow'') (checked_add acc (us_amount_strikes u))
                      | None \<Rightarrow> Inr acc) 0 inputs) (\<lambda>input_sum.
              rbind (try_fold (\<lambda>acc q. ok_or (Msg ''output sum overflow'')
                        (checked_add acc (out_amount_strikes q))) 0 (core_outputs core)) (\<lambda>output_sum.
              rbind (if \<exists>w\<in>set (tx_witnesses tx). wit_witness_type w = WITNESS_PROTOCOL_AUTH then Inr 0
                     else map_err TxErr (required_base_fee (ds_base_fee_rate_q32 state)
                            (of_nat (serialized_len tx)))) (\<lambda>base_fee.
                Inr \<lparr>pt_txid = hex_encode X (tx_txid H tx), pt_wtxid = hex_encode X (wtxid H tx),
                     pt_valid_from_epoch = core_valid_from_epoch core,
                     pt_expiry_epoch = core_expiry_epoch core, pt_inputs = inputs, pt_outputs = outputs,
                     pt_witnesses = witnesses, pt_fee_strikes = saturating_sub input_sum output_sum,
                     pt_base_fee_strikes = base_fee, pt_from_license = u8_or_zero metadata_owner,
                     pt_to_license = u8_or_zero recipient,
                     pt_amount_strikes = (case core_outputs core of [] \<Rightarrow> 0 | q # _ \<Rightarrow> out_amount_strikes q)\<rparr>)))))"

fun split_fees :: "u64 \<Rightarrow> u64 \<Rightarrow> ValidatedTx list \<Rightarrow> NodeError + (ValidatedTx list \<times> u64 \<times> u64)" where
  "split_fees total_fees treasury_share [] = Inr ([], total_fees, treasury_share)"
| "split_fees total_fees treasury_share (v # validated) =
     rbind (ok_or (Msg ''fee overflow'') (checked_add total_fees (vt_fee v))) (\<lambda>total_fees.
     rbind (ok_or (Msg ''treasury fee overflow'') (checked_add treasury_share (vt_base_fee v div 2))) (\<lambda>treasury_share.
     rbind (split_fees total_fees treasury_share validated) (\<lambda>(validated, total_fees, treasury_share).
       Inr (v\<lparr>vt_pending := (vt_pending v)\<lparr>pt_fee_strikes := vt_fee v,
                                           pt_base_fee_strikes := vt_base_fee v\<rparr>\<rparr> # validated,
            total_fees, treasury_share))))"

definition expected_coinbase_outputs ::
    "(bytes \<Rightarrow> bytes) \<Rightarrow> u32 \<Rightarrow> u64 \<Rightarrow> bytes \<Rightarrow> u64 \<Rightarrow> TxOutput list" where
  "expected_coinbase_outputs H network_id miner_coinbase_amount payment_address treasury_share =
     \<lparr>out_amount_strikes = miner_coinbase_amount, out_output_type = OUTPUT_PUBKEY_HASH,
      out_payload = payment_address\<rparr> #
     (if treasury_share > 0
      then [\<lparr>out_amount_strikes = treasury_share, out_output_type = OUTPUT_TREASURY,
             out_payload = treasury_id_for_network H network_id\<rparr>]
      else [])"

definition check_coinbase ::
    "(bytes \<Rightarrow> bytes) \<Rightarrow> u32 \<Rightarrow> TransactionV1 \<Rightarrow> ProtocolOperationV1 list \<Rightarrow> u64 \<Rightarrow> u64 \<Rightarrow> bytes \<Rightarrow> NodeError + unit" where
  "check_coinbase H network_id coinbase operations epoch height parent =
     (let core = tx_core coinbase
      in if core_version core \<noteq> 1 \<or> core_network_id core \<noteq> network_id \<or>
            core_valid_from_epoch core \<noteq> epoch \<or> core_expiry_epoch core \<noteq> 0 \<or> tx_witnesses coinbase \<noteq> []
         then Inl (Msg ''coinbase core/witness fields are not canonical'')
         else rbind (case core_inputs core of
                       [Coinbase commitment] \<Rightarrow> Inr commitment
                     | _ \<Rightarrow> Inl (Msg ''coinbase must have exactly one null-outpoint commitment input'')) (\<lambda>commitment.
              rbind (map_err ProtErr (protocol_operations_root H operations)) (\<lambda>operation_root.
              if cb_block_epoch commitment \<noteq> epoch \<or> cb_block_height commitment \<noteq> height \<or>
                 cb_parent_block_hash commitment \<noteq> parent \<or>
                 cb_protocol_operations_root commitment \<noteq> operation_root
              then Inl (Msg ''coinbase commitment mismatch'') else Inr ())))"

function varuint_len :: "u64 \<Rightarrow> nat" where
  "varuint_len v = (if v \<ge> 0x80 then Suc (varuint_len (drop_bit 7 v)) else 1)"
  by auto
termination
proof (relation "measure unat")
  fix v :: u64
  assume "0x80 \<le> v"
  then have "0 < unat v" by (simp add: word_le_nat_alt)
  then show "(drop_bit 7 v, v) \<in> measure unat"
    by (simp add: drop_bit_eq_div unat_div)
qed simp

declare varuint_len.simps [simp del]

definition block_body_weight :: "TransactionV1 list \<Rightarrow> ProtocolOperationV1 list \<Rightarrow> NodeError + u64" where
  "block_body_weight txs operations =
     (let e = Msg ''block weight overflow''; weight = of_nat (varuint_len (of_nat (length txs)))
      in rbind (try_fold (\<lambda>weight tx. ok_or e (checked_add weight (of_nat (serialized_len tx)))) weight txs) (\<lambda>weight.
         rbind (ok_or e (checked_add weight (of_nat (varuint_len (of_nat (length operations)))))) (\<lambda>weight.
           try_fold (\<lambda>weight op. ok_or e (checked_add weight (of_nat (length (ProtocolOperationV1_encode op)))))
             weight operations)))"

definition check_body ::
    "(bytes \<Rightarrow> bytes) \<Rightarrow> bytes \<Rightarrow> TransactionV1 list \<Rightarrow> ProtocolOperationV1 list \<Rightarrow> NodeError + u64" where
  "check_body H header_tx_root txs operations =
     (if txs = [] then Inl (Msg ''block has no coinbase transaction'')
      else rbind (ok_or (Msg ''block has no transaction Merkle root'') (merkle_root H (map (tx_leaf H) txs))) (\<lambda>tx_root.
        if tx_root \<noteq> header_tx_root then Inl (Msg ''TransactionRoot mismatch'')
        else rbind (block_body_weight txs operations) (\<lambda>block_weight.
          if block_weight > BLOCK_WEIGHT_MAX then Inl (Msg ''block exceeds maximum body weight'')
          else Inr block_weight)))"

text \<open>\<open>next\<close> is the state at the block's epoch, \<open>license\<close> the miner's licence in it, \<open>parent\<close> and
  \<open>header_tx_root\<close> fields of the header; the result is the validated transactions, the fee sums,
  the new unspent outputs, the new count of issued strikes and the block's weight.\<close>

definition settle_block ::
    "(bytes \<Rightarrow> bytes) \<Rightarrow> 'k ed25519_lib \<Rightarrow> hex_lib \<Rightarrow> DevnetState \<Rightarrow> LicenseState \<Rightarrow> TransactionV1 list \<Rightarrow>
     ProtocolOperationV1 list \<Rightarrow> u64 \<Rightarrow> bytes \<Rightarrow> bytes \<Rightarrow>
     NodeError + (ValidatedTx list \<times> u64 \<times> u64 \<times> UtxoState list \<times> u64 \<times> u64)" where
  "settle_block H E X next license txs operations epoch parent header_tx_root =
     (let height = ds_height next + 1
      in rbind (check_body H header_tx_root txs operations) (\<lambda>block_weight.
         rbind (try_map (pending_from_transaction H X next) (tl txs)) (\<lambda>pending.
         rbind (validate_and_apply_mempool H E X (next\<lparr>ds_mempool := pending\<rparr>) (ds_utxos next) epoch height
                  operations) (\<lambda>(validated, working_utxos).
         rbind (split_fees 0 0 validated) (\<lambda>(validated, total_fees, treasury_share).
         rbind (ok_or (Msg ''fee split underflow'') (checked_sub total_fees treasury_share)) (\<lambda>miner_fee_share.
         rbind (ok_or (Msg ''coinbase overflow'') (checked_add (subsidy epoch) miner_fee_share)) (\<lambda>miner_coinbase_amount.
         rbind (check_coinbase H (ds_network_id next) (hd txs) operations epoch height parent) (\<lambda>_.
         rbind (decode32 X (ls_payment_address_id license)) (\<lambda>payment_address.
         if core_outputs (tx_core (hd txs)) \<noteq>
              expected_coinbase_outputs H (ds_network_id next) miner_coinbase_amount payment_address treasury_share
         then Inl (Msg ''coinbase outputs do not exactly match subsidy + fee split'')
         else
           rbind (add_outputs_as_utxos H X working_utxos (hd txs) epoch height True) (\<lambda>working_utxos.
           rbind (ok_or (Msg ''supply overflow'') (checked_add (ds_total_issued_strikes next) (subsidy epoch)))
             (\<lambda>next_total_issued.
              Inr (validated, total_fees, treasury_share, working_utxos, next_total_issued, block_weight))))))))))))"

section \<open>The transactions of the block\<close>

lemma stored_inputs:
  assumes X: "hex_sound X" and "try_map (stored_input X) ins = Inr sts" and "list_all wf_input ins"
  shows "try_map (\<lambda>i. rbind (decode32 X (sti_previous_txid i)) (\<lambda>t.
           Inr (Outpoint t (sti_previous_output_index i)))) sts = Inr ins"
  using assms(2,3)
proof (induction ins arbitrary: sts)
  case (Cons i ins)
  then show ?case
    by (cases i) (auto simp: stored_input_def decode32_encode [OF X])
qed simp

lemma stored_outputs:
  "hex_sound X \<Longrightarrow>
   try_map (\<lambda>q. rbind (map_err HexErr (hex_decode X (sto_payload q))) (\<lambda>p.
     Inr \<lparr>out_amount_strikes = sto_amount_strikes q, out_output_type = sto_output_type q, out_payload = p\<rparr>))
     (map (\<lambda>q. \<lparr>sto_amount_strikes = out_amount_strikes q, sto_output_type = out_output_type q,
        sto_payload = hex_encode X (out_payload q)\<rparr>) outs) = Inr (outs :: TxOutput list)"
  by (induction outs) (simp_all add: hex_decode_encode)

lemma stored_witnesses:
  "hex_sound X \<Longrightarrow>
   try_map (\<lambda>w. rbind (map_err HexErr (hex_decode X (stw_payload w))) (\<lambda>p.
     Inr \<lparr>wit_witness_type = stw_witness_type w, wit_payload = p\<rparr>))
     (map (\<lambda>w. \<lparr>stw_witness_type = wit_witness_type w, stw_payload = hex_encode X (wit_payload w)\<rparr>) ws)
   = Inr (ws :: WitnessV1 list)"
  by (induction ws) (simp_all add: hex_decode_encode)

lemma pending_from_transaction_inverse:
  assumes X: "hex_sound X" and wf: "wf_tx tx" and p: "pending_from_transaction H X st tx = Inr p"
  shows "to_transaction_for_network X p (ds_network_id st) = Inr tx"
proof -
  let ?c = "tx_core tx"
  obtain sts where v: "core_version ?c = 1" "core_network_id ?c = ds_network_id st"
    and sts: "try_map (stored_input X) (core_inputs ?c) = Inr sts"
    and fields: "pt_inputs p = sts" "pt_valid_from_epoch p = core_valid_from_epoch ?c"
      "pt_expiry_epoch p = core_expiry_epoch ?c"
      "pt_outputs p = map (\<lambda>q. \<lparr>sto_amount_strikes = out_amount_strikes q, sto_output_type = out_output_type q,
        sto_payload = hex_encode X (out_payload q)\<rparr>) (core_outputs ?c)"
      "pt_witnesses p = map (\<lambda>w. \<lparr>stw_witness_type = wit_witness_type w,
        stw_payload = hex_encode X (wit_payload w)\<rparr>) (tx_witnesses tx)"
    using p by (auto simp: pending_from_transaction_def Let_def split: if_splits)
  have "list_all wf_input (core_inputs ?c)" using wf by (simp add: wf_tx_def wf_core_def)
  then show ?thesis
    unfolding to_transaction_for_network_def fields
    by (simp add: stored_inputs [OF X sts] stored_outputs [OF X] stored_witnesses [OF X] flip: v)
qed

lemma apply_pending_tx:
  "apply_pending H E X st epoch height ops us p = Inr (v, us') \<Longrightarrow>
   to_transaction_for_network X p (ds_network_id st) = Inr (vt_tx v)"
  by (auto simp: apply_pending_def apply_ordinary_def Let_def split: option.splits if_splits prod.splits)

lemma apply_pendings_txs:
  assumes "apply_pendings H E X st epoch height ops us ps = Inr (out, us')"
    and "list_all2 (\<lambda>p tx. to_transaction_for_network X p (ds_network_id st) = Inr tx) ps txs"
  shows "map vt_tx out = txs"
  using assms
proof (induction ps arbitrary: us out txs)
  case (Cons p ps)
  then obtain tx txs' where txs: "txs = tx # txs'"
    "to_transaction_for_network X p (ds_network_id st) = Inr tx"
    "list_all2 (\<lambda>p tx. to_transaction_for_network X p (ds_network_id st) = Inr tx) ps txs'"
    by (auto simp: list_all2_Cons1)
  obtain v us1 out1 where v: "apply_pending H E X st epoch height ops us p = Inr (v, us1)"
    and rest: "apply_pendings H E X st epoch height ops us1 ps = Inr (out1, us')" and out: "out = v # out1"
    using Cons.prems(1) by auto
  show ?case using Cons.IH [OF rest txs(3)] apply_pending_tx [OF v] txs(1,2) by (simp add: out)
qed simp

lemma pendings_inverse:
  assumes "hex_sound X" and "list_all wf_tx txs" and "try_map (pending_from_transaction H X st) txs = Inr ps"
  shows "list_all2 (\<lambda>p tx. to_transaction_for_network X p (ds_network_id st) = Inr tx) ps txs"
  using assms(2,3)
  by (induction txs arbitrary: ps) (auto simp: pending_from_transaction_inverse [OF assms(1)])

section \<open>Fees and the coinbase\<close>

lemma split_fees_sums:
  assumes "split_fees f t vs = Inr (vs', f', t')"
  shows "unat f' = unat f + (\<Sum>v\<leftarrow>vs. unat (vt_fee v))"
    and "unat t' = unat t + (\<Sum>v\<leftarrow>vs. unat (vt_base_fee v) div 2)"
    and "map vt_tx vs' = map vt_tx vs" and "map vt_base_fee vs' = map vt_base_fee vs"
  using assms
  by (induction vs arbitrary: f t vs') (auto simp: checked_add_Some_iff unat_div)

lemma expected_coinbase_value:
  "(\<Sum>q\<leftarrow>expected_coinbase_outputs H n m a t. unat (out_amount_strikes q)) = unat m + unat t"
  "(\<Sum>q\<leftarrow>expected_coinbase_outputs H n m a t. treasury_out q) = unat t"
  by (auto simp: expected_coinbase_outputs_def treasury_out_def PUBKEY_HASH_not_treasury treasury_controlled_def word_gt_0)

text \<open>What a settlement has gone through.\<close>

lemma settle_block_run:
  assumes "settle_block H E X st license txs ops epoch parent root = Inr (out, fees, share, us', issued, weight)"
  obtains ps out1 us1 miner address where
    "try_map (pending_from_transaction H X st) (tl txs) = Inr ps"
    and "apply_pendings H E X (st\<lparr>ds_mempool := ps\<rparr>) epoch (ds_height st + 1) ops (ds_utxos st) ps = Inr (out1, us1)"
    and "split_fees 0 0 out1 = Inr (out, fees, share)"
    and "unat share \<le> unat fees" and "unat miner = unat (subsidy epoch) + (unat fees - unat share)"
    and "core_outputs (tx_core (hd txs)) = expected_coinbase_outputs H (ds_network_id st) miner address share"
    and "add_outputs_as_utxos H X us1 (hd txs) epoch (ds_height st + 1) True = Inr us'"
    and "unat issued = unat (ds_total_issued_strikes st) + unat (subsidy epoch)"
  using assms
  by (auto simp: settle_block_def Let_def validate_and_apply_mempool_def checked_add_Some_iff checked_sub_Some_iff
      split: if_splits prod.splits)

section \<open>An input on which the property is evaluated\<close>

text \<open>A block of a coinbase and the spend of the sample output.\<close>

definition settle_sample :: DevnetState where
  "settle_sample = blank_state\<lparr>ds_utxos := [sample_utxo], ds_total_issued_strikes := 5000\<rparr>"

definition sample_coinbase :: TransactionV1 where
  "sample_coinbase = \<lparr>tx_core = \<lparr>core_version = 1, core_network_id = DEVNET_NETWORK_ID, core_valid_from_epoch = 5,
     core_expiry_epoch = 0,
     core_inputs = [Coinbase \<lparr>cb_block_epoch = 5, cb_block_height = 2, cb_parent_block_hash = replicate 32 7,
        cb_protocol_operations_root = protocol_operations_empty_root tail_hash\<rparr>],
     core_outputs = expected_coinbase_outputs tail_hash DEVNET_NETWORK_ID 800000901 sample_address 99\<rparr>,
     tx_witnesses = []\<rparr>"

definition sample_miner :: LicenseState where
  "sample_miner = (hd (ds_licenses dividend_sample))\<lparr>ls_payment_address_id := hex_encode text_hex sample_address\<rparr>"

abbreviation sample_block :: "TransactionV1 list" where
  "sample_block \<equiv> [sample_coinbase, sample_spend]"

definition sample_root :: bytes where
  "sample_root = the (merkle_root tail_hash (map (tx_leaf tail_hash) sample_block))"

lemma sample_coinbase_len: "serialized_len sample_coinbase = 222"
  by (simp add: CoinbaseCommitmentV1_encode_def serialized_len_def encode_full_eq TransactionCoreV1_encode_eq sample_coinbase_def
      expected_coinbase_outputs_def treasury_id_for_network_def protocol_operations_empty_root_def
      TxOutput_encode_def WitnessV1_encode_def Let_def wire_simps encode_varuint_small sample_lengths length_sha256_domain)

lemma sample_body: "check_body tail_hash sample_root sample_block [] = Inr 422"
  by (simp add: check_body_def sample_root_def merkle_root_def block_body_weight_def Let_def varuint_len.simps sample_spend_len
      sample_coinbase_len checked_add_def BLOCK_WEIGHT_MAX_def)

lemma settle_sample_fields:
  "ds_network_id settle_sample = DEVNET_NETWORK_ID" "ds_licenses settle_sample = []" "ds_height settle_sample = 1"
  "ds_utxos settle_sample = [sample_utxo]" "ds_base_fee_rate_q32 settle_sample = BASE_FEE_MIN_Q32"
  "ds_total_issued_strikes settle_sample = 5000"
  by (simp_all add: settle_sample_def blank_state_def)

lemma sample_pending_from:
  obtains p where "pending_from_transaction tail_hash text_hex settle_sample sample_spend = Inr p"
    and "pt_txid p = hex_encode text_hex (tx_txid tail_hash sample_spend)"
    and "pt_wtxid p = hex_encode text_hex (wtxid tail_hash sample_spend)"
proof -
  have "try_map (stored_input text_hex) (core_inputs (tx_core sample_spend)) =
      Inr [\<lparr>sti_previous_txid = hex_encode text_hex (replicate 32 9), sti_previous_output_index = 0\<rparr>]"
    by (simp add: sample_spend_def sample_core_def stored_input_def)
  moreover have "stored_utxo settle_sample \<lparr>sti_previous_txid = hex_encode text_hex (replicate 32 9),
      sti_previous_output_index = 0\<rparr> = Some sample_utxo"
    by (simp add: stored_utxo_def settle_sample_fields outpoint_of_def sample_utxo_def)
  moreover have "core_version (tx_core sample_spend) = 1" "core_network_id (tx_core sample_spend) = DEVNET_NETWORK_ID"
    by (simp_all add: sample_spend_def sample_core_def)
  moreover have "try_fold (\<lambda>acc q. ok_or e (checked_add acc (out_amount_strikes q))) 0 (core_outputs (tx_core sample_spend)) = Inr 4000"
    for e :: NodeError
    by (simp add: sample_spend_def sample_core_def checked_add_def)
  moreover have "us_amount_strikes sample_utxo = 5000" "\<not> (\<exists>w\<in>set (tx_witnesses sample_spend). wit_witness_type w = WITNESS_PROTOCOL_AUTH)"
    by (simp_all add: sample_utxo_def sample_spend_def sample_witness_def Let_def pubkey_hash_witness_def
        WITNESS_PUBKEY_HASH_def WITNESS_PROTOCOL_AUTH_def)
  ultimately have "\<exists>p. pending_from_transaction tail_hash text_hex settle_sample sample_spend = Inr p \<and>
      pt_txid p = hex_encode text_hex (tx_txid tail_hash sample_spend) \<and>
      pt_wtxid p = hex_encode text_hex (wtxid tail_hash sample_spend)"
    by (simp add: pending_from_transaction_def Let_def settle_sample_fields checked_add_def
        sample_spend_len sample_base_fee)
  then show thesis using that by blast
qed

lemma sample_apply:
  assumes "to_transaction_for_network text_hex p DEVNET_NETWORK_ID = Inr sample_spend"
    and "pt_txid p = hex_encode text_hex (tx_txid tail_hash sample_spend)"
    and "pt_wtxid p = hex_encode text_hex (wtxid tail_hash sample_spend)"
  shows "\<exists>us. apply_pending tail_hash echo_ed25519 text_hex (settle_sample\<lparr>ds_mempool := [p]\<rparr>) 5 2 [] [sample_utxo] p =
     Inr (\<lparr>vt_pending = p, vt_tx = sample_spend, vt_fee = 1000, vt_base_fee = 198\<rparr>, us)"
proof -
  have "\<exists>us. add_outputs_as_utxos tail_hash text_hex [] sample_spend 5 2 False = Inr us"
    by (simp add: add_outputs_as_utxos_def) (simp add: sample_spend_def sample_core_def)
  moreover have "mempool_header_ok tail_hash text_hex (settle_sample\<lparr>ds_mempool := [p]\<rparr>) p sample_spend 5 = Inr ()"
    using assms(2,3) by (simp add: mempool_header_ok_def Let_def settle_sample_fields)
      (simp add: sample_spend_def sample_core_def)
  ultimately show ?thesis
    by (auto simp: apply_pending_def assms(1) settle_sample_fields claim_operation_for_tx_def apply_ordinary_def
        sample_inputs sample_outputs sample_spend_len sample_base_fee)
qed

lemma sample_wf: "wf_tx sample_spend"
  by (simp add: wf_tx_def wf_core_def sample_spend_def sample_core_def sample_lengths len64_def)

lemma sample_check_coinbase:
  "check_coinbase tail_hash DEVNET_NETWORK_ID sample_coinbase [] 5 2 (replicate 32 7) = Inr ()"
  by (simp add: check_coinbase_def sample_coinbase_def protocol_operations_root_def protocol_operations_empty_root_def)

lemma sample_settles:
  "\<exists>out us' issued. settle_block tail_hash echo_ed25519 text_hex settle_sample sample_miner sample_block [] 5
     (replicate 32 7) sample_root = Inr (out, 1000, 99, us', issued, 422)"
proof -
  obtain p where p: "pending_from_transaction tail_hash text_hex settle_sample sample_spend = Inr p"
    and ids: "pt_txid p = hex_encode text_hex (tx_txid tail_hash sample_spend)"
      "pt_wtxid p = hex_encode text_hex (wtxid tail_hash sample_spend)"
    by (rule sample_pending_from)
  have "to_transaction_for_network text_hex p DEVNET_NETWORK_ID = Inr sample_spend"
    using pending_from_transaction_inverse [OF text_hex_sound sample_wf p] by (simp add: settle_sample_fields)
  then obtain us where a: "apply_pending tail_hash echo_ed25519 text_hex (settle_sample\<lparr>ds_mempool := [p]\<rparr>) 5 2 []
      [sample_utxo] p = Inr (\<lparr>vt_pending = p, vt_tx = sample_spend, vt_fee = 1000, vt_base_fee = 198\<rparr>, us)"
    using sample_apply ids by blast
  have s: "subsidy 5 = 800000000"
    by (simp add: subsidy_def ERA_LENGTH_def STRIKES_PER_MUT_def)
  have d: "decode32 text_hex (ls_payment_address_id sample_miner) = Inr sample_address"
    by (simp add: sample_miner_def decode32_encode [OF text_hex_sound] sample_lengths)
  have o: "core_outputs (tx_core sample_coinbase) =
      expected_coinbase_outputs tail_hash DEVNET_NETWORK_ID 800000901 sample_address 99"
    by (simp add: sample_coinbase_def)
  have "\<exists>us'. add_outputs_as_utxos tail_hash text_hex us sample_coinbase 5 2 True = Inr us'"
    by (simp add: add_outputs_as_utxos_def o expected_coinbase_outputs_def)
  then show ?thesis
    by (auto simp: settle_block_def Let_def sample_body p a s d o validate_and_apply_mempool_def settle_sample_fields
        checked_add_def checked_sub_def sample_check_coinbase)
qed

section \<open>Properties\<close>

text \<open>C1. A settled block issues exactly its subsidy: the transactions validated are the block's own,
  in order; the unspent outputs and the count of issued strikes both grow by the subsidy of the
  epoch, fees included in the coinbase; and the Treasury gains the licence payments and half of
  every base fee, and loses the dividends claimed.\<close>

theorem block_issues_subsidy:
  assumes X: "hex_sound X" and wf: "list_all wf_tx (tl txs)"
    and run: "settle_block H E X st license txs ops epoch parent root = Inr (out, fees, share, us', issued, weight)"
  shows "map vt_tx out = tl txs \<and>
    total_value us' = total_value (ds_utxos st) + unat (subsidy epoch) \<and>
    unat issued = unat (ds_total_issued_strikes st) + unat (subsidy epoch) \<and>
    unat share = (\<Sum>v\<leftarrow>out. unat (vt_base_fee v) div 2) \<and>
    treasury_value us' + (\<Sum>tx\<leftarrow>tl txs. claimed H ops tx) =
      treasury_value (ds_utxos st) + (\<Sum>tx\<leftarrow>tl txs. paid_in H ops tx) + unat share"
proof -
  obtain ps out1 us1 miner address where
    ps: "try_map (pending_from_transaction H X st) (tl txs) = Inr ps"
    and apply_: "apply_pendings H E X (st\<lparr>ds_mempool := ps\<rparr>) epoch (ds_height st + 1) ops (ds_utxos st) ps = Inr (out1, us1)"
    and split_: "split_fees 0 0 out1 = Inr (out, fees, share)"
    and le: "unat share \<le> unat fees" and miner: "unat miner = unat (subsidy epoch) + (unat fees - unat share)"
    and outs: "core_outputs (tx_core (hd txs)) = expected_coinbase_outputs H (ds_network_id st) miner address share"
    and add: "add_outputs_as_utxos H X us1 (hd txs) epoch (ds_height st + 1) True = Inr us'"
    and issued: "unat issued = unat (ds_total_issued_strikes st) + unat (subsidy epoch)"
    by (rule settle_block_run [OF run])
  note sums = split_fees_sums [OF split_]
  have txs: "map vt_tx out1 = tl txs"
    by (rule apply_pendings_txs [OF apply_]) (use pendings_inverse [OF X wf ps] in simp)
  have "(\<Sum>v\<leftarrow>out1. g (vt_tx v)) = (\<Sum>tx\<leftarrow>tl txs. g tx)" for g :: "TransactionV1 \<Rightarrow> nat"
    by (simp flip: txs add: comp_def)
  moreover have "(\<Sum>v\<leftarrow>out1. unat (vt_base_fee v) div 2) = (\<Sum>v\<leftarrow>out. unat (vt_base_fee v) div 2)"
    using arg_cong [OF sums(4), of "\<lambda>bs. \<Sum>b\<leftarrow>bs. unat b div 2"] by (simp add: comp_def)
  ultimately show ?thesis
    using apply_pendings_value [OF apply_] add_outputs_value(1,2) [OF add] sums txs le miner issued
    by (simp add: outs expected_coinbase_value)
qed

theorem block_issues_subsidy_witness:
  "\<exists>out us' issued. settle_block tail_hash echo_ed25519 text_hex settle_sample sample_miner sample_block [] 5
     (replicate 32 7) sample_root = Inr (out, 1000, 99, us', issued, 422) \<and>
     map vt_tx out = [sample_spend] \<and> total_value us' = 800005000 \<and> unat issued = 800005000 \<and> treasury_value us' = 99"
proof -
  obtain out us' issued where run: "settle_block tail_hash echo_ed25519 text_hex settle_sample sample_miner sample_block []
      5 (replicate 32 7) sample_root = Inr (out, 1000, 99, us', issued, 422)"
    using sample_settles by blast
  have "list_all wf_tx (tl sample_block)" by (simp add: sample_wf)
  from block_issues_subsidy [OF text_hex_sound this run]
  have "map vt_tx out = [sample_spend] \<and> total_value us' = 800005000 \<and> unat issued = 800005000 \<and> treasury_value us' = 99"
    by (simp add: settle_sample_fields amount_def treasury_amount_def treasury_controlled_def sample_utxo_def
        claimed_def paid_in_def claim_operation_for_tx_def license_paid_def sample_spend_def sample_core_def
        subsidy_def ERA_LENGTH_def STRIKES_PER_MUT_def)
  with run show ?thesis by (intro exI conjI) (elim conjE, assumption)+
qed

end
