(* ===== verification/Spec2Isabelle.thy ===== *)
theory Spec2Isabelle
  imports Consensus Transaction License Bitcoin_Rules Purchase Endpoint Ledger Duplex Block
begin

text \<open>
  Verification of the Mutiny protocol node (src/crates).

  \<^bold>\<open>The program.\<close> A Rust workspace for a chain in which licences entitle their holders to a
  bounded number of proof-of-work tickets per epoch. Its crates are layered. The byte codec
  (mutiny-codec) and domain-separated hashing (mutiny-crypto) are used by everything else. On them
  stand the consensus arithmetic (mutiny-consensus), transactions (mutiny-transaction), the
  authenticated state (mutiny-state), Bitcoin evidence (mutiny-bitcoin) and protocol operations
  (mutiny-protocol), which issue, transfer, punish and reward licences. Nodes talk to each other
  over mutiny-p2p and mutiny-duplex and to external miners over mutiny-worker. The node
  (mutiny-node) keeps the chain state and applies blocks to it with all of the above.

  \<^bold>\<open>Theories and sources.\<close> Definitions keep the names of the source; a method carries its type's
  name where the bare name is used twice, and record fields carry a short prefix. A constant that is
  one line of the source keeps its name and value.

  \<^item> Prelude: results and their sequencing (\<open>rbind\<close>, \<open>map_err\<close>, \<open>ok_or\<close>), checked and saturating
    machine arithmetic, big- and little-endian bytes, and the interfaces \<open>byte_codec\<close>,
    \<open>canonical_codec\<close>, \<open>message_codec\<close>, \<open>step_invariant\<close> and \<open>ranked_steps\<close>.
  \<^item> Codec: mutiny-codec/src/lib.rs. Every reader and its writer form a canonical codec.
  \<^item> Crypto: mutiny-crypto/src/lib.rs and domains.rs. Digests of different domains differ.
  \<^item> Consensus: mutiny-consensus/src/lib.rs. \<open>work_units\<close> is the least solution of the published
    inequality; \<open>derive_target\<close> is the exact saturated quotient.
  \<^item> Merkle: the reduction shared by transaction and operation roots, interface \<open>merkle_domains\<close>.
  \<^item> Transaction: mutiny-transaction/src/lib.rs. Decoding is exact; ids, roots and signature hashes
    commit to what they are computed from; a multisig spend needs its quorum.
  \<^item> Ordered_Map: the standard library's \<open>BTreeMap\<close>, interface \<open>ordered_map\<close>.
  \<^item> Smt, State: mutiny-state/src/lib.rs. The sparse root is the root of the full tree of depth 256,
    accepted compressed proofs are sound, and roots determine the state.
  \<^item> Operations, License, Purchase: mutiny-protocol/src/lib.rs. Wire formats are exact; licence
    transitions keep the record valid, cannot be replayed, and their error paths are described.
  \<^item> Bitcoin, Bitcoin_Rules: mutiny-bitcoin/src/lib.rs. The parser is exact; accepted headers and
    payment proofs satisfy the rules.
  \<^item> Effects: programs with early return over a state, TCP streams, signing keys.
  \<^item> P2p: mutiny-p2p/src/lib.rs. Handshakes agree, complete between honest peers, and are bound to
    fresh signatures.
  \<^item> Worker, Endpoint, Ledger: mutiny-worker/src/lib.rs, endpoint.rs with reference.rs, ledger.rs.
    Messages, sessions, the reference worker and the ledger file under crashes.
  \<^item> Duplex: mutiny-duplex/src/lib.rs. Limits hold in every run; how a request is answered; how a
    slot leaks.
  \<^item> Node: mutiny-node/src/main.rs (with the stored structures of dividends.rs, punishment.rs,
    presence.rs, bitcoin_headers.rs). Subsidy, base fee, difficulty history, operation decoders.
  \<^item> Funds: \<open>validate_and_apply_mempool\<close> and \<open>add_outputs_as_utxos\<close> of main.rs and the dividend
    payments of dividends.rs. Value is conserved and outputs are spent only by those entitled.
  \<^item> Dividends: dividends.rs. The reserve always equals the claimable amounts and is backed.
  \<^item> Block: the settlement inside \<open>validate_and_apply_block\<close> of blocksync.rs, and
    \<open>pending_from_transaction\<close>. A settled block issues exactly its subsidy.

  \<^bold>\<open>State and operations.\<close> A struct is a record, an enum a datatype, an integer a word of its width,
  an array a list of bytes whose length is part of the well-formedness predicates. A function with
  \<open>&mut\<close> arguments returns their final values; in the node, where the caller drops the state of a
  failed step, an error carries none. Loops are structural recursion, or recursion with a
  termination proof; no definition uses fuel. Transition systems (licence lives, dividends, duplex
  sessions, ledger operations) are inductive relations, and their invariants hold in every reachable
  state.

  \<^bold>\<open>Parameters.\<close> Third-party code is an argument of the definitions that use it: \<open>H\<close> for SHA-256,
  \<open>argon2_lib\<close> for Argon2id, \<open>ed25519_lib\<close> and \<open>ed25519_keys\<close> for ed25519_dalek, \<open>hex_lib\<close> for the
  crate hex. Commitment properties assume that \<open>H\<close> does not collide on the finitely many strings
  that are hashed; the node assumes that decoding inverts hexadecimal encoding (\<open>hex_sound\<close>).
  Nonces, times and the outcome of every file-system call are arguments. \<open>usize\<close> has 64 bits,
  mutexes are not poisoned, and renames reach the disk in program order. BigUint is \<open>nat\<close>.

  \<^bold>\<open>Not modelled.\<close> In \<open>validate_and_apply_block\<close>, what comes before the check of the body (header
  fields, eligibility, proof of work, signature) and after the supply count (protocol operations,
  state root, commit); so \<open>settle_block\<close> takes the state at the block's epoch, the miner's licence
  and the header's parent and root as arguments. Also the rest of blocksync.rs (block payloads,
  reorganisation, synchronisation); the application of purchases, transfers, rotations, header
  imports, presence and punishment to the node's stored state (main.rs, bitcoin.rs,
  bitcoin_headers.rs, presence.rs, punishment.rs), whose protocol-level transitions are in License,
  Operations and Bitcoin; bootstrap.rs and mainnet_bootstrap.rs, which build one fixed block;
  storage.rs and mining_signer.rs, which work on directories, locks and platform calls;
  worker_mining.rs, worker_runtime.rs, worker_scheduler.rs and worker_service.rs, which run threads
  and listeners around the worker link; the command line, networking and rpc.rs; mutiny-types, whose
  newtypes are byte lists here; key files and randomness of mutiny-p2p; mutiny-keystore, which
  wraps third-party ciphers; and the firmware under src/firmware.
\<close>

end
